(* ===== verification/Prelude.thy ===== *)
theory Prelude
  imports Main "HOL-Library.Word" "HOL-Library.Sublist" "HOL-Library.Multiset" "HOL-Library.Code_Target_Nat"
begin

text \<open>
  Shared vocabulary of the development: machine integers and byte strings, the result type of
  fallible code with its sequencing operator, slices of byte buffers, little-endian encoding,
  saturating and wrapping arithmetic, and the two interfaces the codecs of the program share:
  \<open>wire_codec\<close> for readers that advance an offset through a buffer, and \<open>script_codec\<close> for
  whole-script encoders and parsers.
\<close>

unbundle bit_operations_syntax

named_theorems slice_simps \<open>normalising slices of byte buffers\<close>
named_theorems wire_simps \<open>evaluating the readers of the wire formats\<close>

section \<open>Machine types\<close>

type_synonym u8 = "8 word"
type_synonym u16 = "16 word"
type_synonym u32 = "32 word"
type_synonym u64 = "64 word"
type_synonym bytes = "u8 list"

section \<open>Results\<close>

text \<open>
  Fallible code returns \<open>Inl e\<close> where the source returns \<open>Err(e)\<close> or panics, and \<open>Inr v\<close> where
  it returns \<open>Ok(v)\<close>. A loop that may not end takes fuel and returns \<open>OutOfFuel\<close> when it runs out.
  Arguments that the source formats into a message are left out of it.
\<close>

datatype err = Err string | Panic | OutOfFuel

definition bindE :: "'e + 'a \<Rightarrow> ('a \<Rightarrow> 'e + 'b) \<Rightarrow> 'e + 'b" where
  "bindE m f = (case m of Inl e \<Rightarrow> Inl e | Inr v \<Rightarrow> f v)"

lemma bindE_simps [simp]:
  "bindE (Inl e) f = Inl e"
  "bindE (Inr v) f = f v"
  by (simp_all add: bindE_def)

lemma bindE_eq_Inr: "bindE m f = Inr w \<longleftrightarrow> (\<exists>v. m = Inr v \<and> f v = Inr w)"
  by (cases m) auto

lemma bindE_eq_Inl:
  "bindE m f = Inl e \<longleftrightarrow> m = Inl e \<or> (\<exists>v. m = Inr v \<and> f v = Inl e)"
  by (cases m) auto

lemma bindE_InrE:
  assumes "bindE m f = Inr w"
  obtains v where "m = Inr v" "f v = Inr w"
  using assms by (cases m) auto

lemma bindE_cong [fundef_cong]:
  "m = m' \<Longrightarrow> (\<And>v. m' = Inr v \<Longrightarrow> f v = f' v) \<Longrightarrow> bindE m f = bindE m' f'"
  by (cases m') auto

text \<open>The \<open>?\<close> operator on a guard: fail with \<open>e\<close> unless the condition holds.\<close>

definition ensure :: "bool \<Rightarrow> 'e \<Rightarrow> 'e + unit" where
  "ensure b e = (if b then Inr () else Inl e)"

lemma ensure_simps [simp]:
  "ensure True e = Inr ()"
  "ensure False e = Inl e"
  by (simp_all add: ensure_def)

lemma ensure_eq_Inr [simp]: "ensure b e = Inr u \<longleftrightarrow> b"
  by (simp add: ensure_def)

lemma ensure_eq_Inl [simp]: "ensure b e = Inl e' \<longleftrightarrow> \<not> b \<and> e' = e"
  by (auto simp: ensure_def)

lemma bindE_ensure: "bindE (ensure b e) f = (if b then f () else Inl e)"
  by (simp add: ensure_def)

section \<open>Slices\<close>

definition slice :: "'a list \<Rightarrow> nat \<Rightarrow> nat \<Rightarrow> 'a list" where
  "slice xs a b = take (b - a) (drop a xs)"

lemma length_slice [simp]: "length (slice xs a b) = min b (length xs) - a"
  by (simp add: slice_def)

lemma slice_all [slice_simps]: "slice xs 0 (length xs) = xs"
  by (simp add: slice_def)

lemma slice_full [slice_simps]: "n = length xs \<Longrightarrow> slice xs 0 n = xs"
  by (simp add: slice_def)

lemma slice_join [slice_simps]:
  assumes "a \<le> b" "b \<le> c"
  shows "slice xs a b @ slice xs b c = slice xs a c"
proof -
  have "take (c - a) (drop a xs) = take ((b - a) + (c - b)) (drop a xs)"
    using assms by simp
  also have "\<dots> = take (b - a) (drop a xs) @ take (c - b) (drop (b - a) (drop a xs))"
    by (rule take_add)
  also have "drop (b - a) (drop a xs) = drop b xs"
    using assms by simp
  finally show ?thesis by (simp add: slice_def)
qed

lemma slice_join_append [slice_simps]:
  "a \<le> b \<Longrightarrow> b \<le> c \<Longrightarrow> slice xs a b @ slice xs b c @ ys = slice xs a c @ ys"
  by (simp add: slice_join flip: append_assoc)

lemma nth_Cons_slice [slice_simps]:
  assumes "i < length xs" "Suc i \<le> b"
  shows "xs ! i # slice xs (Suc i) b = slice xs i b"
proof -
  have "drop i xs = xs ! i # drop (Suc i) xs"
    using assms(1) by (simp add: Cons_nth_drop_Suc)
  moreover have "b - i = Suc (b - Suc i)" using assms(2) by simp
  ultimately show ?thesis by (simp add: slice_def)
qed

lemma nth_Cons_slice_append [slice_simps]:
  "i < length xs \<Longrightarrow> Suc i \<le> b \<Longrightarrow> xs ! i # slice xs (Suc i) b @ ys = slice xs i b @ ys"
  by (metis append_Cons nth_Cons_slice)

lemma nth_Cons_slice_at [slice_simps]:
  "i < length xs \<Longrightarrow> j = Suc i \<Longrightarrow> j \<le> b \<Longrightarrow> xs ! i # slice xs j b = slice xs i b"
  by (simp add: nth_Cons_slice)

lemma nth_Cons_slice_append_at [slice_simps]:
  "i < length xs \<Longrightarrow> j = Suc i \<Longrightarrow> j \<le> b \<Longrightarrow> xs ! i # slice xs j b @ ys = slice xs i b @ ys"
  by (simp add: nth_Cons_slice_append)

lemma slice_singleton [slice_simps]: "i < length xs \<Longrightarrow> [xs ! i] = slice xs i (Suc i)"
  by (simp add: slice_def take_Suc_conv_app_nth hd_drop_conv_nth  Cons_nth_drop_Suc[symmetric])

lemma slice_append_drop: "a \<le> b \<Longrightarrow> slice xs a b @ drop b xs = drop a xs"
  by (metis append_take_drop_id drop_drop le_add_diff_inverse2 slice_def)

lemma drop_eq_append_slice:
  assumes "drop a xs = ys @ zs"
  shows "slice xs a (a + length ys) = ys" "drop (a + length ys) xs = zs"
proof -
  show "slice xs a (a + length ys) = ys" using assms by (simp add: slice_def)
  have "drop (a + length ys) xs = drop (length ys) (drop a xs)" by (simp add: add.commute)
  then show "drop (a + length ys) xs = zs" using assms by simp
qed

lemma drop_eq_append_length:
  assumes "drop a xs = ys @ zs" "ys \<noteq> []"
  shows "a + length ys \<le> length xs"
proof -
  have "length xs - a = length ys + length zs"
    using assms(1) by (metis length_append length_drop)
  moreover have "0 < length ys" using assms(2) by simp
  ultimately show ?thesis by linarith
qed

lemma drop_eq_Cons:
  assumes "drop a xs = y # zs"
  shows "a < length xs" "xs ! a = y" "drop (Suc a) xs = zs"
proof -
  show a: "a < length xs" using assms by (metis drop_all linorder_not_less list.distinct(1))
  show "xs ! a = y" using a assms by (metis hd_drop_conv_nth list.sel(1))
  show "drop (Suc a) xs = zs" using assms by (metis drop_Suc list.sel(3) tl_drop)
qed

lemma drop_append_le:
  assumes "off \<le> length buf" "drop off buf = xs @ rest"
  shows "off + length xs \<le> length buf"
  using assms by (cases "xs = []") (auto dest: drop_eq_append_length)

section \<open>Little-endian encoding\<close>

text \<open>\<open>le_bytes k n\<close> are the \<open>k\<close> low bytes of \<open>n\<close>, least significant first.\<close>

fun le_bytes :: "nat \<Rightarrow> nat \<Rightarrow> bytes" where
  "le_bytes 0 n = []"
| "le_bytes (Suc k) n = word_of_nat n # le_bytes k (n div 256)"

fun le_val :: "bytes \<Rightarrow> nat" where
  "le_val [] = 0"
| "le_val (b # bs) = unat b + 256 * le_val bs"

lemma length_le_bytes [simp]: "length (le_bytes k n) = k"
  by (induction k arbitrary: n) auto

lemma le_bytes_eq_Nil [simp]: "le_bytes k n = [] \<longleftrightarrow> k = 0"
  by (cases k) auto

lemma unat_u8_lt: "unat (b :: u8) < 256"
  using unsigned_less [of b, where 'a = nat] by simp

lemma le_val_le_bytes: "le_val (le_bytes k n) = n mod 256 ^ k"
proof (induction k arbitrary: n)
  case 0
  then show ?case by simp
next
  case (Suc k)
  have "le_val (le_bytes (Suc k) n) = n mod 256 + 256 * (n div 256 mod 256 ^ k)"
    by (simp add: Suc unat_of_nat)
  also have "\<dots> = n mod (256 * 256 ^ k)"
    by (simp add: mod_mult2_eq)
  finally show ?case by simp
qed

lemma le_val_bound: "le_val bs < 256 ^ length bs"
proof (induction bs)
  case Nil
  then show ?case by simp
next
  case (Cons b bs)
  have "unat b + 256 * le_val bs < 256 * (le_val bs + 1)" using unat_u8_lt [of b] by simp
  also have "\<dots> \<le> 256 * 256 ^ length bs" using Cons by simp
  finally show ?case by simp
qed

lemma le_bytes_le_val: "le_bytes (length bs) (le_val bs) = bs"
proof (induction bs)
  case Nil
  then show ?case by simp
next
  case (Cons b bs)
  have "(unat b + 256 * le_val bs) div 256 = le_val bs"
    using unat_u8_lt [of b] by simp
  moreover have "(word_of_nat (unat b + 256 * le_val bs) :: u8) = b"
  proof -
    have "unat (word_of_nat (unat b + 256 * le_val bs) :: u8) = (unat b + 256 * le_val bs) mod 256"
      by (simp only: unat_of_nat) simp
    also have "\<dots> = unat b" using unat_u8_lt [of b] by simp
    finally show ?thesis by (simp only: word_unat_eq_iff)
  qed
  ultimately show ?case using Cons by simp
qed

definition u16_le :: "u16 \<Rightarrow> bytes" where
  "u16_le w = le_bytes 2 (unat w)"

definition u32_le :: "u32 \<Rightarrow> bytes" where
  "u32_le w = le_bytes 4 (unat w)"

definition u64_le :: "u64 \<Rightarrow> bytes" where
  "u64_le w = le_bytes 8 (unat w)"

definition le_u16 :: "bytes \<Rightarrow> u16" where
  "le_u16 bs = word_of_nat (le_val bs)"

definition le_u32 :: "bytes \<Rightarrow> u32" where
  "le_u32 bs = word_of_nat (le_val bs)"

definition le_u64 :: "bytes \<Rightarrow> u64" where
  "le_u64 bs = word_of_nat (le_val bs)"

lemma length_u_le [simp]:
  "length (u16_le w2) = 2" "length (u32_le w4) = 4" "length (u64_le w8) = 8"
  by (simp_all add: u16_le_def u32_le_def u64_le_def)

lemma u_le_neq_Nil [simp]:
  "u16_le w2 \<noteq> []" "u32_le w4 \<noteq> []" "u64_le w8 \<noteq> []"
  by (simp_all add: u16_le_def u32_le_def u64_le_def)

lemma le_u16_u16_le [simp]: "le_u16 (u16_le w) = w"
  using unsigned_less [of w, where 'a = nat] by (simp add: le_u16_def u16_le_def le_val_le_bytes)

lemma le_u32_u32_le [simp]: "le_u32 (u32_le w) = w"
  using unsigned_less [of w, where 'a = nat] by (simp add: le_u32_def u32_le_def le_val_le_bytes)

lemma le_u64_u64_le [simp]: "le_u64 (u64_le w) = w"
  using unsigned_less [of w, where 'a = nat] by (simp add: le_u64_def u64_le_def le_val_le_bytes)

lemma u16_le_le_u16: "length bs = 2 \<Longrightarrow> u16_le (le_u16 bs) = bs"
  using le_val_bound [of bs] le_bytes_le_val [of bs]
  by (simp add: le_u16_def u16_le_def unat_of_nat)

lemma u32_le_le_u32: "length bs = 4 \<Longrightarrow> u32_le (le_u32 bs) = bs"
  using le_val_bound [of bs] le_bytes_le_val [of bs]
  by (simp add: le_u32_def u32_le_def unat_of_nat)

lemma u64_le_le_u64: "length bs = 8 \<Longrightarrow> u64_le (le_u64 bs) = bs"
  using le_val_bound [of bs] le_bytes_le_val [of bs]
  by (simp add: le_u64_def u64_le_def unat_of_nat)

lemma u_le_slice [slice_simps]:
  "length bs2 = 2 \<Longrightarrow> u16_le (le_u16 bs2) = bs2"
  "length bs4 = 4 \<Longrightarrow> u32_le (le_u32 bs4) = bs4"
  "length bs8 = 8 \<Longrightarrow> u64_le (le_u64 bs8) = bs8"
  by (simp_all add: u16_le_le_u16 u32_le_le_u32 u64_le_le_u64)

section \<open>Sequences of items in a buffer\<close>

text \<open>
  \<open>read_many n d buf off\<close> is the loop \<open>for _ in 0..n\<close> that reads an item at the current offset,
  advances the offset and collects the items.
\<close>

fun read_many :: "nat \<Rightarrow> (bytes \<Rightarrow> nat \<Rightarrow> 'e + 'a \<times> nat) \<Rightarrow> bytes \<Rightarrow> nat \<Rightarrow> 'e + 'a list \<times> nat" where
  "read_many 0 d buf off = Inr ([], off)"
| "read_many (Suc n) d buf off =
     bindE (d buf off) (\<lambda>(x, off). bindE (read_many n d buf off) (\<lambda>(xs, off). Inr (x # xs, off)))"

lemma read_many_length:
  "read_many n d buf off = Inr (xs, off') \<Longrightarrow> length xs = n"
  by (induction n arbitrary: off xs) (auto simp: bindE_eq_Inr)

lemma read_many_all:
  assumes "\<And>off x off'. d buf off = Inr (x, off') \<Longrightarrow> P x"
    and "read_many n d buf off = Inr (xs, off')"
  shows "list_all P xs"
  using assms(2)
proof (induction n arbitrary: off xs)
  case 0
  then show ?case by simp
next
  case (Suc n)
  then obtain x o1 xs' where "d buf off = Inr (x, o1)"
    "read_many n d buf o1 = Inr (xs', off')" "xs = x # xs'"
    by (auto simp: bindE_eq_Inr)
  then show ?case using Suc.IH assms(1) by auto
qed

lemma read_many_bounds:
  assumes "\<And>off x off'. d buf off = Inr (x, off') \<Longrightarrow> off \<le> off' \<and> off' \<le> length buf"
    and "read_many n d buf off = Inr (xs, off')" and "off \<le> length buf"
  shows "off \<le> off' \<and> off' \<le> length buf"
  using assms(2,3)
proof (induction n arbitrary: off xs)
  case 0
  then show ?case by simp
next
  case (Suc n)
  then obtain x o1 xs' where r: "d buf off = Inr (x, o1)"
    "read_many n d buf o1 = Inr (xs', off')"
    by (auto simp: bindE_eq_Inr)
  from assms(1) [OF r(1)] Suc.IH [OF r(2)] show ?case by linarith
qed

lemma read_many_map:
  assumes step: "\<And>x off rest. x \<in> set xs \<Longrightarrow> off \<le> length buf \<Longrightarrow> drop off buf = enc x @ rest \<Longrightarrow>
      d buf off = Inr (f x, off + length (enc x))"
    and "off \<le> length buf" "drop off buf = concat (map enc xs) @ rest"
  shows "read_many (length xs) d buf off = Inr (map f xs, off + length (concat (map enc xs)))"
  using assms
proof (induction xs arbitrary: off)
  case Nil
  then show ?case by simp
next
  case (Cons x xs)
  have d: "drop off buf = enc x @ concat (map enc xs) @ rest" using Cons.prems(3) by simp
  have x: "d buf off = Inr (f x, off + length (enc x))"
    using Cons.prems(1) [OF _ Cons.prems(2) d] by simp
  have "off + length (enc x) \<le> length buf" by (rule drop_append_le [OF Cons.prems(2) d])
  moreover have "drop (off + length (enc x)) buf = concat (map enc xs) @ rest"
    by (rule drop_eq_append_slice(2) [OF d])
  ultimately have "read_many (length xs) d buf (off + length (enc x))
      = Inr (map f xs, off + length (enc x) + length (concat (map enc xs)))"
    using Cons.prems(1) by (intro Cons.IH) auto
  then show ?case using x by simp
qed

section \<open>Loops that may fail\<close>

text \<open>\<open>foldE f xs s\<close> is the loop \<open>for x in xs\<close> whose body updates the state \<open>s\<close> or returns an error.\<close>

fun foldE :: "('a \<Rightarrow> 's \<Rightarrow> 'e + 's) \<Rightarrow> 'a list \<Rightarrow> 's \<Rightarrow> 'e + 's" where
  "foldE f [] s = Inr s"
| "foldE f (x # xs) s = bindE (f x s) (foldE f xs)"

lemma foldE_invariant:
  assumes "foldE f xs s = Inr s'" "I s"
    and "\<And>x s s'. x \<in> set xs \<Longrightarrow> I s \<Longrightarrow> f x s = Inr s' \<Longrightarrow> I s'"
  shows "I s'"
  using assms by (induction xs arbitrary: s) (auto simp: bindE_eq_Inr)

lemma foldE_no_error:
  assumes "I s" "\<And>x s s'. x \<in> set xs \<Longrightarrow> I s \<Longrightarrow> f x s = Inr s' \<Longrightarrow> I s'"
    and "\<And>x s. x \<in> set xs \<Longrightarrow> I s \<Longrightarrow> f x s \<noteq> Inl e"
  shows "foldE f xs s \<noteq> Inl e"
  using assms by (induction xs arbitrary: s) (auto simp: bindE_eq_Inl)

lemma foldE_append: "foldE f (xs @ ys) s = bindE (foldE f xs s) (foldE f ys)"
  by (induction xs arbitrary: s) (auto simp: bindE_def split: sum.splits)

lemma foldE_eq_Inr_Cons:
  "foldE f (x # xs) s = Inr s' \<longleftrightarrow> (\<exists>s1. f x s = Inr s1 \<and> foldE f xs s1 = Inr s')"
  by (simp add: bindE_eq_Inr)

section \<open>Methods on a mutable state\<close>

text \<open>
  A method \<open>fn m(&mut self) -> Result<A, String>\<close> is a function of the state to its result and the
  state it leaves behind. The state is there on an error too: what was changed before the error stays.
\<close>

definition bindS ::
  "('s \<Rightarrow> ('e + 'a) \<times> 's) \<Rightarrow> ('a \<Rightarrow> 's \<Rightarrow> ('e + 'b) \<times> 's) \<Rightarrow> 's \<Rightarrow> ('e + 'b) \<times> 's" where
  "bindS m f s = (case m s of (Inl e, s') \<Rightarrow> (Inl e, s') | (Inr a, s') \<Rightarrow> f a s')"

definition liftE :: "'e + 'a \<Rightarrow> 's \<Rightarrow> ('e + 'a) \<times> 's" where
  "liftE r s = (r, s)"

fun foldS :: "('x \<Rightarrow> 'a \<Rightarrow> 's \<Rightarrow> ('e + 'a) \<times> 's) \<Rightarrow> 'x list \<Rightarrow> 'a \<Rightarrow> 's \<Rightarrow> ('e + 'a) \<times> 's" where
  "foldS f [] a s = (Inr a, s)"
| "foldS f (x # xs) a s = bindS (f x a) (foldS f xs) s"

lemma bindS_eq_Inr:
  "bindS m f s = (Inr b, s') \<longleftrightarrow> (\<exists>a s1. m s = (Inr a, s1) \<and> f a s1 = (Inr b, s'))"
  by (cases "m s"; cases "fst (m s)") (auto simp: bindS_def)

lemma bindS_liftE [simp]: "bindS (liftE (Inr a)) f s = f a s" "bindS (liftE (Inl e)) f s = (Inl e, s)"
  by (simp_all add: bindS_def liftE_def)

lemma liftE_eq_Inr: "liftE r s = (Inr a, s') \<longleftrightarrow> r = Inr a \<and> s' = s"
  by (auto simp: liftE_def)

lemma foldS_invariant:
  assumes "foldS f xs a s = (Inr a', s')" "I a s"
    and "\<And>x a s a' s'. x \<in> set xs \<Longrightarrow> I a s \<Longrightarrow> f x a s = (Inr a', s') \<Longrightarrow> I a' s'"
  shows "I a' s'"
  using assms
proof (induction xs arbitrary: a s)
  case (Cons x xs)
  then obtain a1 s1 where "f x a s = (Inr a1, s1)" "foldS f xs a1 s1 = (Inr a', s')"
    by (auto simp: bindS_eq_Inr)
  moreover from this(1) Cons.prems have "I a1 s1" by (metis list.set_intros(1))
  ultimately show ?case using Cons.IH Cons.prems(3) by (metis list.set_intros(2))
qed simp

section \<open>Interfaces of the codecs\<close>

text \<open>
  A reader of the wire formats is given the whole buffer and an offset and returns the item with
  the offset after it. A codec pairs it with the encoder of the item. The buffer of a Rust slice
  is shorter than \<open>2 ^ 63\<close> bytes, which keeps \<open>usize\<close> offsets from wrapping around.
\<close>

abbreviation (input) buffer_ok :: "bytes \<Rightarrow> bool" where
  "buffer_ok buf \<equiv> length buf < 2 ^ 63"

locale wire_codec =
  fixes enc :: "'a \<Rightarrow> bytes"
    and dec :: "bytes \<Rightarrow> nat \<Rightarrow> err + 'a \<times> nat"
    and wf :: "'a \<Rightarrow> bool"
  assumes dec_enc:
      "wf a \<Longrightarrow> buffer_ok buf \<Longrightarrow> off \<le> length buf \<Longrightarrow> drop off buf = enc a @ rest \<Longrightarrow>
        dec buf off = Inr (a, off + length (enc a))"
    and dec_wf: "buffer_ok buf \<Longrightarrow> dec buf off = Inr (a, off') \<Longrightarrow> wf a"
    and dec_bounds:
      "buffer_ok buf \<Longrightarrow> dec buf off = Inr (a, off') \<Longrightarrow> off \<le> off' \<and> off' \<le> length buf"
begin

lemma read_many_enc:
  assumes "list_all wf xs" "buffer_ok buf" "off \<le> length buf"
    and "drop off buf = concat (map enc xs) @ rest"
  shows "read_many (length xs) dec buf off = Inr (xs, off + length (concat (map enc xs)))"
  using read_many_map [where d = dec and f = "\<lambda>x. x" and enc = enc, OF dec_enc [OF _ assms(2)] assms(3,4)]
    assms(1) by (auto simp: list_all_iff)

lemma read_many_wf:
  "buffer_ok buf \<Longrightarrow> read_many n dec buf off = Inr (xs, off') \<Longrightarrow> length xs = n \<and> list_all wf xs"
  using read_many_all [where d = dec and buf = buf and P = wf] dec_wf read_many_length by blast

lemma read_many_bound:
  "buffer_ok buf \<Longrightarrow> off \<le> length buf \<Longrightarrow> read_many n dec buf off = Inr (xs, off') \<Longrightarrow>
    off \<le> off' \<and> off' \<le> length buf"
  using read_many_bounds [where d = dec and buf = buf] dec_bounds by blast

end

text \<open>
  A script codec pairs an encoder of whole scripts with a parser. Its two laws say that parsing
  inverts encoding and that a parsed script is the encoding of what was parsed: the encoding is
  canonical, so no second script spells the same output.
\<close>

locale script_codec =
  fixes enc :: "'a \<Rightarrow> bytes"
    and parse :: "bytes \<Rightarrow> 'a option"
    and wf :: "'a \<Rightarrow> bool"
  assumes parse_enc: "wf a \<Longrightarrow> parse (enc a) = Some a"
    and parse_sound: "parse s = Some a \<Longrightarrow> wf a \<and> enc a = s"
begin

lemma parse_iff: "parse s = Some a \<longleftrightarrow> wf a \<and> enc a = s"
  using parse_enc parse_sound by blast

lemma parse_inj: "parse s = Some a \<Longrightarrow> parse t = Some a \<Longrightarrow> s = t"
  using parse_sound by metis

lemma enc_inj: "wf a \<Longrightarrow> wf b \<Longrightarrow> enc a = enc b \<Longrightarrow> a = b"
  using parse_enc by (metis option.inject)

lemma parse_None_iff: "parse s = None \<longleftrightarrow> (\<forall>a. wf a \<longrightarrow> enc a \<noteq> s)"
  using parse_iff by (metis not_None_eq)

end

section \<open>Saturating and wrapping arithmetic\<close>

definition sat_sub :: "'a::len word \<Rightarrow> 'a word \<Rightarrow> 'a word" where
  "sat_sub a b = (if a < b then 0 else a - b)"

definition sat_add :: "'a::len word \<Rightarrow> 'a word \<Rightarrow> 'a word" where
  "sat_add a b = (if unat a + unat b < 2 ^ LENGTH('a) then a + b else - 1)"

definition sat_mul :: "'a::len word \<Rightarrow> 'a word \<Rightarrow> 'a word" where
  "sat_mul a b = (if unat a * unat b < 2 ^ LENGTH('a) then a * b else - 1)"

definition checked_add :: "'a::len word \<Rightarrow> 'a word \<Rightarrow> 'a word option" where
  "checked_add a b = (if unat a + unat b < 2 ^ LENGTH('a) then Some (a + b) else None)"

lemma unat_sat_sub: "unat (sat_sub a b) = unat a - unat b"
  by (simp add: sat_sub_def unat_sub_if' word_less_nat_alt)

lemma unat_add_no_wrap:
  "unat (a :: 'a::len word) + unat b < 2 ^ LENGTH('a) \<Longrightarrow> unat (a + b) = unat a + unat b"
  by (simp add: unat_word_ariths)

lemma checked_add_Some:
  "checked_add a b = Some c \<Longrightarrow> unat c = unat a + unat b"
  by (auto simp: checked_add_def unat_add_no_wrap split: if_splits)

section \<open>Bitwise assembly of words\<close>

lemma nat_push_bit_or:
  fixes x y :: nat
  assumes "y < 2 ^ n"
  shows "push_bit n x OR y = 2 ^ n * x + y"
proof -
  have y: "take_bit n y = y" using assms by (simp add: take_bit_nat_eq_self)
  have "push_bit n x AND take_bit n y = 0"
    by (rule bit_eqI) (auto simp: bit_simps)
  then have "push_bit n x OR y = push_bit n x + y"
    using y by (simp add: disjunctive_add_eq_or)
  then show ?thesis by (simp add: push_bit_eq_mult mult.commute)
qed

lemma unat_push_bit_or:
  fixes a b :: "'a::len word"
  assumes "2 ^ n * unat a < 2 ^ LENGTH('a)" "unat b < 2 ^ n" 
  shows "unat (push_bit n a OR b) = 2 ^ n * unat a + unat b"
proof -
  have "take_bit LENGTH('a) (push_bit n (unat a)) = push_bit n (unat a)"
    using assms(1) by (simp add: take_bit_nat_eq_self push_bit_eq_mult mult.commute)
  then have "unat (push_bit n a OR b) = push_bit n (unat a) OR unat b"
    by (simp add: unsigned_or_eq unsigned_push_bit_eq)
  then show ?thesis using nat_push_bit_or [OF assms(2)] by simp
qed

lemma unat_and_low24: "unat ((w::u32) AND 0x00ffffff) = unat w mod 2 ^ 24"
proof -
  have "(0x00ffffff :: u32) = mask 24" by (simp add: mask_eq_exp_minus_1)
  then have "w AND 0x00ffffff = take_bit 24 w" by (simp only: take_bit_eq_mask)
  then have "unat (w AND 0x00ffffff) = take_bit 24 (unat w)" by (simp only: unsigned_take_bit_eq)
  then show ?thesis by (simp only: take_bit_eq_mod)
qed

lemma unat_times_8: "unat (x::u32) < 2 ^ 29 \<Longrightarrow> unat (8 * x) = 8 * unat x"
  by (simp add: unat_word_ariths)

lemma word_of_nat_unat: "word_of_nat (unat w) = (w :: 'a::len word)"
  by (simp add: word_unat_eq_iff unat_of_nat)

lemma unat_word_of_nat_small:
  "n < 2 ^ LENGTH('a::len) \<Longrightarrow> unat (word_of_nat n :: 'a word) = n"
  by (simp add: unat_of_nat)

lemma unat_le_8: "unat (w :: u8) \<le> 8" if "w \<le> 8"
  using that by (simp add: word_le_nat_alt)

lemma one_le_u8: "(1 :: u8) \<le> w \<longleftrightarrow> w \<noteq> 0"
  by (simp add: not_less [symmetric])

end
