(* ===== verification/Pow.thy ===== *)
theory Pow
  imports Prelude
begin

text \<open>
  Proof-of-work arithmetic (\<open>src/src/pow.rs\<close>): compact targets, double SHA-256, target checks and
  block work. \<open>BigUint\<close> values are natural numbers. The SHA-256 compression is a package outside
  the repository and is a parameter \<open>sha\<close> of the definitions that hash.
\<close>

section \<open>Definitions\<close>

datatype Target = Target (bits: u32)

text \<open>\<open>BigUint::to_bytes_be\<close>, least significant byte first here, and \<open>BigUint::from_bytes_be\<close>.\<close>

fun le_digits :: "nat \<Rightarrow> bytes" where
  "le_digits n = (if n = 0 then [] else word_of_nat n # le_digits (n div 256))"

declare le_digits.simps [simp del]

definition to_bytes_be :: "nat \<Rightarrow> bytes" where
  "to_bytes_be n = (if n = 0 then [0] else rev (le_digits n))"

definition from_bytes_be :: "bytes \<Rightarrow> nat" where
  "from_bytes_be bs = le_val (rev bs)"

definition to_target :: "Target \<Rightarrow> nat" where
  "to_target t =
     (let exponent = drop_bit 24 (bits t);
          mantissa = bits t AND 0x00ffffff;
          val = unat mantissa
      in if exponent \<le> 3 then let shift = 8 * (3 - exponent) in drop_bit (unat shift) val
         else let shift = 8 * (exponent - 3) in push_bit (unat shift) val)"

definition from_target :: "nat \<Rightarrow> Target" where
  "from_target v =
     (if v = 0 then Target 0
      else
        let exponent = (word_of_nat (length (to_bytes_be v)) :: u32);
            mantissa_big =
              (if exponent \<le> 3 then push_bit (unat (8 * (3 - exponent))) v
               else drop_bit (unat (8 * (exponent - 3))) v);
            mantissa_bytes0 = to_bytes_be mantissa_big;
            mantissa_bytes =
              (if length mantissa_bytes0 > 3 then drop (length mantissa_bytes0 - 3) mantissa_bytes0
               else if length mantissa_bytes0 < 3
               then replicate (3 - length mantissa_bytes0) 0 @ mantissa_bytes0
               else mantissa_bytes0);
            mantissa = push_bit 16 (ucast (mantissa_bytes ! 0)) OR
              push_bit 8 (ucast (mantissa_bytes ! 1)) OR (ucast (mantissa_bytes ! 2) :: u32);
            (mantissa, exponent) =
              (if mantissa AND 0x00800000 \<noteq> 0 then (drop_bit 8 mantissa, exponent + 1)
               else (mantissa, exponent))
        in Target (push_bit 24 exponent OR (mantissa AND 0x00ffffff)))"

definition min_difficulty_target :: "Target \<Rightarrow> u64 \<Rightarrow> Target" where
  "min_difficulty_target pow_limit min_difficulty =
     (if min_difficulty \<le> 1 then pow_limit
      else
        let target = to_target pow_limit div unat min_difficulty;
            target = (if target = 0 then 1 else target)
        in from_target target)"

definition sha256d :: "(bytes \<Rightarrow> bytes) \<Rightarrow> bytes \<Rightarrow> bytes" where
  "sha256d sha data = sha (sha data)"

definition header_hash :: "(bytes \<Rightarrow> bytes) \<Rightarrow> bytes list \<Rightarrow> bytes" where
  "header_hash sha parts = sha256d sha (concat parts)"

definition meets_target :: "bytes \<Rightarrow> Target \<Rightarrow> bool" where
  "meets_target h t = (from_bytes_be h \<le> to_target t)"

definition meets_target_btc :: "bytes \<Rightarrow> Target \<Rightarrow> bool" where
  "meets_target_btc h t = (le_val h \<le> to_target t)"

section \<open>Byte length of a number\<close>

definition byte_len :: "nat \<Rightarrow> nat" where
  "byte_len n = length (le_digits n)"

lemma le_digits_0 [simp]: "le_digits 0 = []"
  by (simp add: le_digits.simps)

lemma le_digits_pos: "0 < n \<Longrightarrow> le_digits n = word_of_nat n # le_digits (n div 256)"
  by (subst le_digits.simps) simp

lemma le_digits_eq_le_bytes: "le_digits n = le_bytes (byte_len n) n"
  unfolding byte_len_def
proof (induction n rule: le_digits.induct)
  case (1 n)
  then show ?case by (cases "n = 0") (simp_all add: le_digits_pos)
qed

lemma byte_len_bounds: "0 < n \<Longrightarrow> 256 ^ (byte_len n - 1) \<le> n \<and> n < 256 ^ byte_len n"
  unfolding byte_len_def
proof (induction n rule: le_digits.induct)
  case (1 n)
  show ?case
  proof (cases "n div 256 = 0")
    case True
    then have "n < 256" by (simp add: div_eq_0_iff)
    then show ?thesis using 1 True by (simp add: le_digits_pos)
  next
    case False
    define k where "k = length (le_digits (n div 256))"
    have ih: "256 ^ (k - 1) \<le> n div 256" "n div 256 < 256 ^ k"
      using 1 False unfolding k_def by auto
    have "0 < k" using False unfolding k_def by (simp add: le_digits_pos)
    then have "256 ^ k = 256 * (256 ^ (k - 1) :: nat)" by (cases k) auto
    also have "\<dots> \<le> 256 * (n div 256)" using ih(1) by simp
    also have "\<dots> \<le> n" by simp
    finally have lo: "256 ^ k \<le> n" .
    have "n < 256 * 256 ^ k" using ih(2) by (simp add: div_less_iff_less_mult mult.commute)
    then show ?thesis using lo 1(2) by (simp add: le_digits_pos k_def)
  qed
qed

lemma byte_len_unique:
  assumes "256 ^ (k - 1) \<le> n" "n < 256 ^ k" "0 < k"
  shows "byte_len n = k"
proof -
  have n: "0 < n" using assms(1) by (metis less_le_trans zero_less_numeral zero_less_power)
  have b: "256 ^ (byte_len n - 1) \<le> n" "n < 256 ^ byte_len n" using byte_len_bounds [OF n] by auto
  have "0 < byte_len n" unfolding byte_len_def using n by (simp add: le_digits_pos)
  have "\<not> byte_len n < k"
  proof
    assume "byte_len n < k"
    then have "(256::nat) ^ byte_len n \<le> 256 ^ (k - 1)" by (intro power_increasing) auto
    then show False using b(2) assms(1) by linarith
  qed
  moreover have "\<not> k < byte_len n"
  proof
    assume "k < byte_len n"
    then have "(256::nat) ^ k \<le> 256 ^ (byte_len n - 1)" by (intro power_increasing) auto
    then show False using b(1) assms(2) by linarith
  qed
  ultimately show ?thesis by linarith
qed

lemma length_to_bytes_be: "0 < n \<Longrightarrow> length (to_bytes_be n) = byte_len n"
  by (simp add: to_bytes_be_def byte_len_def)

lemma from_bytes_be_to_bytes_be: "from_bytes_be (to_bytes_be n) = n"
proof (cases "n = 0")
  case True
  then show ?thesis by (simp add: to_bytes_be_def from_bytes_be_def)
next
  case False
  then show ?thesis
    using byte_len_bounds [of n]
    by (simp add: to_bytes_be_def from_bytes_be_def le_digits_eq_le_bytes le_val_le_bytes)
qed

section \<open>Compact targets as numbers\<close>

text \<open>
  \<open>mant v\<close> is the three-byte mantissa of a positive target and \<open>compact v\<close> its compact
  encoding read as a number.
\<close>

lemma to_target_char:
  assumes "e < 256" "m < 2 ^ 24"
  shows "to_target (Target (word_of_nat (e * 2 ^ 24 + m)))
      = (if e \<le> 3 then m div 256 ^ (3 - e) else m * 256 ^ (e - 3))"
proof -
  let ?w = "word_of_nat (e * 2 ^ 24 + m) :: u32"
  have "e * 2 ^ 24 + m < 2 ^ LENGTH(32)" using assms by simp
  then have u: "unat ?w = e * 2 ^ 24 + m" by (rule unat_word_of_nat_small)
  have e: "unat (drop_bit 24 ?w) = e"
    unfolding unat_drop_bit_eq u using assms(2) by (simp add: drop_bit_eq_div)
  have m: "unat (?w AND 0x00ffffff) = m"
    unfolding unat_and_low24 u using assms(2) by simp
  have c: "drop_bit 24 ?w \<le> 3 \<longleftrightarrow> e \<le> 3"
    using e by (simp add: word_le_nat_alt)
  show ?thesis
  proof (cases "e \<le> 3")
    case True
    then have "unat (3 - drop_bit 24 ?w) = 3 - e"
      using e c by (simp add: unat_sub word_le_nat_alt)
    then have "unat (8 * (3 - drop_bit 24 ?w)) = 8 * (3 - e)"
      using unat_times_8 [of "3 - drop_bit 24 ?w"] by simp
    then show ?thesis using True c m
      by (simp add: to_target_def Let_def drop_bit_eq_div power_mult)
  next
    case False
    then have "unat (drop_bit 24 ?w - 3) = e - 3"
      using e c by (simp add: unat_sub word_le_nat_alt)
    then have "unat (8 * (drop_bit 24 ?w - 3)) = 8 * (e - 3)"
      using unat_times_8 [of "drop_bit 24 ?w - 3"] assms(1) by simp
    then show ?thesis using False c m
      by (simp add: to_target_def Let_def push_bit_eq_mult power_mult)
  qed
qed

lemma mantissa_word:
  fixes b0 b1 b2 :: u8
  shows "unat (push_bit 16 (ucast b0) OR push_bit 8 (ucast b1) OR (ucast b2 :: u32))
     = unat b0 * 65536 + unat b1 * 256 + unat b2"
proof -
  have u: "unat (ucast b :: u32) = unat b" for b :: u8
    using unat_u8_lt [of b] by (simp add: unsigned_ucast_eq take_bit_nat_eq_self)
  have i: "unat (push_bit 8 (ucast b1) OR (ucast b2 :: u32)) = 256 * unat b1 + unat b2"
    using unat_push_bit_or [of 8 "ucast b1 :: u32" "ucast b2"] u [of b1] u [of b2]
      unat_u8_lt [of b1] unat_u8_lt [of b2] by simp
  then show ?thesis
    using unat_push_bit_or [of 16 "ucast b0 :: u32" "push_bit 8 (ucast b1) OR ucast b2"]
      u [of b0] unat_u8_lt [of b0] unat_u8_lt [of b1] unat_u8_lt [of b2] by simp
qed

definition mant :: "nat \<Rightarrow> nat" where
  "mant v = (let k = byte_len v in if k \<le> 3 then v * 256 ^ (3 - k) else v div 256 ^ (k - 3))"

lemma byte_len_pos: "0 < v \<Longrightarrow> 0 < byte_len v"
  by (simp add: byte_len_def le_digits_pos)

lemma mant_bounds:
  assumes "0 < v"
  shows "256 ^ 2 \<le> mant v" "mant v < 256 ^ 3"
proof -
  define k where "k = byte_len v"
  have b: "256 ^ (k - 1) \<le> v" "v < 256 ^ k" and k: "0 < k"
    using byte_len_bounds [OF assms] byte_len_pos [OF assms] by (auto simp: k_def)
  show "256 ^ 2 \<le> mant v"
  proof (cases "k \<le> 3")
    case True
    have "(256::nat) ^ 2 = 256 ^ (k - 1) * 256 ^ (3 - k)"
      using True k by (simp flip: power_add)
    also have "\<dots> \<le> v * 256 ^ (3 - k)" using b(1) by simp
    finally show ?thesis using True by (simp add: mant_def k_def)
  next
    case False
    have "k - 1 = 2 + (k - 3)" using False by simp
    then have "(256::nat) ^ (k - 1) = 256 ^ 2 * 256 ^ (k - 3)" by (simp only: power_add)
    then have "256 ^ 2 \<le> v div 256 ^ (k - 3)"
      using b(1) by (simp add: less_eq_div_iff_mult_less_eq)
    then show ?thesis using False by (simp add: mant_def k_def)
  qed
  show "mant v < 256 ^ 3"
  proof (cases "k \<le> 3")
    case True
    have "v * 256 ^ (3 - k) < 256 ^ k * 256 ^ (3 - k)" using b(2) by simp
    also have "\<dots> = 256 ^ 3" using True by (simp flip: power_add)
    finally show ?thesis using True by (simp add: mant_def k_def)
  next
    case False
    have "k = 3 + (k - 3)" using False by simp
    then have "(256::nat) ^ k = 256 ^ 3 * 256 ^ (k - 3)" by (metis power_add)
    then have "v div 256 ^ (k - 3) < 256 ^ 3"
      using b(2) by (simp add: div_less_iff_less_mult)
    then show ?thesis using False by (simp add: mant_def k_def)
  qed
qed


definition compact :: "nat \<Rightarrow> nat" where
  "compact v = (if mant v < 2 ^ 23 then byte_len v * 2 ^ 24 + mant v
                else (byte_len v + 1) * 2 ^ 24 + mant v div 256)"

lemma mantissa_bytes:
  assumes "0 < v"
  obtains b0 b1 b2 where "to_bytes_be (mant v) = [b0, b1, b2]"
    "unat b0 * 65536 + unat b1 * 256 + unat b2 = mant v"
proof -
  have "byte_len (mant v) = 3"
    using mant_bounds [OF assms] by (intro byte_len_unique) auto
  then have l: "length (to_bytes_be (mant v)) = 3"
    using mant_bounds [OF assms] by (subst length_to_bytes_be) auto
  then obtain b0 b1 b2 where b: "to_bytes_be (mant v) = [b0, b1, b2]"
    by (auto simp: numeral_eq_Suc length_Suc_conv)
  moreover have "from_bytes_be [b0, b1, b2] = mant v"
    using from_bytes_be_to_bytes_be [of "mant v"] b by simp
  ultimately show thesis using that [of b0 b1 b2] by (simp add: from_bytes_be_def)
qed

lemma and_bit23: "(w::u32) AND 0x00800000 \<noteq> 0 \<longleftrightarrow> odd (unat w div 2 ^ 23)"
proof -
  have "(0x00800000 :: u32) = 2 ^ 23" by simp
  then have "w AND 0x00800000 \<noteq> 0 \<longleftrightarrow> bit w 23" by (simp only: and_exp_eq_0_iff_not_bit) simp
  also have "\<dots> \<longleftrightarrow> bit (unat w) 23" by (simp add: bit_unsigned_iff)
  finally show ?thesis by (simp only: bit_iff_odd)
qed

text \<open>Assembling exponent and mantissa, with the shift that keeps the sign bit of the mantissa clear.\<close>

lemma compact_word:
  fixes m e :: u32
  assumes "0 < v" "byte_len v < 255" "unat m = mant v" "unat e = byte_len v"
  shows "(if m AND 0x00800000 \<noteq> 0 then push_bit 24 (e + 1) OR drop_bit 8 m else push_bit 24 e OR m)
    = word_of_nat (compact v)"
proof -
  have m24: "mant v < 2 ^ 24" using mant_bounds [OF assms(1)] by simp
  have hi: "m AND 0x00800000 \<noteq> 0 \<longleftrightarrow> \<not> mant v < 2 ^ 23"
  proof -
    have "mant v div 2 ^ 23 < 2" using m24 by (simp add: div_less_iff_less_mult)
    moreover have "q < 2 \<Longrightarrow> odd q \<longleftrightarrow> q \<noteq> 0" for q :: nat by presburger
    ultimately have "odd (mant v div 2 ^ 23) \<longleftrightarrow> mant v div 2 ^ 23 \<noteq> 0" by blast
    also have "\<dots> \<longleftrightarrow> \<not> mant v < 2 ^ 23" by (simp add: div_eq_0_iff)
    finally show ?thesis by (simp only: and_bit23 assms(3))
  qed
  show ?thesis
  proof (cases "mant v < 2 ^ 23")
    case True
    have "unat (push_bit 24 e OR m) = compact v"
      using unat_push_bit_or [of 24 e m] assms m24 True by (simp add: compact_def)
    then have "push_bit 24 e OR m = word_of_nat (compact v)" by (metis word_of_nat_unat)
    then show ?thesis using True hi by simp
  next
    case False
    have u1: "unat (e + 1) = byte_len v + 1" using assms by (simp add: unat_word_ariths)
    have "unat (drop_bit 8 m) = drop_bit 8 (mant v)" by (simp only: unat_drop_bit_eq assms(3))
    then have u2: "unat (drop_bit 8 m) = mant v div 256" by (simp add: drop_bit_eq_div)
    have "2 ^ 24 * unat (e + 1) < 2 ^ LENGTH(32)" using u1 assms(2) by simp
    moreover have "unat (drop_bit 8 m) < 2 ^ 24" unfolding u2 using m24 by simp
    ultimately have "unat (push_bit 24 (e + 1) OR drop_bit 8 m)
        = 2 ^ 24 * (byte_len v + 1) + mant v div 256"
      by (simp only: unat_push_bit_or u1 u2)
    then have "unat (push_bit 24 (e + 1) OR drop_bit 8 m) = compact v"
      using False by (simp add: compact_def)
    then have "push_bit 24 (e + 1) OR drop_bit 8 m = word_of_nat (compact v)"
      by (metis word_of_nat_unat)
    then show ?thesis using False hi by simp
  qed
qed

lemma and_low24_id: "unat (m :: u32) < 2 ^ 24 \<Longrightarrow> m AND 0x00ffffff = m"
  by (simp add: word_unat_eq_iff unat_and_low24 del: word_of_nat_eq_iff)

lemma from_target_char:
  assumes "0 < v" "byte_len v < 255"
  shows "from_target v = Target (word_of_nat (compact v))"
proof -
  define k where "k = byte_len v"
  have k: "0 < k" "k < 255" using assms byte_len_pos by (auto simp: k_def)
  obtain b0 b1 b2 where b: "to_bytes_be (mant v) = [b0, b1, b2]"
    "unat b0 * 65536 + unat b1 * 256 + unat b2 = mant v"
    using mantissa_bytes [OF assms(1)] .
  define e where "e = (word_of_nat k :: u32)"
  define m where "m = push_bit 16 (ucast b0) OR push_bit 8 (ucast b1) OR (ucast b2 :: u32)"
  have ue: "unat e = k" using k by (simp add: e_def unat_of_nat)
  have um: "unat m = mant v" unfolding m_def mantissa_word using b(2) by simp
  have m24: "mant v < 2 ^ 24" using mant_bounds [OF assms(1)] by simp
  have c: "e \<le> 3 \<longleftrightarrow> k \<le> 3" using ue by (simp add: word_le_nat_alt)
  have big: "(if e \<le> 3 then push_bit (unat (8 * (3 - e))) v else drop_bit (unat (8 * (e - 3))) v) = mant v"
  proof (cases "k \<le> 3")
    case True
    then have "unat (8 * (3 - e)) = 8 * (3 - k)"
      using unat_times_8 [of "3 - e"] ue c by (simp add: unat_sub word_le_nat_alt)
    then show ?thesis using True c by (simp add: mant_def push_bit_eq_mult power_mult k_def)
  next
    case False
    then have "unat (8 * (e - 3)) = 8 * (k - 3)"
      using unat_times_8 [of "e - 3"] ue c k by (simp add: unat_sub word_le_nat_alt)
    then show ?thesis using False c by (simp add: mant_def drop_bit_eq_div power_mult k_def)
  qed
  have "unat (drop_bit 8 m) = drop_bit 8 (mant v)" by (simp only: unat_drop_bit_eq um)
  then have "unat (drop_bit 8 m) < 2 ^ 24" using m24 by (simp add: drop_bit_eq_div)
  note low = and_low24_id [OF this] and_low24_id [of m, unfolded um, OF m24]
  have "from_target v = Target (if m AND 0x00800000 \<noteq> 0
      then push_bit 24 (e + 1) OR (drop_bit 8 m AND 0x00ffffff)
      else push_bit 24 e OR (m AND 0x00ffffff))"
    unfolding from_target_def length_to_bytes_be [OF assms(1)] k_def [symmetric]
      e_def [symmetric] Let_def big b(1)
    using assms(1) by (simp flip: m_def)
  then show ?thesis
    unfolding low using compact_word [OF assms um] ue by (simp add: k_def)
qed

text \<open>The value a compact target stands for, as a number.\<close>

lemma to_target_from_target:
  assumes "0 < v" "byte_len v < 255"
  shows "to_target (from_target v) =
    (if mant v < 2 ^ 23 then (if byte_len v \<le> 3 then v else mant v * 256 ^ (byte_len v - 3))
     else (if byte_len v \<le> 2 then v else mant v div 256 * 256 ^ (byte_len v - 2)))"
proof -
  define k where "k = byte_len v"
  define m where "m = mant v"
  have k: "0 < k" "k < 255" using assms byte_len_pos by (auto simp: k_def)
  have m: "m < 2 ^ 24" using mant_bounds [OF assms(1)] by (simp add: m_def)
  have ex: "m = v * 256 ^ (3 - k)" if "k \<le> 3" using that by (simp add: m_def mant_def k_def)
  show ?thesis
  proof (cases "m < 2 ^ 23")
    case True
    have "compact v = k * 2 ^ 24 + m" using True by (simp only: compact_def k_def m_def if_True)
    then have "to_target (from_target v) = to_target (Target (word_of_nat (k * 2 ^ 24 + m)))"
      by (simp only: from_target_char [OF assms])
    also have "\<dots> = (if k \<le> 3 then m div 256 ^ (3 - k) else m * 256 ^ (k - 3))"
      by (rule to_target_char) (use k m in auto)
    finally have t: "to_target (from_target v) = \<dots>" .
    have "m div 256 ^ (3 - k) = v" if "k \<le> 3" using ex [OF that] by simp
    then have "to_target (from_target v) = (if k \<le> 3 then v else m * 256 ^ (k - 3))"
      using t by metis
    then show ?thesis using True by (simp only: k_def m_def if_True)
  next
    case False
    have m2: "m div 256 < 2 ^ 24" using m by simp
    have "compact v = (k + 1) * 2 ^ 24 + m div 256"
      using False by (simp only: compact_def k_def m_def if_False)
    then have "to_target (from_target v) = to_target (Target (word_of_nat ((k + 1) * 2 ^ 24 + m div 256)))"
      by (simp only: from_target_char [OF assms])
    also have "\<dots> = (if k + 1 \<le> 3 then m div 256 div 256 ^ (3 - (k + 1)) else m div 256 * 256 ^ (k + 1 - 3))"
      by (rule to_target_char) (use k m2 in auto)
    also have "\<dots> = (if k \<le> 2 then m div 256 div 256 ^ (2 - k) else m div 256 * 256 ^ (k - 2))"
    proof -
      have "k + 1 \<le> 3 \<longleftrightarrow> k \<le> 2" "3 - (k + 1) = 2 - k" "k + 1 - 3 = k - 2" by linarith+
      then show ?thesis by (simp only:)
    qed
    finally have t: "to_target (from_target v) = \<dots>" .
    have "m div 256 div 256 ^ (2 - k) = v" if "k \<le> 2"
    proof -
      have "3 - k = Suc (2 - k)" using that by simp
      then have "m = v * 256 ^ (2 - k) * 256" using ex that by simp
      then show ?thesis by simp
    qed
    then have "to_target (from_target v) = (if k \<le> 2 then v else m div 256 * 256 ^ (k - 2))"
      using t by metis
    then show ?thesis using False by (simp only: k_def m_def if_False)
  qed
qed

lemma to_target_from_target_cases:
  assumes "0 < v" "byte_len v < 255"
  obtains (exact) "to_target (from_target v) = v"
    | (low) "3 < byte_len v" "mant v < 2 ^ 23"
        "to_target (from_target v) = mant v * 256 ^ (byte_len v - 3)"
    | (high) "2 < byte_len v" "2 ^ 23 \<le> mant v"
        "to_target (from_target v) = mant v div 256 * 256 ^ (byte_len v - 2)"
  using to_target_from_target [OF assms]
  by (cases "mant v < 2 ^ 23"; cases "byte_len v \<le> 3"; cases "byte_len v \<le> 2")
    (simp_all only: if_True if_False not_le not_less)

lemma mant_div:
  assumes "2 < byte_len v"
  shows "mant v div 256 = v div 256 ^ (byte_len v - 2)"
proof (cases "byte_len v = 3")
  case True
  then show ?thesis by (simp add: mant_def)
next
  case False
  then have "byte_len v - 2 = Suc (byte_len v - 3)" "3 < byte_len v" using assms by auto
  then show ?thesis by (simp add: mant_def mult.commute flip: div_mult2_eq)
qed

lemma to_target_from_target_approx:
  assumes "0 < v" "byte_len v < 255"
  defines "t \<equiv> to_target (from_target v)"
  shows "t \<le> v" "(v - t) * 2 ^ 15 < v"
proof -
  define k where "k = byte_len v"
  have kb: "256 ^ (k - 1) \<le> v" using byte_len_bounds [OF assms(1)] by (simp add: k_def)
  consider (exact) "t = v" | (lo) "3 < k" "t = mant v * 256 ^ (k - 3)"
    | (hi) "2 < k" "t = mant v div 256 * 256 ^ (k - 2)" "2 ^ 23 \<le> mant v"
    using assms(1,2) unfolding t_def k_def by (rule to_target_from_target_cases) simp_all
  then have "t \<le> v \<and> (v - t) * 2 ^ 15 < v"
  proof cases
    case exact
    then show ?thesis using assms(1) by simp
  next
    case lo
    have t: "t = v div 256 ^ (k - 3) * 256 ^ (k - 3)"
      using lo by (simp add: mant_def k_def)
    then have "v - t = v mod 256 ^ (k - 3)" by (simp only: minus_div_mult_eq_mod)
    then have "v - t < 256 ^ (k - 3)" by simp
    then have "(v - t) * 2 ^ 16 < 256 ^ (k - 3) * 2 ^ 16" by simp
    also have "\<dots> = 256 ^ (k - 1)"
    proof -
      have "k - 1 = (k - 3) + 2" using lo(1) by simp
      then show ?thesis by (simp only: power_add) simp
    qed
    finally have "(v - t) * 2 ^ 16 < v" using kb by simp
    then show ?thesis using t by simp
  next
    case hi
    have t: "t = v div 256 ^ (k - 2) * 256 ^ (k - 2)"
      using hi(1,2) mant_div [of v] by (simp add: k_def)
    then have "v - t = v mod 256 ^ (k - 2)" by (simp only: minus_div_mult_eq_mod)
    then have "v - t < 256 ^ (k - 2)" by simp
    then have "(v - t) * 2 ^ 15 < 256 ^ (k - 2) * 2 ^ 15" by simp
    also have "\<dots> \<le> 256 ^ (k - 2) * (mant v div 256)" using hi(3) by simp
    also have "\<dots> = v div 256 ^ (k - 2) * 256 ^ (k - 2)"
      using mant_div [of v] hi(1) by (simp add: k_def)
    also have "\<dots> \<le> v" by simp
    finally show ?thesis using t by simp
  qed
  then show "t \<le> v" "(v - t) * 2 ^ 15 < v" by auto
qed

lemma byte_len_mult_power:
  assumes "256 ^ (j - 1) \<le> q" "q < 256 ^ j" "0 < j"
  shows "byte_len (q * 256 ^ i) = i + j"
proof (rule byte_len_unique)
  have "(256::nat) ^ (i + j - 1) = 256 ^ (j - 1) * 256 ^ i"
    using assms(3) by (simp flip: power_add)
  then show "256 ^ (i + j - 1) \<le> q * 256 ^ i" using assms(1) by simp
  show "q * 256 ^ i < 256 ^ (i + j)" using assms(2) by (simp add: power_add mult.commute)
  show "0 < i + j" using assms(3) by simp
qed

lemma mant_mult_power:
  assumes "3 \<le> j + i" "byte_len (q * 256 ^ i) = j + i" "j \<le> 3"
  shows "mant (q * 256 ^ i) = q * 256 ^ (3 - j)"
proof (cases "j + i = 3")
  case True
  then have "i = 3 - j" by simp
  then show ?thesis using assms True by (simp add: mant_def)
next
  case False
  then have n: "\<not> j + i \<le> 3" using assms(1) by simp
  have "i = (3 - j) + (j + i - 3)" using n assms(3) by simp
  then have e: "q * 256 ^ i = q * 256 ^ (3 - j) * 256 ^ (j + i - 3)"
    by (metis mult.assoc power_add)
  have "q * 256 ^ i div 256 ^ (j + i - 3) = q * 256 ^ (3 - j)" unfolding e by simp
  then show ?thesis using n assms(2) by (simp only: mant_def Let_def if_False)
qed

lemma compact_stable:
  assumes "0 < v" "byte_len v < 255"
  shows "compact (to_target (from_target v)) = compact v"
  using assms
proof (cases rule: to_target_from_target_cases)
  case exact
  then show ?thesis by simp
next
  case low
  define t where "t = to_target (from_target v)"
  define i where "i = byte_len v - 3"
  have i: "byte_len v = i + 3" using low(1) by (simp add: i_def)
  have t: "t = mant v * 256 ^ i" using low(3) by (simp add: t_def i_def)
  have bl: "byte_len t = i + 3"
    unfolding t using mant_bounds [OF assms(1)] by (intro byte_len_mult_power) auto
  have "mant t = mant v"
    unfolding t using mant_mult_power [of 3 i "mant v"] bl t by (simp add: add.commute)
  then show ?thesis using bl i unfolding t_def [symmetric] by (simp only: compact_def)
next
  case high
  define t where "t = to_target (from_target v)"
  define i where "i = byte_len v - 2"
  define q where "q = mant v div 256"
  have i: "byte_len v = i + 2" "1 \<le> i" using high(1) by (auto simp: i_def)
  have t: "t = q * 256 ^ i" using high(3) by (simp add: t_def i_def q_def)
  have q: "2 ^ 15 \<le> q" "q < 256 ^ 2" using high(2) mant_bounds [OF assms(1)] by (auto simp: q_def)
  have bl: "byte_len t = i + 2" unfolding t using q by (intro byte_len_mult_power) auto
  have m: "mant t = q * 256"
    unfolding t using mant_mult_power [of 2 i q] bl t i(2) by (simp add: add.commute)
  have "compact t = (byte_len t + 1) * 2 ^ 24 + mant t div 256"
    unfolding compact_def m using q(1) by simp
  also have "\<dots> = (byte_len v + 1) * 2 ^ 24 + q" using m bl i by simp
  also have "\<dots> = compact v" using high(2) by (simp add: compact_def q_def)
  finally show ?thesis unfolding t_def .
qed

lemma byte_len_le: "v < 256 ^ n \<Longrightarrow> byte_len v \<le> n"
proof (cases "v = 0")
  case False
  assume "v < 256 ^ n"
  moreover have "256 ^ (byte_len v - 1) \<le> v" using byte_len_bounds [of v] False by simp
  ultimately have "(256::nat) ^ (byte_len v - 1) < 256 ^ n" by linarith
  then have "byte_len v - 1 < n" by (simp add: power_strict_increasing_iff)
  then show ?thesis by simp
qed (simp add: byte_len_def)

section \<open>What compact encoding keeps\<close>

lemma byte_len_double:
  assumes "0 < v"
  shows "byte_len (2 * v) = (if mant v < 2 ^ 23 then byte_len v else byte_len v + 1)"
proof -
  define k where "k = byte_len v"
  have b: "256 ^ (k - 1) \<le> v" "v < 256 ^ k" and k: "0 < k"
    using byte_len_bounds [OF assms] byte_len_pos [OF assms] by (auto simp: k_def)
  have i: "mant v < 2 ^ 23 \<longleftrightarrow> 2 * v < 256 ^ k"
  proof (cases "k \<le> 3")
    case True
    have "mant v < 2 ^ 23 \<longleftrightarrow> 2 * v * 256 ^ (3 - k) < 2 ^ 24" using True by (simp add: mant_def k_def)
    also have "(2::nat) ^ 24 = 256 ^ k * 256 ^ (3 - k)" using True by (simp flip: power_add)
    finally show ?thesis by simp
  next
    case False
    then have "(256::nat) ^ k = 2 * 2 ^ 23 * 256 ^ (k - 3)" using power_add [of "256::nat" 3 "k - 3"] by simp
    moreover have "mant v < 2 ^ 23 \<longleftrightarrow> v < 2 ^ 23 * 256 ^ (k - 3)"
      using False by (simp add: mant_def k_def div_less_iff_less_mult)
    ultimately show ?thesis by simp
  qed
  have "byte_len (2 * v) = k" if "2 * v < 256 ^ k"
    by (rule byte_len_unique) (use b k that in auto)
  moreover have "byte_len (2 * v) = k + 1" if "\<not> 2 * v < 256 ^ k"
    by (rule byte_len_unique) (use b that in auto)
  ultimately show ?thesis using i by (simp add: k_def)
qed

text \<open>The encoding keeps the bytes of the mantissa and clears the ones below it.\<close>

lemma to_target_from_target_masks:
  assumes "v < 256 ^ 254"
  defines "low \<equiv> 256 ^ (byte_len (2 * v) - 3)"
  shows "to_target (from_target v) = v div low * low"
proof (cases "v = 0")
  case True
  then show ?thesis by (simp add: from_target_def to_target_def)
next
  case False
  then have v: "0 < v" "byte_len v < 255" using byte_len_le [OF assms(1)] by auto
  have s: "byte_len v + 1 - 3 = byte_len v - 2" by simp
  show ?thesis
  proof (cases "mant v < 2 ^ 23")
    case True
    then show ?thesis
      unfolding low_def to_target_from_target [OF v] byte_len_double [OF v(1)] by (simp add: mant_def Let_def)
  next
    case False
    have "to_target (from_target v) = v div 256 ^ (byte_len v - 2) * 256 ^ (byte_len v - 2)"
      using False mant_div [of v] by (simp add: to_target_from_target [OF v])
    then show ?thesis unfolding low_def byte_len_double [OF v(1)] using False s by (simp only: if_False)
  qed
qed

text \<open>
  A compact target is canonical when its mantissa has the top bit clear and starts in the first or
  second byte without being shiftable, and no part of it is shifted out.
\<close>

definition canonical_compact :: "Target \<Rightarrow> bool" where
  "canonical_compact t \<longleftrightarrow>
     (let e = unat (bits t) div 2 ^ 24; m = unat (bits t) mod 2 ^ 24
      in bits t = 0 \<or> 2 ^ 15 \<le> m \<and> m < 2 ^ 23 \<and> 256 ^ (3 - e) dvd m)"

lemma canonical_compact_char:
  assumes "e < 256" "m < 2 ^ 24" "0 < m"
  shows "canonical_compact (Target (word_of_nat (e * 2 ^ 24 + m))) \<longleftrightarrow>
    2 ^ 15 \<le> m \<and> m < 2 ^ 23 \<and> 256 ^ (3 - e) dvd m"
proof -
  have "e * 2 ^ 24 + m < 2 ^ LENGTH(32)" using assms by simp
  then have u: "unat (word_of_nat (e * 2 ^ 24 + m) :: u32) = e * 2 ^ 24 + m" by (rule unat_word_of_nat_small)
  then have "(word_of_nat (e * 2 ^ 24 + m) :: u32) \<noteq> 0" using assms(3) by (metis add_is_0 less_not_refl unat_0)
  then show ?thesis using assms(2) unfolding canonical_compact_def Let_def Target.sel u by simp
qed

lemma from_target_canonical:
  assumes "v < 256 ^ 254"
  shows "canonical_compact (from_target v)"
proof (cases "v = 0")
  case True
  then show ?thesis by (simp add: from_target_def canonical_compact_def)
next
  case False
  define k where "k = byte_len v"
  have v: "0 < v" "byte_len v < 255" using False byte_len_le [OF assms(1)] by auto
  have mb: "2 ^ 16 \<le> mant v" "mant v < 2 ^ 24" using mant_bounds [OF v(1)] by auto
  have d: "256 ^ (3 - k) dvd mant v" by (simp add: mant_def k_def Let_def)
  show ?thesis
  proof (cases "mant v < 2 ^ 23")
    case True
    then show ?thesis
      using canonical_compact_char [of k "mant v"] mb d v
      by (simp add: from_target_char [OF v] compact_def k_def)
  next
    case False
    have "256 ^ (2 - k) dvd mant v div 256"
    proof (cases "k \<le> 2")
      case True
      then have "3 - k = Suc (2 - k)" by simp
      then have "mant v = v * 256 ^ (2 - k) * 256" using True by (simp add: mant_def k_def [symmetric])
      then show ?thesis by simp
    qed simp
    moreover have "3 - (k + 1) = 2 - k" by simp
    moreover have "2 ^ 15 \<le> mant v div 256" "mant v div 256 < 2 ^ 16" using False mb(2) by simp_all
    ultimately show ?thesis
      using canonical_compact_char [of "k + 1" "mant v div 256"] mb v False
      by (simp add: from_target_char [OF v] compact_def k_def del: add_Suc_right add_Suc)
  qed
qed

lemma compact_inverse:
  assumes c: "2 ^ 15 \<le> m" "m < 2 ^ 23" "256 ^ (3 - e) dvd m" and "e < 256"
  defines "v \<equiv> (if e \<le> 3 then m div 256 ^ (3 - e) else m * 256 ^ (e - 3))"
  shows "0 < v" "compact v = e * 2 ^ 24 + m"
proof -
  have d: "256 ^ (3 - e) \<le> m" using c(1,3) by (intro dvd_imp_le) auto
  have e: "0 < e" using d c(2) by (cases "e = 0") auto
  have e2: "1 < e" if "m < 2 ^ 16" using d e that by (cases "e = 1") auto
  show p: "0 < v" using d c(1) by (simp add: v_def div_greater_zero_iff)
  have small: "v * 256 ^ (3 - e) = m" if "e \<le> 3" using that c(3) by (simp add: v_def)
  define j where "j = (if m < 2 ^ 16 then 2 else 3 :: nat)"
  have j: "0 < j" "j \<le> 3" "256 ^ (j - 1) \<le> m" "m < 256 ^ j" "3 - j < e" using c(1,2) e e2 by (auto simp: j_def)
  have bl: "byte_len v + (3 - j) = e"
  proof (cases "e \<le> 3")
    case True
    have "256 ^ (e - (3 - j) - 1) * 256 ^ (3 - e) \<le> v * 256 ^ (3 - e)"
      using j True unfolding small [OF True] by (simp flip: power_add)
    moreover have "v * 256 ^ (3 - e) < 256 ^ (e - (3 - j)) * 256 ^ (3 - e)"
      using j True unfolding small [OF True] by (simp flip: power_add)
    ultimately have "byte_len v = e - (3 - j)" using j(5) by (intro byte_len_unique) auto
    then show ?thesis using j(5) by simp
  next
    case False
    then have "byte_len v = (e - 3) + j" using j byte_len_mult_power [of j m "e - 3"] by (simp add: v_def)
    then show ?thesis using False j(2) by simp
  qed
  have mv: "mant v = m * 256 ^ (3 - j)"
  proof (cases "e \<le> 3")
    case True
    have "byte_len v \<le> 3" "3 - byte_len v = (3 - e) + (3 - j)" using bl True by simp_all
    then have "mant v = v * 256 ^ (3 - e) * 256 ^ (3 - j)" by (simp add: mant_def power_add)
    then show ?thesis using small [OF True] by simp
  next
    case False
    moreover have "2 \<le> j" by (simp add: j_def)
    ultimately have "3 \<le> j + (e - 3)" "byte_len v = j + (e - 3)" using bl j(2) by linarith+
    then show ?thesis using False mant_mult_power [of j "e - 3" m] j(2) by (simp add: v_def)
  qed
  show "compact v = e * 2 ^ 24 + m"
    using bl mv c by (auto simp: compact_def j_def split: if_split_asm)
qed

lemma from_target_to_target_iff:
  assumes "to_target t < 256 ^ 254"
  shows "from_target (to_target t) = t \<longleftrightarrow> canonical_compact t"
proof
  assume "from_target (to_target t) = t"
  then show "canonical_compact t" using from_target_canonical [OF assms] by simp
next
  assume c: "canonical_compact t"
  define e where "e = unat (bits t) div 2 ^ 24"
  define m where "m = unat (bits t) mod 2 ^ 24"
  have "unat (bits t) < 2 ^ 32" using unsigned_less [of "bits t", where 'a = nat] by simp
  then have em: "e < 256" "m < 2 ^ 24" by (simp_all add: e_def m_def div_less_iff_less_mult)
  have "unat (bits t) = e * 2 ^ 24 + m" by (simp add: e_def m_def)
  then have t: "t = Target (word_of_nat (e * 2 ^ 24 + m))" by (metis Target.collapse word_of_nat_unat)
  show "from_target (to_target t) = t"
  proof (cases "bits t = 0")
    case True
    then have "t = Target 0" by (metis Target.collapse)
    then show ?thesis by (simp add: from_target_def to_target_def)
  next
    case False
    then have m: "2 ^ 15 \<le> m" "m < 2 ^ 23" "256 ^ (3 - e) dvd m"
      using c by (simp_all add: canonical_compact_def Let_def e_def m_def)
    have v: "to_target t = (if e \<le> 3 then m div 256 ^ (3 - e) else m * 256 ^ (e - 3))"
      unfolding t by (rule to_target_char [OF em])
    note inv = compact_inverse [OF m em(1), folded v]
    have "byte_len (to_target t) < 255" using byte_len_le [OF assms] by simp
    then show ?thesis using from_target_char [OF inv(1)] inv(2) t by metis
  qed
qed

section \<open>Properties\<close>

text \<open>
  C40. Compact encoding of a difficulty target keeps exactly the bytes of its mantissa: decoding the
  encoding of \<open>v\<close> gives \<open>v\<close> with every byte below the mantissa cleared, and nothing else, where the
  mantissa is the top three bytes of \<open>v\<close>, or the top two when the top bit of \<open>v\<close> is the top bit of a
  byte (the code then makes room for a sign bit). So it only ever rounds down, by at most one part in
  \<open>2 ^ 15\<close>. And a compact value is given back by decoding and encoding exactly when it is canonical:
  zero, or a mantissa from \<open>2 ^ 15\<close> to \<open>2 ^ 23 - 1\<close> no part of which a small exponent shifts out.
\<close>

theorem target_compact_roundtrip:
  assumes "v < 256 ^ 254" "to_target t < 256 ^ 254"
  defines "below \<equiv> 256 ^ (byte_len (2 * v) - 3)"
  shows "to_target (from_target v) = v div below * below \<and>
    (v - to_target (from_target v)) * 2 ^ 15 \<le> v \<and>
    canonical_compact (from_target v) \<and>
    (from_target (to_target t) = t \<longleftrightarrow> canonical_compact t)"
proof -
  have "(v - to_target (from_target v)) * 2 ^ 15 \<le> v"
  proof (cases "v = 0")
    case False
    then have "0 < v" "byte_len v < 255" using byte_len_le [OF assms(1)] by auto
    then show ?thesis using to_target_from_target_approx(2) less_imp_le by blast
  qed simp
  then show ?thesis
    unfolding below_def using to_target_from_target_masks from_target_canonical from_target_to_target_iff assms(1,2) by blast
qed

theorem target_compact_roundtrip_witness:
  "to_target (from_target 0x9234567890) = 0x9234000000 \<and>
    from_target (to_target (Target 0x1d00ffff)) = Target 0x1d00ffff"
proof -
  have l: "le_digits (2 * 0x9234567890) = [0x20, 0xf1, 0xac, 0x68, 0x24, 0x01]" by (simp add: le_digits_pos)
  then have b: "byte_len (2 * 0x9234567890) - 3 = 3" by (simp add: byte_len_def)
  have "to_target (Target 0x1d00ffff) < 256 ^ 254" by (simp add: to_target_def push_bit_eq_mult)
  moreover have "canonical_compact (Target 0x1d00ffff)" by (simp add: canonical_compact_def)
  moreover have "(0x9234567890::nat) < 256 ^ 254" by simp
  ultimately show ?thesis
    using target_compact_roundtrip [of "0x9234567890" "Target 0x1d00ffff"] unfolding b by simp
qed

end
