(* ===== verification/TxWire.thy ===== *)
theory TxWire
  imports Pow
begin

text \<open>
  Transactions and their wire format (\<open>src/src/tx.rs\<close>): inputs, outputs, transactions, varints,
  serialization, transaction ids and the decoder \<open>decode_full_tx\<close>. A fixed-size array
  \<open>[u8; n]\<close> is a byte list of length \<open>n\<close>; \<open>typed_tx\<close> states those lengths. Offsets are \<open>usize\<close>
  values, and \<open>off + len\<close> wraps around at \<open>2 ^ 64\<close> where \<open>len\<close> comes from the wire.
\<close>

section \<open>Definitions\<close>

record TxInput =
  prev_txid :: bytes
  prev_index :: u32
  script_sig :: bytes
  sequence :: u32

record TxOutput =
  out_value :: u64
  script_pubkey :: bytes

record Transaction =
  tx_version :: u32
  inputs :: "TxInput list"
  outputs :: "TxOutput list"
  locktime :: u32

definition write_varint :: "nat \<Rightarrow> bytes" where
  "write_varint n =
     (if n < 0xfd then [word_of_nat n]
      else if n \<le> 0xffff then 0xfd # u16_le (word_of_nat n)
      else if n \<le> 0xffffffff then 0xfe # u32_le (word_of_nat n)
      else 0xff # u64_le (word_of_nat n))"

text \<open>The value read, if any, with the offset the call leaves behind.\<close>

definition read_varint_at :: "bytes \<Rightarrow> nat \<Rightarrow> u64 option \<times> nat" where
  "read_varint_at data off =
     (if off \<ge> length data then (None, off)
      else
        let first = data ! off; off = off + 1
        in if first = 0xff then
             (if off + 8 > length data then (None, off)
              else (Some (le_u64 (slice data off (off + 8))), off + 8))
           else if first = 0xfe then
             (if off + 4 > length data then (None, off)
              else (Some (ucast (le_u32 (slice data off (off + 4)))), off + 4))
           else if first = 0xfd then
             (if off + 2 > length data then (None, off)
              else (Some (ucast (le_u16 (slice data off (off + 2)))), off + 2))
           else (Some (ucast first), off))"

definition serialize_input :: "TxInput \<Rightarrow> bytes" where
  "serialize_input i =
     word_of_nat (length (prev_txid i)) # prev_txid i @ u32_le (prev_index i) @
     word_of_nat (length (script_sig i)) # script_sig i @ u32_le (sequence i)"

definition serialize_output :: "TxOutput \<Rightarrow> bytes" where
  "serialize_output x =
     u64_le (out_value x) @ write_varint (length (script_pubkey x)) @ script_pubkey x"

definition serialize_tx :: "Transaction \<Rightarrow> bytes" where
  "serialize_tx tx =
     u32_le (tx_version tx) @
     word_of_nat (length (inputs tx)) # concat (map serialize_input (inputs tx)) @
     word_of_nat (length (outputs tx)) # concat (map serialize_output (outputs tx)) @
     u32_le (locktime tx)"

definition txid :: "(bytes \<Rightarrow> bytes) \<Rightarrow> Transaction \<Rightarrow> bytes" where
  "txid sha tx = rev (sha256d sha (serialize_tx tx))"

text \<open>The four readers that \<open>decode_full_tx_at\<close> declares.\<close>

abbreviation (input) eof :: "err + 'a" where
  "eof \<equiv> Inl (Err ''unexpected EOF'')"

definition read_u8 :: "bytes \<Rightarrow> nat \<Rightarrow> err + u8 \<times> nat" where
  "read_u8 buf off = (if off \<ge> length buf then eof else Inr (buf ! off, off + 1))"

definition read_u32 :: "bytes \<Rightarrow> nat \<Rightarrow> err + u32 \<times> nat" where
  "read_u32 buf off =
     (if off + 4 > length buf then eof else Inr (le_u32 (slice buf off (off + 4)), off + 4))"

definition read_u64 :: "bytes \<Rightarrow> nat \<Rightarrow> err + u64 \<times> nat" where
  "read_u64 buf off =
     (if off + 8 > length buf then eof else Inr (le_u64 (slice buf off (off + 8)), off + 8))"

definition read_bytes :: "nat \<Rightarrow> bytes \<Rightarrow> nat \<Rightarrow> err + bytes \<times> nat" where
  "read_bytes len buf off =
     (let stop = (off + len) mod 2 ^ 64
      in if stop > length buf then eof
         else if off > stop then Inl Panic
         else Inr (slice buf off stop, stop))"

definition decode_input :: "bytes \<Rightarrow> nat \<Rightarrow> err + TxInput \<times> nat" where
  "decode_input raw off =
     bindE (read_u8 raw off) (\<lambda>(txid_len, off).
     bindE (read_bytes (unat txid_len) raw off) (\<lambda>(prev_txid_bytes, off).
     bindE (ensure (length prev_txid_bytes = 32) (Err ''invalid prev_txid length'')) (\<lambda>_.
     bindE (read_u32 raw off) (\<lambda>(prev_index, off).
     bindE (read_u8 raw off) (\<lambda>(script_len, off).
     bindE (read_bytes (unat script_len) raw off) (\<lambda>(script_sig, off).
     bindE (read_u32 raw off) (\<lambda>(sequence, off).
       Inr (\<lparr>prev_txid = prev_txid_bytes, prev_index = prev_index, script_sig = script_sig,
             sequence = sequence\<rparr>, off))))))))"

definition decode_output :: "bytes \<Rightarrow> nat \<Rightarrow> err + TxOutput \<times> nat" where
  "decode_output raw off =
     bindE (read_u64 raw off) (\<lambda>(v, off).
     case read_varint_at raw off of
       (None, off) \<Rightarrow> Inl (Err ''unexpected EOF reading output script_len varint'')
     | (Some script_len, off) \<Rightarrow>
         bindE (read_bytes (unat script_len) raw off) (\<lambda>(script_pubkey, off).
           Inr (\<lparr>out_value = v, script_pubkey = script_pubkey\<rparr>, off)))"

definition decode_full_tx_at :: "bytes \<Rightarrow> nat \<Rightarrow> err + Transaction \<times> nat" where
  "decode_full_tx_at raw off =
     bindE (read_u32 raw off) (\<lambda>(version, off).
     bindE (read_u8 raw off) (\<lambda>(input_count, off).
     bindE (read_many (unat input_count) decode_input raw off) (\<lambda>(inputs, off).
     bindE (read_u8 raw off) (\<lambda>(output_count, off).
     bindE (read_many (unat output_count) decode_output raw off) (\<lambda>(outputs, off).
     bindE (read_u32 raw off) (\<lambda>(locktime, off).
       Inr (\<lparr>tx_version = version, inputs = inputs, outputs = outputs, locktime = locktime\<rparr>,
            off)))))))"

definition decode_full_tx :: "bytes \<Rightarrow> err + Transaction" where
  "decode_full_tx raw =
     bindE (decode_full_tx_at raw 0) (\<lambda>(tx, off).
       if off \<noteq> length raw then Inl (Err ''trailing bytes after transaction'') else Inr tx)"

text \<open>
  What the Rust types guarantee of a transaction, and what its one-byte length fields can carry.
\<close>

definition typed_tx :: "Transaction \<Rightarrow> bool" where
  "typed_tx tx \<longleftrightarrow> list_all (\<lambda>i. length (prev_txid i) = 32) (inputs tx)"

definition wire_input :: "TxInput \<Rightarrow> bool" where
  "wire_input i \<longleftrightarrow> length (prev_txid i) = 32 \<and> length (script_sig i) \<le> 255"

definition wire_output :: "TxOutput \<Rightarrow> bool" where
  "wire_output x \<longleftrightarrow> length (script_pubkey x) < 2 ^ 63"

definition wire_tx :: "Transaction \<Rightarrow> bool" where
  "wire_tx tx \<longleftrightarrow> length (inputs tx) \<le> 255 \<and> length (outputs tx) \<le> 255 \<and>
     list_all wire_input (inputs tx) \<and> list_all wire_output (outputs tx)"

section \<open>Readers\<close>

lemma read_u8_at [wire_simps]: "drop off buf = b # rest \<Longrightarrow> read_u8 buf off = Inr (b, Suc off)"
  using drop_eq_Cons [of off buf b rest] by (simp add: read_u8_def)

lemma read_u32_at [wire_simps]:
  assumes "drop off buf = u32_le w @ rest"
  shows "read_u32 buf off = Inr (w, off + 4)"
  using drop_eq_append_slice(1) [OF assms] drop_eq_append_length [OF assms]
  by (simp add: read_u32_def)

lemma read_u64_at [wire_simps]:
  assumes "drop off buf = u64_le w @ rest"
  shows "read_u64 buf off = Inr (w, off + 8)"
  using drop_eq_append_slice(1) [OF assms] drop_eq_append_length [OF assms]
  by (simp add: read_u64_def)

lemma read_bytes_at [wire_simps]:
  assumes "buffer_ok buf" "off \<le> length buf" "drop off buf = xs @ rest" "n = length xs"
  shows "read_bytes n buf off = Inr (xs, off + length xs)"
proof -
  have "off + length xs \<le> length buf" by (rule drop_append_le [OF assms(2,3)])
  then show ?thesis
    using assms drop_eq_append_slice(1) [OF assms(3)] by (simp add: read_bytes_def Let_def)
qed

lemma read_u8_Inr: "read_u8 buf off = Inr (b, off') \<longleftrightarrow> off < length buf \<and> b = buf ! off \<and> off' = off + 1"
  by (auto simp: read_u8_def)

lemma read_u32_Inr:
  "read_u32 buf off = Inr (w, off') \<longleftrightarrow>
    off + 4 \<le> length buf \<and> w = le_u32 (slice buf off (off + 4)) \<and> off' = off + 4"
  by (auto simp: read_u32_def)

lemma read_u64_Inr:
  "read_u64 buf off = Inr (w, off') \<longleftrightarrow>
    off + 8 \<le> length buf \<and> w = le_u64 (slice buf off (off + 8)) \<and> off' = off + 8"
  by (auto simp: read_u64_def)

lemma read_bytes_Inr:
  "read_bytes n buf off = Inr (xs, off') \<Longrightarrow>
    off \<le> off' \<and> off' \<le> length buf \<and> off' = off + length xs \<and> length xs \<le> n"
proof -
  assume r: "read_bytes n buf off = Inr (xs, off')"
  have "(off + n) mod 2 ^ 64 \<le> off + n" by (rule mod_less_eq_dividend)
  moreover have "off' = (off + n) mod 2 ^ 64" "off \<le> off'" "off' \<le> length buf"
    "off' = off + length xs"
    using r by (auto simp: read_bytes_def Let_def split: if_splits)
  ultimately show ?thesis by simp
qed

lemma read_bytes_u8_Inr:
  "read_bytes (unat (b::u8)) buf off = Inr (xs, off') \<Longrightarrow> length xs \<le> 255"
  using read_bytes_Inr [of "unat b" buf off xs off'] unat_u8_lt [of b] by simp

section \<open>Varints\<close>

lemma write_varint_neq_Nil [simp]: "write_varint n \<noteq> []"
  by (simp add: write_varint_def)

lemma length_write_varint: "length (write_varint n) \<le> 9"
  by (simp add: write_varint_def)

lemma ucast_word_of_nat:
  "n < 2 ^ LENGTH('a::len) \<Longrightarrow> (ucast (word_of_nat n :: 'a word) :: 'b::len word) = word_of_nat n"
  by (simp add: unsigned_of_nat take_bit_nat_eq_self)

text \<open>A varint of at most eight payload bytes reads back as the number written.\<close>

lemma read_varint_write_varint [wire_simps]:
  assumes "n < 2 ^ 64" "drop off data = write_varint n @ rest"
  shows "read_varint_at data off = (Some (word_of_nat n), off + length (write_varint n))"
proof -
  consider (one) "n < 0xfd" | (two) "0xfd \<le> n" "n \<le> 0xffff"
    | (four) "0xffff < n" "n \<le> 0xffffffff" | (eight) "0xffffffff < n"
    by linarith
  then show ?thesis
  proof cases
    case one
    then have d: "drop off data = word_of_nat n # rest"
      using assms(2) by (simp add: write_varint_def)
    have "unat (word_of_nat n :: u8) = n" using one by (intro unat_word_of_nat_small) simp
    then have "(word_of_nat n :: u8) \<noteq> 0xff" "(word_of_nat n :: u8) \<noteq> 0xfe"
      "(word_of_nat n :: u8) \<noteq> 0xfd" using one by (auto simp: word_unat_eq_iff)
    moreover have "(ucast (word_of_nat n :: u8) :: u64) = word_of_nat n"
      using one by (intro ucast_word_of_nat) simp
    ultimately show ?thesis
      using drop_eq_Cons [OF d] one by (simp add: read_varint_at_def write_varint_def)
  next
    case two
    then have d: "drop off data = 0xfd # u16_le (word_of_nat n) @ rest"
      using assms(2) by (simp add: write_varint_def)
    note c = drop_eq_Cons [OF d]
    have "(ucast (word_of_nat n :: u16) :: u64) = word_of_nat n"
      using two by (intro ucast_word_of_nat) simp
    then show ?thesis
      using c(1,2) two drop_eq_append_slice(1) [OF c(3)] drop_eq_append_length [OF c(3)]
      by (simp add: read_varint_at_def write_varint_def)
  next
    case four
    then have d: "drop off data = 0xfe # u32_le (word_of_nat n) @ rest"
      using assms(2) by (simp add: write_varint_def)
    note c = drop_eq_Cons [OF d]
    have "(ucast (word_of_nat n :: u32) :: u64) = word_of_nat n"
      using four by (intro ucast_word_of_nat) simp
    then show ?thesis
      using c(1,2) four drop_eq_append_slice(1) [OF c(3)] drop_eq_append_length [OF c(3)]
      by (simp add: read_varint_at_def write_varint_def)
  next
    case eight
    then have d: "drop off data = 0xff # u64_le (word_of_nat n) @ rest"
      using assms(2) by (simp add: write_varint_def)
    note c = drop_eq_Cons [OF d]
    show ?thesis
      using c(1,2) eight drop_eq_append_slice(1) [OF c(3)] drop_eq_append_length [OF c(3)]
      by (simp add: read_varint_at_def write_varint_def)
  qed
qed

lemma read_varint_bounds:
  "read_varint_at data off = (Some v, off') \<Longrightarrow> off < off' \<and> off' \<le> length data"
  by (auto simp: read_varint_at_def Let_def split: if_splits)

section \<open>Codecs of inputs, outputs and transactions\<close>

lemma decode_input_serialize:
  assumes "wire_input i" "buffer_ok buf" "off \<le> length buf"
    and d: "drop off buf = serialize_input i @ rest"
  shows "decode_input buf off = Inr (i, off + length (serialize_input i))"
proof -
  have l: "length (prev_txid i) = 32" "length (script_sig i) \<le> 255"
    using assms(1) by (auto simp: wire_input_def)
  have u: "unat (word_of_nat (length (script_sig i)) :: u8) = length (script_sig i)"
    using l(2) by (intro unat_word_of_nat_small) simp
  have d0: "drop off buf = 32 # prev_txid i @ u32_le (prev_index i) @
      word_of_nat (length (script_sig i)) # script_sig i @ u32_le (sequence i) @ rest"
    using d l(1) by (simp add: serialize_input_def)
  note s1 = drop_eq_Cons(3) [OF d0]
  note s2 = drop_eq_append_slice(2) [OF s1]
  note s3 = drop_eq_append_slice(2) [OF s2]
  note s4 = drop_eq_Cons(3) [OF s3]
  note s5 = drop_eq_append_slice(2) [OF s4]
  have b1: "Suc off \<le> length buf" using drop_eq_Cons(1) [OF d0] by simp
  have b4: "Suc (Suc off + length (prev_txid i) + length (u32_le (prev_index i))) \<le> length buf"
    using drop_eq_Cons(1) [OF s3] by simp
  show ?thesis
    using read_u8_at [OF d0] read_bytes_at [OF assms(2) b1 s1, of 32] read_u32_at [OF s2]
      read_u8_at [OF s3] read_bytes_at [OF assms(2) b4 s4, OF refl] read_u32_at [OF s5] l u
    by (simp add: decode_input_def serialize_input_def)
qed

lemma decode_input_Inr:
  assumes "buffer_ok buf" "decode_input buf off = Inr (i, off')"
  shows "wire_input i" "off \<le> off'" "off' \<le> length buf"
proof -
  obtain n o1 p o2 k o3 m o4 s q where
    r: "read_u8 buf off = Inr (n, o1)" "read_bytes (unat n) buf o1 = Inr (p, o2)" "length p = 32"
      "read_u32 buf o2 = Inr (k, o3)" "read_u8 buf o3 = Inr (m, o4)"
      "read_bytes (unat m) buf o4 = Inr (s, q)" "q + 4 \<le> length buf" "off' = q + 4"
    and i: "prev_txid i = p" "script_sig i = s"
    using assms(2) by (auto simp: decode_input_def bindE_eq_Inr read_u32_Inr)
  show "wire_input i"
    using r(3) i read_bytes_u8_Inr [OF r(6)] by (simp add: wire_input_def)
  show "off' \<le> length buf" using r by simp
  show "off \<le> off'"
    using r(1,4,5,8) read_bytes_Inr [OF r(2)] read_bytes_Inr [OF r(6)]
    unfolding read_u8_Inr read_u32_Inr by linarith
qed

lemma decode_output_serialize:
  assumes "wire_output x" "buffer_ok buf" "off \<le> length buf"
    and d: "drop off buf = serialize_output x @ rest"
  shows "decode_output buf off = Inr (x, off + length (serialize_output x))"
proof -
  have l: "length (script_pubkey x) < 2 ^ 64" using assms(1) by (simp add: wire_output_def)
  then have u: "unat (word_of_nat (length (script_pubkey x)) :: u64) = length (script_pubkey x)"
    by (intro unat_word_of_nat_small) simp
  have d0: "drop off buf = u64_le (out_value x) @ write_varint (length (script_pubkey x)) @
      script_pubkey x @ rest"
    using d by (simp add: serialize_output_def)
  note s1 = drop_eq_append_slice(2) [OF d0]
  note s2 = drop_eq_append_slice(2) [OF s1]
  note v = read_varint_write_varint [OF l s1]
  have b: "off + length (u64_le (out_value x)) + length (write_varint (length (script_pubkey x)))
      \<le> length buf"
    using drop_eq_append_length [OF s1] by simp
  show ?thesis
    using read_u64_at [OF d0] v read_bytes_at [OF assms(2) b s2, OF refl] u
    by (simp add: decode_output_def serialize_output_def)
qed

lemma decode_output_InrE:
  assumes "decode_output buf off = Inr (x, off')"
  obtains n o2 where "off + 8 \<le> length buf" "read_varint_at buf (off + 8) = (Some n, o2)"
    "read_bytes (unat n) buf o2 = Inr (script_pubkey x, off')"
proof -
  obtain n o2 where "read_varint_at buf (off + 8) = (n, o2)" by fastforce
  then show thesis
    using assms that
    by (auto simp: decode_output_def bindE_eq_Inr read_u64_Inr split: option.split_asm)
qed

lemma decode_output_Inr:
  assumes "buffer_ok buf" "decode_output buf off = Inr (x, off')"
  shows "wire_output x" "off \<le> off'" "off' \<le> length buf"
proof -
  from decode_output_InrE [OF assms(2)] obtain n o2 where
    r: "off + 8 \<le> length buf" "read_varint_at buf (off + 8) = (Some n, o2)"
      "read_bytes (unat n) buf o2 = Inr (script_pubkey x, off')"
    by blast
  note b = read_bytes_Inr [OF r(3)]
  show "wire_output x" using b assms(1) by (simp add: wire_output_def)
  show "off' \<le> length buf" using b by simp
  show "off \<le> off'" using r(1) read_varint_bounds [OF r(2)] b by linarith
qed

interpretation input_codec: wire_codec serialize_input decode_input wire_input
  using decode_input_serialize decode_input_Inr by unfold_locales blast+

interpretation output_codec: wire_codec serialize_output decode_output wire_output
  using decode_output_serialize decode_output_Inr by unfold_locales blast+

lemma serialize_tx_append:
  "serialize_tx tx @ rest = u32_le (tx_version tx) @ word_of_nat (length (inputs tx)) #
     concat (map serialize_input (inputs tx)) @ word_of_nat (length (outputs tx)) #
     concat (map serialize_output (outputs tx)) @ u32_le (locktime tx) @ rest"
  by (simp add: serialize_tx_def)

lemma decode_full_tx_at_serialize:
  assumes "wire_tx tx" "buffer_ok buf" "off \<le> length buf"
    and d: "drop off buf = serialize_tx tx @ rest"
  shows "decode_full_tx_at buf off = Inr (tx, off + length (serialize_tx tx))"
proof -
  have w: "length (inputs tx) \<le> 255" "length (outputs tx) \<le> 255"
    "list_all wire_input (inputs tx)" "list_all wire_output (outputs tx)"
    using assms(1) by (auto simp: wire_tx_def)
  have u: "unat (word_of_nat (length (inputs tx)) :: u8) = length (inputs tx)"
    "unat (word_of_nat (length (outputs tx)) :: u8) = length (outputs tx)"
    using w by (auto intro!: unat_word_of_nat_small)
  note s0 = d [unfolded serialize_tx_append]
  note s1 = drop_eq_append_slice(2) [OF s0]
  note s2 = drop_eq_Cons(3) [OF s1]
  note s3 = drop_eq_append_slice(2) [OF s2]
  note s4 = drop_eq_Cons(3) [OF s3]
  note s5 = drop_eq_append_slice(2) [OF s4]
  note i = input_codec.read_many_enc [OF w(3) assms(2) Suc_leI [OF drop_eq_Cons(1) [OF s1]] s2]
  note o' = output_codec.read_many_enc [OF w(4) assms(2) Suc_leI [OF drop_eq_Cons(1) [OF s3]] s4]
  show ?thesis
    using read_u32_at [OF s0] read_u8_at [OF s1] read_u8_at [OF s3] read_u32_at [OF s5] i o' u
    by (simp add: decode_full_tx_at_def serialize_tx_def)
qed

lemma decode_full_tx_at_InrE:
  assumes "decode_full_tx_at buf off = Inr (tx, off')"
  obtains n o1 k o2 where "off + 5 \<le> length buf" 
    "read_many (unat (n :: u8)) decode_input buf (off + 5) = Inr (inputs tx, o1)" "o1 < length buf"
    "read_many (unat (k :: u8)) decode_output buf (o1 + 1) = Inr (outputs tx, o2)"
    "o2 + 4 \<le> length buf" "off' = o2 + 4"
  using assms
  by (auto simp: decode_full_tx_at_def bindE_eq_Inr read_u32_Inr read_u8_Inr eval_nat_numeral)

lemma decode_full_tx_at_Inr:
  assumes "buffer_ok buf" "decode_full_tx_at buf off = Inr (tx, off')"
  shows "wire_tx tx" "off \<le> off'" "off' \<le> length buf"
proof -
  from decode_full_tx_at_InrE [OF assms(2)] obtain n k :: u8 and o1 o2 where
    r: "off + 5 \<le> length buf" "read_many (unat n) decode_input buf (off + 5) = Inr (inputs tx, o1)"
      "o1 < length buf" "read_many (unat k) decode_output buf (o1 + 1) = Inr (outputs tx, o2)"
      "o2 + 4 \<le> length buf" "off' = o2 + 4"
    by blast
  show "wire_tx tx"
    using input_codec.read_many_wf [OF assms(1) r(2)] output_codec.read_many_wf [OF assms(1) r(4)]
      unat_u8_lt [of n] unat_u8_lt [of k] by (simp add: wire_tx_def)
  show "off \<le> off'" "off' \<le> length buf"
    using r input_codec.read_many_bound [OF assms(1) r(1,2)]
      output_codec.read_many_bound [OF assms(1) _ r(4)] by simp_all
qed

interpretation tx_codec: wire_codec serialize_tx decode_full_tx_at wire_tx
  using decode_full_tx_at_serialize decode_full_tx_at_Inr by unfold_locales blast+

lemma decode_full_tx_Inr:
  "decode_full_tx raw = Inr tx \<longleftrightarrow> decode_full_tx_at raw 0 = Inr (tx, length raw)"
  by (auto simp: decode_full_tx_def bindE_eq_Inr split: if_splits)

lemma decode_full_tx_serialize:
  assumes "buffer_ok (serialize_tx tx)" "wire_tx tx"
  shows "decode_full_tx (serialize_tx tx) = Inr tx"
  using tx_codec.dec_enc [OF assms(2,1), of 0 "[]"] by (simp add: decode_full_tx_def)

text \<open>
  Decoding never lengthens: the bytes an accepted item re-serialises to are at most the bytes it
  was read from, the only slack being a varint wider than its value needs.
\<close>

lemma unat_ucast_u64:
  "unat (ucast (b :: u8) :: u64) = unat b" "unat (ucast (h :: u16) :: u64) = unat h"
  "unat (ucast (w :: u32) :: u64) = unat w"
  using unsigned_less [of b, where 'a = nat] unsigned_less [of h, where 'a = nat]
    unsigned_less [of w, where 'a = nat]
  by (auto simp: unsigned_ucast_eq take_bit_nat_eq_self)

lemma read_varint_minimal:
  assumes "read_varint_at data off = (Some v, off')"
  shows "off + length (write_varint (unat v)) \<le> off'"
proof -
  have "unat b < 0xfd" if "b \<noteq> 0xff" "b \<noteq> 0xfe" "b \<noteq> 0xfd" for b :: u8
    using that unat_u8_lt [of b] by (auto simp: word_unat_eq_iff)
  moreover have "unat (b :: u8) \<le> 0xffff" "unat b \<le> 0xffffffff" "unat (h :: u16) \<le> 0xffff"
    "unat h \<le> 0xffffffff" "unat (w :: u32) \<le> 0xffffffff" for b h w
    using unsigned_less [of b, where 'a = nat] unsigned_less [of h, where 'a = nat]
      unsigned_less [of w, where 'a = nat] by auto
  ultimately show ?thesis
    using assms by (auto simp: read_varint_at_def write_varint_def Let_def unat_ucast_u64 
        split: if_split_asm)
qed

lemma write_varint_mono: "m \<le> n \<Longrightarrow> length (write_varint m) \<le> length (write_varint n)"
  unfolding write_varint_def by simp

lemma decode_input_length:
  assumes "buffer_ok buf" "decode_input buf off = Inr (i, off')"
  shows "off + length (serialize_input i) \<le> off'"
proof -
  obtain n m :: u8 and o2 q where
    r: "read_bytes (unat n) buf (off + 1) = Inr (prev_txid i, o2)"
      "read_bytes (unat m) buf (o2 + 5) = Inr (script_sig i, q)" "off' = q + 4"
    using assms(2)
    by (auto simp: decode_input_def bindE_eq_Inr read_u8_Inr read_u32_Inr add.commute)
  show ?thesis
    using r(3) read_bytes_Inr [OF r(1)] read_bytes_Inr [OF r(2)]
    by (simp add: serialize_input_def)
qed

lemma decode_output_length:
  assumes "buffer_ok buf" "decode_output buf off = Inr (x, off')"
  shows "off + length (serialize_output x) \<le> off'"
proof -
  from decode_output_InrE [OF assms(2)] obtain n o2 where
    r: "off + 8 \<le> length buf" "read_varint_at buf (off + 8) = (Some n, o2)"
      "read_bytes (unat n) buf o2 = Inr (script_pubkey x, off')"
    by blast
  note b = read_bytes_Inr [OF r(3)]
  have "length (script_pubkey x) \<le> unat n" using b by simp
  then have "length (write_varint (length (script_pubkey x))) \<le> length (write_varint (unat n))"
    by (rule write_varint_mono)
  then show ?thesis
    using b read_varint_minimal [OF r(2)] by (simp add: serialize_output_def)
qed

lemma read_many_length_le:
  assumes "\<And>off a off'. d buf off = Inr (a, off') \<Longrightarrow> off + length (enc a) \<le> off'"
    and "read_many n d buf off = Inr (xs, off')"
  shows "off + length (concat (map enc xs)) \<le> off'"
  using assms(2)
proof (induction n arbitrary: off xs)
  case (Suc n)
  then obtain x o1 ys where
    r: "d buf off = Inr (x, o1)" "read_many n d buf o1 = Inr (ys, off')" "xs = x # ys"
    by (auto simp: bindE_eq_Inr)
  show ?case using assms(1) [OF r(1)] Suc.IH [OF r(2)] r(3) by simp
qed simp

lemma decode_full_tx_length:
  assumes "buffer_ok buf" "decode_full_tx buf = Inr tx"
  shows "length (serialize_tx tx) \<le> length buf"
proof (rule decode_full_tx_at_InrE [OF assms(2) [unfolded decode_full_tx_Inr]])
  fix n k :: u8 and o1 o2
  assume r: "read_many (unat n) decode_input buf (0 + 5) = Inr (inputs tx, o1)"
      "read_many (unat k) decode_output buf (o1 + 1) = Inr (outputs tx, o2)" "length buf = o2 + 4"
  show ?thesis
    using read_many_length_le [of decode_input buf serialize_input, OF decode_input_length [OF assms(1)] r(1)]
      read_many_length_le [of decode_output buf serialize_output, OF decode_output_length [OF assms(1)] r(2)] r(3)
    by (simp add: serialize_tx_def)
qed

section \<open>Properties\<close>

text \<open>
  C33. A transaction value of the Rust types (every previous transaction id is a 32-byte array)
  survives \<open>serialize\<close> followed by \<open>decode_full_tx\<close> exactly when its counts and
  input scripts fit the one-byte length fields: at most 255 inputs, 255 outputs and 255 bytes per
  input script. Beyond those bounds the length is truncated by the cast to u8, so the bytes decode
  to something else or not at all.
\<close>

theorem decode_full_tx_roundtrip:
  assumes "typed_tx tx" "buffer_ok (serialize_tx tx)"
  shows "decode_full_tx (serialize_tx tx) = Inr tx \<longleftrightarrow> wire_tx tx"
  using decode_full_tx_serialize [OF assms(2)] tx_codec.dec_wf [OF assms(2)]
  unfolding decode_full_tx_Inr by blast

definition sample_tx :: Transaction where
  "sample_tx = \<lparr>tx_version = 1,
     inputs = [\<lparr>prev_txid = replicate 32 0, prev_index = 7, script_sig = [1, 2], sequence = 0xffffffff\<rparr>],
     outputs = [\<lparr>out_value = 5, script_pubkey = [0x51]\<rparr>], locktime = 9\<rparr>"

lemma sample_tx_ok: "typed_tx sample_tx" "buffer_ok (serialize_tx sample_tx)" "wire_tx sample_tx"
  by (simp_all add: sample_tx_def typed_tx_def wire_tx_def wire_input_def wire_output_def
      serialize_tx_def serialize_input_def serialize_output_def write_varint_def)

theorem decode_full_tx_roundtrip_witness:
  "decode_full_tx (serialize_tx sample_tx) = Inr sample_tx"
  using decode_full_tx_roundtrip [OF sample_tx_ok(1,2)] sample_tx_ok(3) by simp

text \<open>
  C34. Decoding is canonicalising: whatever bytes a peer sends, an accepted transaction fits the wire
  bounds, re-serialises to no more bytes than were received, and that re-serialisation decodes to
  the very same transaction. So the node's own relay of an accepted transaction is always accepted.
\<close>

theorem decode_full_tx_canonical:
  assumes "buffer_ok raw" "decode_full_tx raw = Inr tx"
  shows "wire_tx tx \<and> length (serialize_tx tx) \<le> length raw \<and>
    decode_full_tx (serialize_tx tx) = Inr tx"
proof -
  have "wire_tx tx" using tx_codec.dec_wf [OF assms(1)] assms(2) decode_full_tx_Inr by blast
  moreover have l: "length (serialize_tx tx) \<le> length raw"
    by (rule decode_full_tx_length [OF assms])
  moreover have "buffer_ok (serialize_tx tx)" using l assms(1) by linarith
  ultimately show ?thesis using decode_full_tx_serialize by blast
qed

definition sample_wide :: bytes where
  "sample_wide = u32_le 1 @ [0, 1] @ u64_le 5 @ [0xfd, 1, 0, 0x51] @ u32_le 9"

theorem decode_full_tx_canonical_witness:
  "decode_full_tx sample_wide = Inr \<lparr>tx_version = 1, inputs = [],
     outputs = [\<lparr>out_value = 5, script_pubkey = [0x51]\<rparr>], locktime = 9\<rparr> \<and>
   length (serialize_tx \<lparr>tx_version = 1, inputs = [],
     outputs = [\<lparr>out_value = 5, script_pubkey = [0x51]\<rparr>], locktime = 9\<rparr>) \<le> length sample_wide"
proof -
  have d: "decode_full_tx sample_wide = Inr \<lparr>tx_version = 1, inputs = [],
     outputs = [\<lparr>out_value = 5, script_pubkey = [0x51]\<rparr>], locktime = 9\<rparr>" by code_simp
  have "buffer_ok sample_wide" by (simp add: sample_wide_def)
  from decode_full_tx_canonical [OF this d] d show ?thesis by blast
qed

text \<open>
  C35. The decoder can be made to panic by twenty-three bytes: an output whose script length is a nine-byte
  varint close to the top of the u64 range makes the offset addition wrap below the read position,
  so the bounds test passes and the slice has its start after its end.
\<close>

theorem decode_full_tx_panics:
  "decode_full_tx (u32_le 1 @ 0 # 1 # u64_le v @ 0xff # u64_le 0xffffffffffffffff @ rest) = Inl Panic"
proof -
  define buf where "buf = u32_le 1 @ 0 # 1 # u64_le v @ 0xff # u64_le 0xffffffffffffffff @ rest"
  have s0: "drop 0 buf = u32_le 1 @ 0 # 1 # u64_le v @ 0xff # u64_le 0xffffffffffffffff @ rest"
    by (simp add: buf_def)
  note s4 = drop_eq_append_slice(2) [OF s0, simplified]
  note s5 = drop_eq_Cons(3) [OF s4, simplified]
  note s6 = drop_eq_Cons(3) [OF s5, simplified]
  note s14 = drop_eq_append_slice(2) [OF s6, simplified]
  note s15 = drop_eq_Cons(3) [OF s14, simplified]
  have l: "length buf = 23 + length rest" by (simp add: buf_def)
  have v: "read_varint_at buf 14 = (Some 0xffffffffffffffff, 23)"
    using drop_eq_Cons(1,2) [OF s14] drop_eq_append_slice(1) [OF s15] l
    by (simp add: read_varint_at_def)
  have b: "read_bytes (unat (0xffffffffffffffff :: u64)) buf 23 = Inl Panic"
    using l by (simp add: read_bytes_def)
  have "decode_output buf 6 = Inl Panic"
    using read_u64_at [OF s6] v b by (simp add: decode_output_def)
  then show ?thesis
    unfolding buf_def [symmetric]
    using read_u32_at [OF s0] read_u8_at [OF s4] read_u8_at [OF s5]
    by (simp add: decode_full_tx_def decode_full_tx_at_def)
qed

end
