(* ===== verification/Auxpow.thy ===== *)
theory Auxpow
  imports TxWire
begin

text \<open>
  Merged mining, \<open>src/src/auxpow.rs\<close>: the AuxPoW extension of a block with its wire codec, the
  search for the commitment in a parent coinbase, Merkle branches, and proof validation over a
  caller-supplied parent proof-of-work predicate. SHA-256 is the parameter \<open>sha\<close>.
\<close>

unbundle bit_operations_syntax

abbreviation (input) AUXPOW_VERSION_BIT :: u32 where "AUXPOW_VERSION_BIT \<equiv> 0x100"
abbreviation (input) AUXPOW_COMMIT_MAGIC :: bytes where "AUXPOW_COMMIT_MAGIC \<equiv> [0xfa, 0xbe, 0x6d, 0x6d]"
abbreviation (input) MAX_BRANCH_DEPTH :: nat where "MAX_BRANCH_DEPTH \<equiv> 20"

record AuxPoW =
  coinbase_txn :: bytes
  parent_hash :: bytes
  coinbase_branch :: "bytes list"
  coinbase_branch_index :: u32
  blockchain_branch :: "bytes list"
  blockchain_branch_index :: u32
  parent_header :: bytes

section \<open>Merkle branches and commitments\<close>

fun compute_merkle_root :: "(bytes \<Rightarrow> bytes) \<Rightarrow> bytes \<Rightarrow> bytes list \<Rightarrow> u32 \<Rightarrow> bytes" where
  "compute_merkle_root sha current [] idx = current"
| "compute_merkle_root sha current (sibling # branch) idx =
     compute_merkle_root sha
       (sha256d sha (if idx AND 1 = 0 then current @ sibling else sibling @ current))
       branch (drop_bit 1 idx)"

fun find_commitment_from :: "nat \<Rightarrow> bytes \<Rightarrow> nat \<Rightarrow> err + bytes \<times> u32" where
  "find_commitment_from 0 coinbase i = Inl (Err ''merged-mining commitment not found in coinbase'')"
| "find_commitment_from (Suc n) coinbase i =
     (if slice coinbase i (i + 4) = AUXPOW_COMMIT_MAGIC \<and> \<not> (i + 4 + 32 + 4 > length coinbase) then
        Inr (slice coinbase (i + 4) (i + 36), le_u32 (slice coinbase (i + 36) (i + 40)))
      else find_commitment_from n coinbase (i + 1))"

definition find_commitment :: "bytes \<Rightarrow> err + bytes \<times> u32" where
  "find_commitment coinbase =
     (if length coinbase < 40 then Inl (Err ''coinbase too short to contain a commitment'')
      else find_commitment_from (length coinbase - 39) coinbase 0)"

definition build_commitment :: "bytes \<Rightarrow> u32 \<Rightarrow> u32 \<Rightarrow> bytes" where
  "build_commitment aux_hash chain_count nonce =
     AUXPOW_COMMIT_MAGIC @ rev aux_hash @ u32_le chain_count @ u32_le nonce"

section \<open>Validation\<close>

definition validate_with_parent_hash ::
    "(bytes \<Rightarrow> bytes) \<Rightarrow> AuxPoW \<Rightarrow> bytes \<Rightarrow> Target \<Rightarrow> (bytes \<Rightarrow> bool) \<Rightarrow> err + unit" where
  "validate_with_parent_hash sha ap aux_header_bytes target parent_pow =
     (if length aux_header_bytes \<noteq> 80 then Inl (Err ''aux block header must be exactly 80 bytes'')
      else if length (coinbase_branch ap) > MAX_BRANCH_DEPTH then
        Inl (Err ''coinbase branch depth exceeds maximum'')
      else if length (blockchain_branch ap) > MAX_BRANCH_DEPTH then
        Inl (Err ''blockchain branch depth exceeds maximum'')
      else let aux_hash = sha256d sha aux_header_bytes in
      bindE (find_commitment (coinbase_txn ap)) (\<lambda>(committed_root, chain_count).
      if chain_count = 0 then Inl (Err ''chain count in commitment is zero'')
      else bindE
        (if chain_count = 1 then
           ensure (committed_root = rev aux_hash) (Err ''coinbase commitment does not match aux block hash'')
         else if blockchain_branch_index ap \<ge> chain_count then
           Inl (Err ''blockchain branch index exceeds chain count'')
         else
           ensure (rev (compute_merkle_root sha aux_hash (blockchain_branch ap) (blockchain_branch_index ap))
                     = committed_root)
             (Err ''blockchain Merkle branch does not match commitment root''))
        (\<lambda>_.
          let coinbase_txid = sha256d sha (coinbase_txn ap);
              parent_merkle_root = slice (parent_header ap) 36 68;
              computed_tx_root =
                compute_merkle_root sha coinbase_txid (coinbase_branch ap) (coinbase_branch_index ap)
          in if computed_tx_root \<noteq> parent_merkle_root then
               Inl (Err ''coinbase Merkle branch does not match parent block merkle root'')
             else if \<not> parent_pow (parent_header ap) then
               Inl (Err ''parent block hash does not meet target'')
             else Inr ())))"

definition validate :: "(bytes \<Rightarrow> bytes) \<Rightarrow> AuxPoW \<Rightarrow> bytes \<Rightarrow> Target \<Rightarrow> err + unit" where
  "validate sha ap aux_header_bytes target =
     validate_with_parent_hash sha ap aux_header_bytes target
       (\<lambda>header. meets_target (rev (sha256d sha header)) target)"

section \<open>Wire format\<close>

definition aux_read_varint :: "bytes \<Rightarrow> nat \<Rightarrow> err + nat \<times> nat" where
  "aux_read_varint data off =
     (if off \<ge> length data then Inl (Err ''unexpected EOF reading varint'')
      else
        let first = data ! off; off = off + 1
        in if first = 0xff then
             (if off + 8 > length data then Inl (Err ''unexpected EOF reading 8-byte varint'')
              else Inr (unat (le_u64 (slice data off (off + 8))), off + 8))
           else if first = 0xfe then
             (if off + 4 > length data then Inl (Err ''unexpected EOF reading 4-byte varint'')
              else Inr (unat (le_u32 (slice data off (off + 4))), off + 4))
           else if first = 0xfd then
             (if off + 2 > length data then Inl (Err ''unexpected EOF reading 2-byte varint'')
              else Inr (unat (le_u16 (slice data off (off + 2))), off + 2))
           else Inr (unat first, off))"

definition serialize_auxpow :: "AuxPoW \<Rightarrow> bytes" where
  "serialize_auxpow ap =
     write_varint (length (coinbase_txn ap)) @ coinbase_txn ap @ parent_hash ap @
     write_varint (length (coinbase_branch ap)) @ concat (coinbase_branch ap) @
     u32_le (coinbase_branch_index ap) @
     write_varint (length (blockchain_branch ap)) @ concat (blockchain_branch ap) @
     u32_le (blockchain_branch_index ap) @ parent_header ap"

definition aux_read_fixed :: "nat \<Rightarrow> string \<Rightarrow> bytes \<Rightarrow> nat \<Rightarrow> err + bytes \<times> nat" where
  "aux_read_fixed n what data off =
     (if off + n > length data then Inl (Err what) else Inr (slice data off (off + n), off + n))"

definition aux_read_branch :: "string \<Rightarrow> string \<Rightarrow> string \<Rightarrow> bytes \<Rightarrow> nat \<Rightarrow> err + (bytes list \<times> u32) \<times> nat" where
  "aux_read_branch too_deep eof_hash eof_index data off =
     bindE (aux_read_varint data off) (\<lambda>(count, off).
     if count > MAX_BRANCH_DEPTH then Inl (Err too_deep)
     else bindE (read_many count (aux_read_fixed 32 eof_hash) data off) (\<lambda>(branch, off).
     bindE (aux_read_fixed 4 eof_index data off) (\<lambda>(index, off).
       Inr ((branch, le_u32 index), off))))"

definition deserialize_auxpow :: "bytes \<Rightarrow> nat \<Rightarrow> err + AuxPoW \<times> nat" where
  "deserialize_auxpow data off =
     bindE (aux_read_varint data off) (\<lambda>(coinbase_len, off).
     if coinbase_len > 1000000 then Inl (Err ''coinbase transaction too large'')
     else bindE (aux_read_fixed coinbase_len ''unexpected EOF reading coinbase txn'' data off)
       (\<lambda>(coinbase_txn, off).
     bindE (aux_read_fixed 32 ''unexpected EOF reading parent_hash'' data off) (\<lambda>(parent_hash, off).
     bindE (aux_read_branch ''coinbase branch depth exceeds maximum''
              ''unexpected EOF reading coinbase branch hash''
              ''unexpected EOF reading coinbase_branch_index'' data off) (\<lambda>((cb, cb_index), off).
     bindE (aux_read_branch ''blockchain branch depth exceeds maximum''
              ''unexpected EOF reading blockchain branch hash''
              ''unexpected EOF reading blockchain_branch_index'' data off) (\<lambda>((bc, bc_index), off).
     bindE (aux_read_fixed 80 ''unexpected EOF reading parent_header'' data off) (\<lambda>(parent_header, off).
       Inr (\<lparr>coinbase_txn = coinbase_txn, parent_hash = parent_hash, coinbase_branch = cb,
              coinbase_branch_index = cb_index, blockchain_branch = bc,
              blockchain_branch_index = bc_index, parent_header = parent_header\<rparr>, off)))))))"

definition wire_auxpow :: "AuxPoW \<Rightarrow> bool" where
  "wire_auxpow ap \<longleftrightarrow> length (coinbase_txn ap) \<le> 1000000 \<and> length (parent_hash ap) = 32 \<and>
     length (coinbase_branch ap) \<le> MAX_BRANCH_DEPTH \<and> list_all (\<lambda>h. length h = 32) (coinbase_branch ap) \<and>
     length (blockchain_branch ap) \<le> MAX_BRANCH_DEPTH \<and> list_all (\<lambda>h. length h = 32) (blockchain_branch ap) \<and>
     length (parent_header ap) = 80"

section \<open>Reading back what was written\<close>

lemma aux_read_varint_write:
  assumes "n < 2 ^ 64" "drop off data = write_varint n @ rest"
  shows "aux_read_varint data off = Inr (n, off + length (write_varint n))"
proof -
  have "aux_read_varint data off =
      (case read_varint_at data off of
         (Some v, off') \<Rightarrow> Inr (unat v, off')
       | (None, off') \<Rightarrow> aux_read_varint data off)"
    by (auto simp: aux_read_varint_def read_varint_at_def Let_def unat_ucast_u64)
  also have "\<dots> = Inr (n, off + length (write_varint n))"
    using read_varint_write_varint [OF assms] assms(1) by (simp add: unat_word_of_nat_small)
  finally show ?thesis .
qed

lemma aux_read_varint_bounds:
  "aux_read_varint data off = Inr (n, off') \<Longrightarrow> off < off' \<and> off' \<le> length data"
  by (auto simp: aux_read_varint_def Let_def split: if_splits)

lemma aux_read_fixed_at:
  "drop off data = xs @ rest \<Longrightarrow> off \<le> length data \<Longrightarrow> length xs = n \<Longrightarrow>
    aux_read_fixed n what data off = Inr (xs, off + n)"
  using drop_eq_append_slice(1) [of off data xs rest] drop_eq_append_length [of off data xs rest]
  by (cases "xs = []") (auto simp: aux_read_fixed_def slice_def)

lemma aux_read_fixed_Inr:
  "aux_read_fixed n what data off = Inr (xs, off') \<longleftrightarrow>
    off + n \<le> length data \<and> xs = slice data off (off + n) \<and> off' = off + n"
  by (auto simp: aux_read_fixed_def)

interpretation hash_codec: wire_codec "\<lambda>h. h" "aux_read_fixed 32 what" "\<lambda>h. length h = 32" for what
  by unfold_locales (auto simp: aux_read_fixed_at aux_read_fixed_Inr)

definition serialize_branch :: "bytes list \<times> u32 \<Rightarrow> bytes" where
  "serialize_branch b = write_varint (length (fst b)) @ concat (fst b) @ u32_le (snd b)"

definition wire_branch :: "bytes list \<times> u32 \<Rightarrow> bool" where
  "wire_branch b \<longleftrightarrow> length (fst b) \<le> MAX_BRANCH_DEPTH \<and> list_all (\<lambda>h. length h = 32) (fst b)"

lemma aux_read_branch_at:
  assumes "wire_branch b" "buffer_ok buf" "off \<le> length buf" "drop off buf = serialize_branch b @ rest"
  shows "aux_read_branch d h i buf off = Inr (b, off + length (serialize_branch b))"
proof -
  have w: "length (fst b) \<le> 20" "list_all (\<lambda>h. length h = 32) (fst b)" "length (fst b) < 2 ^ 64"
    using assms(1) by (auto simp: wire_branch_def)
  have s0: "drop off buf = write_varint (length (fst b)) @ concat (map (\<lambda>h. h) (fst b)) @ u32_le (snd b) @ rest"
    using assms(4) by (simp add: serialize_branch_def)
  note v = aux_read_varint_write [OF w(3) s0]
  note s1 = drop_eq_append_slice(2) [OF s0]
  note b1 = conjunct2 [OF aux_read_varint_bounds [OF v]]
  note hs = hash_codec.read_many_enc [OF w(2) assms(2) b1 s1]
  note s2 = drop_eq_append_slice(2) [OF s1]
  have b2: "off + length (write_varint (length (fst b))) + length (concat (map (\<lambda>h. h) (fst b))) \<le> length buf"
    using hash_codec.read_many_bound [OF assms(2) b1 hs] by simp
  note i = aux_read_fixed_at [OF s2 b2 length_u_le(2)]
  show ?thesis
    using v hs i w(1) by (simp add: aux_read_branch_def serialize_branch_def prod_eq_iff)
qed

lemma aux_read_branch_Inr:
  assumes "buffer_ok buf" "aux_read_branch d h i buf off = Inr (b, off')"
  shows "wire_branch b" "off \<le> off'" "off' \<le> length buf"
proof -
  obtain n o1 br o2 where r: "aux_read_varint buf off = Inr (n, o1)" "n \<le> 20"
    "read_many n (aux_read_fixed 32 h) buf o1 = Inr (br, o2)" "fst b = br" "off' = o2 + 4" "o2 + 4 \<le> length buf"
    using assms(2) by (auto simp: aux_read_branch_def bindE_eq_Inr aux_read_fixed_Inr split: if_splits)
  note v = aux_read_varint_bounds [OF r(1)]
  show "wire_branch b"
    using hash_codec.read_many_wf [OF assms(1) r(3)] r(2,4) by (simp add: wire_branch_def)
  show "off \<le> off'" "off' \<le> length buf"
    using v r(5,6) hash_codec.read_many_bound [OF assms(1) _ r(3)] by auto
qed

interpretation branch_codec: wire_codec serialize_branch "aux_read_branch d h i" wire_branch for d h i
proof (unfold_locales, goal_cases)
  case 1
  then show ?case by (rule aux_read_branch_at)
next
  case 2
  then show ?case by (rule aux_read_branch_Inr(1))
next
  case 3
  then show ?case using aux_read_branch_Inr(2,3) [OF 3] by blast
qed

lemma serialize_auxpow_append:
  "serialize_auxpow ap @ rest = write_varint (length (coinbase_txn ap)) @ coinbase_txn ap @ parent_hash ap @
     serialize_branch (coinbase_branch ap, coinbase_branch_index ap) @
     serialize_branch (blockchain_branch ap, blockchain_branch_index ap) @ parent_header ap @ rest"
  by (simp add: serialize_auxpow_def serialize_branch_def)

lemma deserialize_auxpow_serialize:
  assumes "wire_auxpow ap" "buffer_ok buf" "off \<le> length buf" "drop off buf = serialize_auxpow ap @ rest"
  shows "deserialize_auxpow buf off = Inr (ap, off + length (serialize_auxpow ap))"
proof -
  have w: "length (coinbase_txn ap) \<le> 1000000" "length (coinbase_txn ap) < 2 ^ 64"
    "length (parent_hash ap) = 32" "length (parent_header ap) = 80"
    "wire_branch (coinbase_branch ap, coinbase_branch_index ap)"
    "wire_branch (blockchain_branch ap, blockchain_branch_index ap)"
    using assms(1) by (auto simp: wire_auxpow_def wire_branch_def)
  note s0 = assms(4) [unfolded serialize_auxpow_append]
  note v = aux_read_varint_write [OF w(2) s0]
  note s1 = drop_eq_append_slice(2) [OF s0] and b1 = conjunct2 [OF aux_read_varint_bounds [OF v]]
  note r1 = aux_read_fixed_at [OF s1 b1 refl, where what = "''unexpected EOF reading coinbase txn''"]
  note s2 = drop_eq_append_slice(2) [OF s1] and b2 = r1 [unfolded aux_read_fixed_Inr, THEN conjunct1]
  note r2 = aux_read_fixed_at [OF s2 b2 refl, where what = "''unexpected EOF reading parent_hash''"]
  note s3 = drop_eq_append_slice(2) [OF s2] and b3 = r2 [unfolded aux_read_fixed_Inr, THEN conjunct1]
  note r3 = branch_codec.dec_enc [OF w(5) assms(2) b3 s3]
  note s4 = drop_eq_append_slice(2) [OF s3]
    and b4 = conjunct2 [OF branch_codec.dec_bounds [OF assms(2) r3]]
  note r4 = branch_codec.dec_enc [OF w(6) assms(2) b4 s4]
  note s5 = drop_eq_append_slice(2) [OF s4]
    and b5 = conjunct2 [OF branch_codec.dec_bounds [OF assms(2) r4]]
  note r5 = aux_read_fixed_at [OF s5 b5 refl, where what = "''unexpected EOF reading parent_header''"]
  show ?thesis
    using w(1) v r1 r2 r3 r4 r5 w(3,4)
    by (simp add: deserialize_auxpow_def serialize_auxpow_append [where rest = "[]", simplified] add.assoc)
qed

lemma deserialize_auxpow_Inr:
  assumes "buffer_ok buf" "deserialize_auxpow buf off = Inr (ap, off')"
  shows "wire_auxpow ap" "off \<le> off'" "off' \<le> length buf"
proof -
  obtain n o1 o3 o4 o5 cb ci bc bi where
    r: "aux_read_varint buf off = Inr (n, o1)" "n \<le> 1000000" "o1 + n + 32 \<le> length buf"
      "aux_read_branch ''coinbase branch depth exceeds maximum'' ''unexpected EOF reading coinbase branch hash''
        ''unexpected EOF reading coinbase_branch_index'' buf (o1 + n + 32) = Inr ((cb, ci), o4)"
      "aux_read_branch ''blockchain branch depth exceeds maximum'' ''unexpected EOF reading blockchain branch hash''
        ''unexpected EOF reading blockchain_branch_index'' buf o4 = Inr ((bc, bi), o5)"
      "o5 + 80 \<le> length buf" "off' = o5 + 80"
    and a: "ap = \<lparr>coinbase_txn = slice buf o1 (o1 + n), parent_hash = slice buf (o1 + n) (o1 + n + 32),
      coinbase_branch = cb, coinbase_branch_index = ci, blockchain_branch = bc,
      blockchain_branch_index = bi, parent_header = slice buf o5 (o5 + 80)\<rparr>"
    using assms(2)
    by (auto simp: deserialize_auxpow_def bindE_eq_Inr aux_read_fixed_Inr split: if_splits)
  note wb = branch_codec.dec_wf [OF assms(1) r(4)] branch_codec.dec_wf [OF assms(1) r(5)]
  show "wire_auxpow ap" using r(2,3,6) wb by (simp add: a wire_auxpow_def wire_branch_def)
  show "off \<le> off'" "off' \<le> length buf"
    using aux_read_varint_bounds [OF r(1)] branch_codec.dec_bounds [OF assms(1) r(4)]
      branch_codec.dec_bounds [OF assms(1) r(5)] r(6,7) by auto
qed

interpretation auxpow_codec: wire_codec serialize_auxpow deserialize_auxpow wire_auxpow
  using deserialize_auxpow_serialize deserialize_auxpow_Inr by unfold_locales blast+

section \<open>Commitments\<close>

lemma find_commitment_from_skip:
  assumes "\<And>j. j < k \<Longrightarrow> slice cb (i + j) (i + j + 4) \<noteq> AUXPOW_COMMIT_MAGIC" "k \<le> n"
  shows "find_commitment_from n cb i = find_commitment_from (n - k) cb (i + k)"
  using assms
proof (induction k arbitrary: n i)
  case (Suc k)
  then obtain m where n: "n = Suc m" by (cases n) auto
  have "find_commitment_from n cb i = find_commitment_from m cb (Suc i)"
    using Suc.prems(1) [of 0] n by simp
  also have "\<dots> = find_commitment_from (m - k) cb (Suc i + k)"
  proof (rule Suc.IH)
    show "slice cb (Suc i + j) (Suc i + j + 4) \<noteq> AUXPOW_COMMIT_MAGIC" if "j < k" for j
      using Suc.prems(1) [of "Suc j"] that by simp
    show "k \<le> m" using Suc.prems(2) n by simp
  qed
  finally show ?case using n by simp
qed simp

lemma find_commitment_build:
  assumes "length h = 32"
    and "\<And>j. j < length pre \<Longrightarrow>
      slice (pre @ build_commitment h c nonce @ post) j (j + 4) \<noteq> AUXPOW_COMMIT_MAGIC"
  shows "find_commitment (pre @ build_commitment h c nonce @ post) = Inr (rev h, c)"
proof -
  define cb where "cb = pre @ build_commitment h c nonce @ post"
  have l: "length cb = length pre + 44 + length post" using assms(1) by (simp add: cb_def build_commitment_def)
  have "find_commitment_from (length cb - 39) cb 0 =
      find_commitment_from (length cb - 39 - length pre) cb (0 + length pre)"
    using assms(2) l by (intro find_commitment_from_skip) (auto simp: cb_def)
  also have "length cb - 39 - length pre = Suc (4 + length post)" using l by simp
  also have "find_commitment_from (Suc (4 + length post)) cb (0 + length pre) = Inr (rev h, c)"
    unfolding find_commitment_from.simps using assms(1) l
    by (simp add: cb_def build_commitment_def slice_def)
  finally show ?thesis using l unfolding cb_def [symmetric] find_commitment_def by simp
qed

section \<open>Merkle branches bind their leaf\<close>

text \<open>The preimages hashed along a Merkle branch, leaf level first.\<close>

fun merkle_inputs :: "(bytes \<Rightarrow> bytes) \<Rightarrow> bytes \<Rightarrow> bytes list \<Rightarrow> u32 \<Rightarrow> bytes list" where
  "merkle_inputs sha current [] idx = []"
| "merkle_inputs sha current (sibling # branch) idx =
     (let x = (if idx AND 1 = 0 then current @ sibling else sibling @ current)
      in x # merkle_inputs sha (sha256d sha x) branch (drop_bit 1 idx))"

lemma compute_merkle_root_binds:
  assumes "compute_merkle_root sha a branch idx = compute_merkle_root sha b branch idx" "a \<noteq> b"
  shows "\<exists>k<length branch. merkle_inputs sha a branch idx ! k \<noteq> merkle_inputs sha b branch idx ! k \<and>
    sha256d sha (merkle_inputs sha a branch idx ! k) = sha256d sha (merkle_inputs sha b branch idx ! k)"
  using assms
proof (induction branch arbitrary: a b idx)
  case Nil
  then show ?case by simp
next
  case (Cons s branch)
  define x where "x = (if idx AND 1 = 0 then a @ s else s @ a)"
  define y where "y = (if idx AND 1 = 0 then b @ s else s @ b)"
  have xy: "x \<noteq> y" using Cons.prems(2) by (auto simp: x_def y_def)
  have m: "merkle_inputs sha a (s # branch) idx = x # merkle_inputs sha (sha256d sha x) branch (drop_bit 1 idx)"
    "merkle_inputs sha b (s # branch) idx = y # merkle_inputs sha (sha256d sha y) branch (drop_bit 1 idx)"
    by (simp_all add: x_def y_def Let_def)
  show ?case
  proof (cases "sha256d sha x = sha256d sha y")
    case True
    then show ?thesis using xy unfolding m by (intro exI [of _ 0]) simp
  next
    case False
    have "compute_merkle_root sha (sha256d sha x) branch (drop_bit 1 idx) =
        compute_merkle_root sha (sha256d sha y) branch (drop_bit 1 idx)"
      using Cons.prems(1) by (simp add: x_def y_def)
    from Cons.IH [OF this False] obtain k where "k < length branch"
      "merkle_inputs sha (sha256d sha x) branch (drop_bit 1 idx) ! k \<noteq>
        merkle_inputs sha (sha256d sha y) branch (drop_bit 1 idx) ! k"
      "sha256d sha (merkle_inputs sha (sha256d sha x) branch (drop_bit 1 idx) ! k) =
        sha256d sha (merkle_inputs sha (sha256d sha y) branch (drop_bit 1 idx) ! k)"
      by blast
    then show ?thesis unfolding m by (intro exI [of _ "Suc k"]) simp
  qed
qed

lemma validate_committed:
  assumes "validate sha ap hdr t = Inr ()"
  obtains root n where "find_commitment (coinbase_txn ap) = Inr (root, n)" "length hdr = 80"
    "root = rev (sha256d sha hdr) \<and> n = 1 \<or>
     root = rev (compute_merkle_root sha (sha256d sha hdr) (blockchain_branch ap) (blockchain_branch_index ap)) \<and>
       n > 1 \<and> blockchain_branch_index ap < n"
    "compute_merkle_root sha (sha256d sha (coinbase_txn ap)) (coinbase_branch ap) (coinbase_branch_index ap) =
      slice (parent_header ap) 36 68"
    "meets_target (rev (sha256d sha (parent_header ap))) t"
proof -
  obtain root n where f: "find_commitment (coinbase_txn ap) = Inr (root, n)"
    using assms by (cases "find_commitment (coinbase_txn ap)")
      (auto simp: validate_def validate_with_parent_hash_def split: if_splits)
  have n: "n > 1 \<longleftrightarrow> n \<noteq> 0 \<and> n \<noteq> 1"
    by (metis word_less_1 less_irrefl not_less_iff_gr_or_eq)
  show thesis
    using assms f that
    by (auto simp: validate_def validate_with_parent_hash_def bindE_eq_Inr Let_def n not_le split: if_splits)
qed

section \<open>Properties\<close>

text \<open>
  The AuxPoW extension round trips: anywhere in a buffer, the serialisation of a well-formed
  proof (fixed-size fields, branches of at most 20 hashes, a coinbase of at most 1,000,000 bytes) is
  read back unchanged and the reader stops right after it; and whatever it reads is well-formed.
\<close>

lemma auxpow_roundtrip:
  assumes "buffer_ok buf" "off \<le> length buf"
  shows "(wire_auxpow ap \<and> drop off buf = serialize_auxpow ap @ rest \<longrightarrow>
      deserialize_auxpow buf off = Inr (ap, off + length (serialize_auxpow ap))) \<and>
    (deserialize_auxpow buf off = Inr (ap', off') \<longrightarrow> wire_auxpow ap' \<and> off \<le> off' \<and> off' \<le> length buf)"
  using auxpow_codec.dec_enc [OF _ assms] auxpow_codec.dec_wf [OF assms(1)]
    auxpow_codec.dec_bounds [OF assms(1)] by blast

definition sample_auxpow :: AuxPoW where
  "sample_auxpow = \<lparr>coinbase_txn = [1, 2], parent_hash = replicate 32 3, coinbase_branch = [replicate 32 4],
     coinbase_branch_index = 0, blockchain_branch = [], blockchain_branch_index = 0,
     parent_header = replicate 80 5\<rparr>"

text \<open>
  C29. An AuxPoW proof is bound to one block header: if the very same proof validates for two
  different 80-byte headers, then SHA-256d collides on an identified pair of different inputs, either
  the two headers themselves or the two preimages at some level of the proof's chain branch.
\<close>

theorem auxpow_binds_header:
  assumes "validate sha ap h1 t1 = Inr ()" "validate sha ap h2 t2 = Inr ()" "h1 \<noteq> h2"
  defines "in1 \<equiv> merkle_inputs sha (sha256d sha h1) (blockchain_branch ap) (blockchain_branch_index ap)"
  defines "in2 \<equiv> merkle_inputs sha (sha256d sha h2) (blockchain_branch ap) (blockchain_branch_index ap)"
  shows "sha256d sha h1 = sha256d sha h2 \<or>
    (\<exists>k<length (blockchain_branch ap). in1 ! k \<noteq> in2 ! k \<and> sha256d sha (in1 ! k) = sha256d sha (in2 ! k))"
proof -
  from validate_committed [OF assms(1)] obtain r1 n1 where
    a: "find_commitment (coinbase_txn ap) = Inr (r1, n1)"
      "r1 = rev (sha256d sha h1) \<and> n1 = 1 \<or> r1 = rev (compute_merkle_root sha (sha256d sha h1)
         (blockchain_branch ap) (blockchain_branch_index ap)) \<and> n1 > 1"
    by blast
  from validate_committed [OF assms(2)] obtain r2 n2 where
    b: "find_commitment (coinbase_txn ap) = Inr (r2, n2)"
      "r2 = rev (sha256d sha h2) \<and> n2 = 1 \<or> r2 = rev (compute_merkle_root sha (sha256d sha h2)
         (blockchain_branch ap) (blockchain_branch_index ap)) \<and> n2 > 1"
    by blast
  have e: "r2 = r1" "n2 = n1" using a(1) b(1) by auto
  show ?thesis
    unfolding in1_def in2_def
    using compute_merkle_root_binds [of sha "sha256d sha h1" "blockchain_branch ap"
        "blockchain_branch_index ap" "sha256d sha h2"] a(2) b(2) unfolding e by auto
qed

text \<open>A toy hash and a proof under it, for the witnesses of this theory.\<close>

definition toy_sha :: "bytes \<Rightarrow> bytes" where
  "toy_sha x = replicate 32 0"

definition toy_auxpow :: AuxPoW where
  "toy_auxpow = sample_auxpow\<lparr>coinbase_txn := build_commitment (replicate 32 0) 1 9,
     parent_header := replicate 80 0\<rparr>"

lemma toy_hash: "sha256d toy_sha x = replicate 32 0"
  by (simp add: sha256d_def toy_sha_def)

lemma toy_meets: "meets_target (replicate 32 0) t"
  by (simp add: meets_target_def from_bytes_be_def numeral_eq_Suc)

theorem auxpow_binds_header_witness:
  "sha256d toy_sha (replicate 80 1) = sha256d toy_sha (replicate 80 2) \<or>
    (\<exists>k<length (blockchain_branch toy_auxpow).
      merkle_inputs toy_sha (sha256d toy_sha (replicate 80 1)) (blockchain_branch toy_auxpow)
        (blockchain_branch_index toy_auxpow) ! k \<noteq>
      merkle_inputs toy_sha (sha256d toy_sha (replicate 80 2)) (blockchain_branch toy_auxpow)
        (blockchain_branch_index toy_auxpow) ! k)"
proof -
  have v: "validate toy_sha toy_auxpow h (Target 0) = Inr ()" if "length h = 80" for h
  proof -
    have "find_commitment (coinbase_txn toy_auxpow) = Inr (replicate 32 0, 1)"
      using find_commitment_build [of "replicate 32 0" "[]" 1 9 "[]"]
      by (simp add: toy_auxpow_def)
    then show ?thesis
      using that by (simp add: validate_def validate_with_parent_hash_def toy_hash toy_meets toy_auxpow_def
          sample_auxpow_def slice_def)
  qed
  have "(replicate 80 1 :: bytes) \<noteq> replicate 80 2" by (simp add: numeral_eq_Suc)
  from auxpow_binds_header [OF v v this] show ?thesis by auto
qed

text \<open>
  C30. Honest merged mining is accepted and nothing else: let a parent coinbase carry a commitment that
  \<open>build_commitment\<close> made from some 32 bytes \<open>root\<close> and a chain count \<open>n\<close>, with no earlier occurrence of
  the magic bytes, in a parent block whose Merkle root is the branch of that coinbase and whose hash
  meets the target. The proof is valid for a block exactly when \<open>n\<close> is 1 and \<open>root\<close> is the hash of the
  block's header, or \<open>n\<close> is larger, the block's chain index is below \<open>n\<close>, and \<open>root\<close> is what the
  blockchain branch computes from that hash. The commitment thus holds the hash in reversed byte order;
  a commitment to the hash as it stands is refused unless the hash is its own reversal.
\<close>

theorem auxpow_accepts_honest:
  assumes "\<And>x. length (sha x) = 32" "length hdr = 80" "length root = 32"
    and "coinbase_txn ap = pre @ build_commitment root n nonce @ post"
    and "\<And>j. j < length pre \<Longrightarrow> slice (coinbase_txn ap) j (j + 4) \<noteq> AUXPOW_COMMIT_MAGIC"
    and "length (coinbase_branch ap) \<le> MAX_BRANCH_DEPTH" "length (blockchain_branch ap) \<le> MAX_BRANCH_DEPTH"
    and "slice (parent_header ap) 36 68 =
      compute_merkle_root sha (sha256d sha (coinbase_txn ap)) (coinbase_branch ap) (coinbase_branch_index ap)"
    and "meets_target (rev (sha256d sha (parent_header ap))) t"
  shows "validate sha ap hdr t = Inr () \<longleftrightarrow>
    n = 1 \<and> root = sha256d sha hdr \<or>
    1 < n \<and> blockchain_branch_index ap < n \<and>
      root = compute_merkle_root sha (sha256d sha hdr) (blockchain_branch ap) (blockchain_branch_index ap)"
proof -
  have "find_commitment (coinbase_txn ap) = Inr (rev root, n)"
    unfolding assms(4) using assms(3) assms(5) [unfolded assms(4)] by (intro find_commitment_build) auto
  moreover have "1 < n \<longleftrightarrow> n \<noteq> 0 \<and> n \<noteq> 1" by (auto simp: word_less_nat_alt word_unat_eq_iff)
  ultimately show ?thesis
    using assms(2,6-9) by (auto simp: validate_def validate_with_parent_hash_def bindE_eq_Inr ensure_def split: if_split_asm)
qed

definition shared_auxpow :: "AuxPoW" where
  "shared_auxpow = toy_auxpow\<lparr>coinbase_txn := build_commitment (replicate 32 0) 2 9,
     blockchain_branch := [replicate 32 3], blockchain_branch_index := 1\<rparr>"

theorem auxpow_accepts_honest_witness:
  "validate toy_sha toy_auxpow (replicate 80 7) (Target 0) = Inr () \<and>
   validate toy_sha shared_auxpow (replicate 80 7) (Target 0) = Inr ()"
proof
  have len: "length (toy_sha x) = 32" for x by (simp add: toy_sha_def)
  have root: "slice (parent_header ap) 36 68 = compute_merkle_root toy_sha
      (sha256d toy_sha (coinbase_txn ap)) (coinbase_branch ap) (coinbase_branch_index ap)"
    "meets_target (rev (sha256d toy_sha (parent_header ap))) (Target 0)"
    "length (coinbase_branch ap) \<le> MAX_BRANCH_DEPTH" "length (blockchain_branch ap) \<le> MAX_BRANCH_DEPTH"
    if "ap \<in> {toy_auxpow, shared_auxpow}" for ap
    using that by (auto simp: toy_auxpow_def shared_auxpow_def sample_auxpow_def toy_hash toy_meets slice_def)
  have "validate toy_sha toy_auxpow (replicate 80 7) (Target 0) = Inr () \<longleftrightarrow>
      (1 :: u32) = 1 \<and> replicate 32 0 = sha256d toy_sha (replicate 80 7) \<or>
      (1 :: u32) < 1 \<and> blockchain_branch_index toy_auxpow < 1 \<and> replicate 32 0 = compute_merkle_root toy_sha
        (sha256d toy_sha (replicate 80 7)) (blockchain_branch toy_auxpow) (blockchain_branch_index toy_auxpow)"
    by (rule auxpow_accepts_honest [where pre = "[]" and nonce = 9 and post = "[]"])
      (simp_all add: len root, simp_all add: toy_auxpow_def)
  then show "validate toy_sha toy_auxpow (replicate 80 7) (Target 0) = Inr ()" by (simp add: toy_hash)
  have "validate toy_sha shared_auxpow (replicate 80 7) (Target 0) = Inr () \<longleftrightarrow>
      (2 :: u32) = 1 \<and> replicate 32 0 = sha256d toy_sha (replicate 80 7) \<or>
      (1 :: u32) < 2 \<and> blockchain_branch_index shared_auxpow < 2 \<and> replicate 32 0 = compute_merkle_root toy_sha
        (sha256d toy_sha (replicate 80 7)) (blockchain_branch shared_auxpow) (blockchain_branch_index shared_auxpow)"
    by (rule auxpow_accepts_honest [where pre = "[]" and nonce = 9 and post = "[]"])
      (simp_all add: len root, simp_all add: shared_auxpow_def)
  then show "validate toy_sha shared_auxpow (replicate 80 7) (Target 0) = Inr ()"
    by (simp add: toy_hash shared_auxpow_def)
qed

end
