(* ===== verification/Activation.thy ===== *)
theory Activation
  imports Prelude
begin

text \<open>
  Consensus constants and fork activation: \<open>src/src/constants.rs\<close>,
  \<open>src/src/activation.rs\<close> and \<open>src/src/network_era.rs\<close>. The process environment
  is an argument \<open>env\<close> of every definition that reads it. Shown: on mainnet no environment
  variable changes a consensus parameter; the halving schedule is continuous across the block-time
  fork and never increases; and the subsidies of the mainnet schedule add up to exactly the supply cap at
  height 4,336,250 and exceed it afterwards.
\<close>

unbundle bit_operations_syntax

section \<open>Strings of the environment\<close>

type_synonym environ = "string \<Rightarrow> string option"

text \<open>
  The library functions the resolvers apply to a variable's value, for ASCII strings: \<open>trim\<close>,
  \<open>to_ascii_lowercase\<close> and \<open>parse::<u64>\<close> (an optional plus sign, at least one digit, no
  overflow).
\<close>

definition is_ws :: "char \<Rightarrow> bool" where
  "is_ws c \<longleftrightarrow> (let n = (of_char c :: nat) in 9 \<le> n \<and> n \<le> 13 \<or> n = 32)"

definition trim :: "string \<Rightarrow> string" where
  "trim s = rev (dropWhile is_ws (rev (dropWhile is_ws s)))"

definition ascii_lower :: "char \<Rightarrow> char" where
  "ascii_lower c = (let n = (of_char c :: nat) in if 65 \<le> n \<and> n \<le> 90 then char_of (n + 32) else c)"

definition to_ascii_lowercase :: "string \<Rightarrow> string" where
  "to_ascii_lowercase = map ascii_lower"

fun parse_digits :: "nat \<Rightarrow> string \<Rightarrow> nat option" where
  "parse_digits acc [] = Some acc"
| "parse_digits acc (c # cs) =
     (let n = (of_char c :: nat) in
      if 48 \<le> n \<and> n \<le> 57 then
        (if acc * 10 + (n - 48) \<ge> 2 ^ 64 then None else parse_digits (acc * 10 + (n - 48)) cs)
      else None)"

definition parse_u64 :: "string \<Rightarrow> u64 option" where
  "parse_u64 s =
     (let ds = (case s of c # cs \<Rightarrow> if c = CHR ''+'' then cs else s | [] \<Rightarrow> s) in
      if ds = [] then None else map_option word_of_nat (parse_digits 0 ds))"

definition env_height :: "environ \<Rightarrow> string \<Rightarrow> u64 option" where
  "env_height env name = Option.bind (env name) (\<lambda>v. parse_u64 (trim v))"

section \<open>Networks and activation heights\<close>

abbreviation (input) MAINNET_HTLCV1_ACTIVATION_HEIGHT :: "u64 option" where
  "MAINNET_HTLCV1_ACTIVATION_HEIGHT \<equiv> Some 18677"
abbreviation (input) MAINNET_LWMA_ACTIVATION_HEIGHT :: "u64 option" where
  "MAINNET_LWMA_ACTIVATION_HEIGHT \<equiv> Some 16462"
abbreviation (input) MAINNET_LWMA_V2_ACTIVATION_HEIGHT :: "u64 option" where
  "MAINNET_LWMA_V2_ACTIVATION_HEIGHT \<equiv> Some 19740"
abbreviation (input) MAINNET_BLOCK_TIME_V2_ACTIVATION_HEIGHT :: "u64 option" where
  "MAINNET_BLOCK_TIME_V2_ACTIVATION_HEIGHT \<equiv> Some 24250"
abbreviation (input) MAINNET_AUXPOW_ACTIVATION_HEIGHT :: "u64 option" where
  "MAINNET_AUXPOW_ACTIVATION_HEIGHT \<equiv> Some 24800"
abbreviation (input) MAINNET_BTC_SPV_RELAY_ACTIVATION_HEIGHT :: "u64 option" where
  "MAINNET_BTC_SPV_RELAY_ACTIVATION_HEIGHT \<equiv> Some 23850"
abbreviation (input) MAINNET_LTC_SPV_RELAY_ACTIVATION_HEIGHT :: "u64 option" where
  "MAINNET_LTC_SPV_RELAY_ACTIVATION_HEIGHT \<equiv> Some 24800"
abbreviation (input) MAINNET_HTLC_LTC_SWAP_V1_ACTIVATION_HEIGHT :: "u64 option" where
  "MAINNET_HTLC_LTC_SWAP_V1_ACTIVATION_HEIGHT \<equiv> Some 24800"
abbreviation (input) MAINNET_LTC_SWAP_ORDER_V1_ACTIVATION_HEIGHT :: "u64 option" where
  "MAINNET_LTC_SWAP_ORDER_V1_ACTIVATION_HEIGHT \<equiv> Some 24800"
abbreviation (input) MAINNET_COINBASE_HEADER_BATCH_ACTIVATION_HEIGHT :: "u64 option" where
  "MAINNET_COINBASE_HEADER_BATCH_ACTIVATION_HEIGHT \<equiv> Some 24800"
abbreviation (input) MAINNET_HTLC_BTC_SWAP_V1_ACTIVATION_HEIGHT :: "u64 option" where
  "MAINNET_HTLC_BTC_SWAP_V1_ACTIVATION_HEIGHT \<equiv> Some 23850"
abbreviation (input) MAINNET_SWAP_ORDER_V1_ACTIVATION_HEIGHT :: "u64 option" where
  "MAINNET_SWAP_ORDER_V1_ACTIVATION_HEIGHT \<equiv> Some 23850"
abbreviation (input) MAINNET_BTC_SWAP_BECH32_PAYMENT_ACTIVATION_HEIGHT :: "u64 option" where
  "MAINNET_BTC_SWAP_BECH32_PAYMENT_ACTIVATION_HEIGHT \<equiv> None"
abbreviation (input) MAINNET_MPSOV1_ACTIVATION_HEIGHT :: "u64 option" where
  "MAINNET_MPSOV1_ACTIVATION_HEIGHT \<equiv> Some 20000"
abbreviation (input) MAINNET_POAWX_ACTIVATION_HEIGHT :: "u64 option" where
  "MAINNET_POAWX_ACTIVATION_HEIGHT \<equiv> Some 50000"
abbreviation (input) STANDARD_HEADER_ACTIVATION_HEIGHT :: u64 where
  "STANDARD_HEADER_ACTIVATION_HEIGHT \<equiv> 22888"

datatype NetworkKind = Mainnet | Testnet | Devnet

definition from_env_value :: "string \<Rightarrow> NetworkKind" where
  "from_env_value v =
     (let s = to_ascii_lowercase (trim v) in
      if s = ''testnet'' then Testnet
      else if s = ''devnet'' \<or> s = ''regtest'' \<or> s = ''trial'' then Devnet
      else Mainnet)"

fun id_byte :: "NetworkKind \<Rightarrow> u8" where
  "id_byte Mainnet = 0"
| "id_byte Testnet = 1"
| "id_byte Devnet = 2"

definition network_kind_from_env :: "environ \<Rightarrow> NetworkKind" where
  "network_kind_from_env env =
     (case env ''IRIUM_NETWORK'' of Some v \<Rightarrow> from_env_value v | None \<Rightarrow> Mainnet)"

definition network_id_byte :: "environ \<Rightarrow> u8" where
  "network_id_byte env = id_byte (network_kind_from_env env)"

definition reached :: "u64 option \<Rightarrow> u64 \<Rightarrow> bool" where
  "reached activation height = (case activation of Some h \<Rightarrow> height \<ge> h | None \<Rightarrow> False)"

definition poawx_mainnet_active :: "environ \<Rightarrow> u64 \<Rightarrow> bool" where
  "poawx_mainnet_active env height \<longleftrightarrow>
     network_id_byte env = 0 \<and> reached MAINNET_POAWX_ACTIVATION_HEIGHT height"

definition poawx_effective_activation :: "u8 \<Rightarrow> u64 option \<Rightarrow> u64 option" where
  "poawx_effective_activation network_id env_activation =
     (if network_id = 0 then MAINNET_POAWX_ACTIVATION_HEIGHT else env_activation)"

definition poawx_mode_active :: "environ \<Rightarrow> bool" where
  "poawx_mode_active env =
     (case env ''IRIUM_POAWX_MODE'' of Some v \<Rightarrow> trim v = ''active'' | None \<Rightarrow> False)"

definition poawx_consensus_active :: "environ \<Rightarrow> u64 \<Rightarrow> bool" where
  "poawx_consensus_active env height =
     (if network_id_byte env = 0 then reached MAINNET_POAWX_ACTIVATION_HEIGHT height
      else if \<not> poawx_mode_active env then False
      else reached (env_height env ''IRIUM_POAWX_ACTIVATION_HEIGHT'') height)"

definition poawx_serving_active :: "environ \<Rightarrow> u64 \<Rightarrow> bool" where
  "poawx_serving_active env height =
     (if network_id_byte env = 0 then reached MAINNET_POAWX_ACTIVATION_HEIGHT height
      else poawx_mode_active env)"

definition poawx_delegation_activation_height :: "environ \<Rightarrow> u64 option" where
  "poawx_delegation_activation_height env = env_height env ''IRIUM_POAWX_DELEGATION_ACTIVATION_HEIGHT''"

definition poawx_multi_role_reward_activation_height :: "environ \<Rightarrow> u64 option" where
  "poawx_multi_role_reward_activation_height env =
     env_height env ''IRIUM_POAWX_MULTI_ROLE_REWARD_ACTIVATION_HEIGHT''"

definition poawx_fairness_matrix_activation_height :: "environ \<Rightarrow> u64 option" where
  "poawx_fairness_matrix_activation_height env =
     env_height env ''IRIUM_POAWX_FAIRNESS_MATRIX_ACTIVATION_HEIGHT''"

definition poawx_third_party_fee_activation_height :: "environ \<Rightarrow> u64 option" where
  "poawx_third_party_fee_activation_height env =
     env_height env ''IRIUM_POAWX_THIRD_PARTY_FEE_ACTIVATION_HEIGHT''"

definition poawx_hidden_precommit_activation_height :: "environ \<Rightarrow> u64 option" where
  "poawx_hidden_precommit_activation_height env =
     env_height env ''IRIUM_POAWX_HIDDEN_PRECOMMIT_ACTIVATION_HEIGHT''"

definition runtime_htlcv1_env_override :: "environ \<Rightarrow> u64 option" where
  "runtime_htlcv1_env_override env = env_height env ''IRIUM_HTLCV1_ACTIVATION_HEIGHT''"

definition resolved_htlcv1_activation_height :: "environ \<Rightarrow> NetworkKind \<Rightarrow> u64 option" where
  "resolved_htlcv1_activation_height env network =
     (case network of
        Mainnet \<Rightarrow> MAINNET_HTLCV1_ACTIVATION_HEIGHT
      | Testnet \<Rightarrow> runtime_htlcv1_env_override env
      | Devnet \<Rightarrow> runtime_htlcv1_env_override env)"

definition runtime_lwma_env_override :: "environ \<Rightarrow> u64 option" where
  "runtime_lwma_env_override env = env_height env ''IRIUM_LWMA_ACTIVATION_HEIGHT''"

definition resolved_lwma_activation_height :: "environ \<Rightarrow> NetworkKind \<Rightarrow> u64 option" where
  "resolved_lwma_activation_height env network =
     (case network of
        Mainnet \<Rightarrow> MAINNET_LWMA_ACTIVATION_HEIGHT
      | Testnet \<Rightarrow> runtime_lwma_env_override env
      | Devnet \<Rightarrow> runtime_lwma_env_override env)"

definition runtime_lwma_v2_env_override :: "environ \<Rightarrow> u64 option" where
  "runtime_lwma_v2_env_override env = env_height env ''IRIUM_LWMA_V2_ACTIVATION_HEIGHT''"

definition resolved_lwma_v2_activation_height :: "environ \<Rightarrow> NetworkKind \<Rightarrow> u64 option" where
  "resolved_lwma_v2_activation_height env network =
     (case network of
        Mainnet \<Rightarrow> MAINNET_LWMA_V2_ACTIVATION_HEIGHT
      | Testnet \<Rightarrow> runtime_lwma_v2_env_override env
      | Devnet \<Rightarrow> runtime_lwma_v2_env_override env)"

definition runtime_auxpow_env_override :: "environ \<Rightarrow> u64 option" where
  "runtime_auxpow_env_override env = env_height env ''IRIUM_AUXPOW_ACTIVATION_HEIGHT''"

definition resolved_auxpow_activation_height :: "environ \<Rightarrow> NetworkKind \<Rightarrow> u64 option" where
  "resolved_auxpow_activation_height env network =
     (case network of
        Mainnet \<Rightarrow> MAINNET_AUXPOW_ACTIVATION_HEIGHT
      | Testnet \<Rightarrow> runtime_auxpow_env_override env
      | Devnet \<Rightarrow> runtime_auxpow_env_override env)"

definition runtime_block_time_v2_env_override :: "environ \<Rightarrow> u64 option" where
  "runtime_block_time_v2_env_override env = env_height env ''IRIUM_BLOCK_TIME_V2_ACTIVATION_HEIGHT''"

definition resolved_block_time_v2_activation_height :: "environ \<Rightarrow> NetworkKind \<Rightarrow> u64 option" where
  "resolved_block_time_v2_activation_height env network =
     (case network of
        Mainnet \<Rightarrow> MAINNET_BLOCK_TIME_V2_ACTIVATION_HEIGHT
      | Testnet \<Rightarrow> runtime_block_time_v2_env_override env
      | Devnet \<Rightarrow> runtime_block_time_v2_env_override env)"

definition runtime_btc_spv_relay_env_override :: "environ \<Rightarrow> u64 option" where
  "runtime_btc_spv_relay_env_override env = env_height env ''IRIUM_BTC_SPV_RELAY_ACTIVATION_HEIGHT''"

definition resolved_btc_spv_relay_activation_height :: "environ \<Rightarrow> NetworkKind \<Rightarrow> u64 option" where
  "resolved_btc_spv_relay_activation_height env network =
     (case network of
        Mainnet \<Rightarrow> MAINNET_BTC_SPV_RELAY_ACTIVATION_HEIGHT
      | Testnet \<Rightarrow> runtime_btc_spv_relay_env_override env
      | Devnet \<Rightarrow> runtime_btc_spv_relay_env_override env)"

definition runtime_ltc_spv_relay_env_override :: "environ \<Rightarrow> u64 option" where
  "runtime_ltc_spv_relay_env_override env = env_height env ''IRIUM_LTC_SPV_RELAY_ACTIVATION_HEIGHT''"

definition resolved_ltc_spv_relay_activation_height :: "environ \<Rightarrow> NetworkKind \<Rightarrow> u64 option" where
  "resolved_ltc_spv_relay_activation_height env network =
     (case network of
        Mainnet \<Rightarrow> MAINNET_LTC_SPV_RELAY_ACTIVATION_HEIGHT
      | Testnet \<Rightarrow> runtime_ltc_spv_relay_env_override env
      | Devnet \<Rightarrow> runtime_ltc_spv_relay_env_override env)"

definition runtime_htlc_ltc_swap_v1_env_override :: "environ \<Rightarrow> u64 option" where
  "runtime_htlc_ltc_swap_v1_env_override env = env_height env ''IRIUM_HTLC_LTC_SWAP_V1_ACTIVATION_HEIGHT''"

definition resolved_htlc_ltc_swap_v1_activation_height :: "environ \<Rightarrow> NetworkKind \<Rightarrow> u64 option" where
  "resolved_htlc_ltc_swap_v1_activation_height env network =
     (case network of
        Mainnet \<Rightarrow> MAINNET_HTLC_LTC_SWAP_V1_ACTIVATION_HEIGHT
      | Testnet \<Rightarrow> runtime_htlc_ltc_swap_v1_env_override env
      | Devnet \<Rightarrow> runtime_htlc_ltc_swap_v1_env_override env)"

definition runtime_ltc_swap_order_v1_env_override :: "environ \<Rightarrow> u64 option" where
  "runtime_ltc_swap_order_v1_env_override env = env_height env ''IRIUM_LTC_SWAP_ORDER_V1_ACTIVATION_HEIGHT''"

definition resolved_ltc_swap_order_v1_activation_height :: "environ \<Rightarrow> NetworkKind \<Rightarrow> u64 option" where
  "resolved_ltc_swap_order_v1_activation_height env network =
     (case network of
        Mainnet \<Rightarrow> MAINNET_LTC_SWAP_ORDER_V1_ACTIVATION_HEIGHT
      | Testnet \<Rightarrow> runtime_ltc_swap_order_v1_env_override env
      | Devnet \<Rightarrow> runtime_ltc_swap_order_v1_env_override env)"

definition runtime_htlc_btc_swap_v1_env_override :: "environ \<Rightarrow> u64 option" where
  "runtime_htlc_btc_swap_v1_env_override env = env_height env ''IRIUM_HTLC_BTC_SWAP_V1_ACTIVATION_HEIGHT''"

definition resolved_htlc_btc_swap_v1_activation_height :: "environ \<Rightarrow> NetworkKind \<Rightarrow> u64 option" where
  "resolved_htlc_btc_swap_v1_activation_height env network =
     (case network of
        Mainnet \<Rightarrow> MAINNET_HTLC_BTC_SWAP_V1_ACTIVATION_HEIGHT
      | Testnet \<Rightarrow> runtime_htlc_btc_swap_v1_env_override env
      | Devnet \<Rightarrow> runtime_htlc_btc_swap_v1_env_override env)"

definition runtime_swap_order_v1_env_override :: "environ \<Rightarrow> u64 option" where
  "runtime_swap_order_v1_env_override env = env_height env ''IRIUM_SWAP_ORDER_V1_ACTIVATION_HEIGHT''"

definition resolved_swap_order_v1_activation_height :: "environ \<Rightarrow> NetworkKind \<Rightarrow> u64 option" where
  "resolved_swap_order_v1_activation_height env network =
     (case network of
        Mainnet \<Rightarrow> MAINNET_SWAP_ORDER_V1_ACTIVATION_HEIGHT
      | Testnet \<Rightarrow> runtime_swap_order_v1_env_override env
      | Devnet \<Rightarrow> runtime_swap_order_v1_env_override env)"

definition runtime_btc_swap_bech32_payment_env_override :: "environ \<Rightarrow> u64 option" where
  "runtime_btc_swap_bech32_payment_env_override env = env_height env ''IRIUM_BTC_SWAP_BECH32_PAYMENT_ACTIVATION_HEIGHT''"

definition resolved_btc_swap_bech32_payment_activation_height :: "environ \<Rightarrow> NetworkKind \<Rightarrow> u64 option" where
  "resolved_btc_swap_bech32_payment_activation_height env network =
     (case network of
        Mainnet \<Rightarrow> MAINNET_BTC_SWAP_BECH32_PAYMENT_ACTIVATION_HEIGHT
      | Testnet \<Rightarrow> runtime_btc_swap_bech32_payment_env_override env
      | Devnet \<Rightarrow> runtime_btc_swap_bech32_payment_env_override env)"

definition runtime_mpsov1_env_override :: "environ \<Rightarrow> u64 option" where
  "runtime_mpsov1_env_override env = env_height env ''IRIUM_MPSOV1_ACTIVATION_HEIGHT''"

definition resolved_mpsov1_activation_height :: "environ \<Rightarrow> NetworkKind \<Rightarrow> u64 option" where
  "resolved_mpsov1_activation_height env network =
     (case network of
        Mainnet \<Rightarrow> MAINNET_MPSOV1_ACTIVATION_HEIGHT
      | Testnet \<Rightarrow> runtime_mpsov1_env_override env
      | Devnet \<Rightarrow> runtime_mpsov1_env_override env)"

definition runtime_standard_header_activation_env_override :: "environ \<Rightarrow> u64 option" where
  "runtime_standard_header_activation_env_override env =
     env_height env ''IRIUM_STANDARD_HEADER_ACTIVATION_HEIGHT''"

definition resolve_standard_header_activation :: "NetworkKind \<Rightarrow> u64 option \<Rightarrow> u64" where
  "resolve_standard_header_activation network env_override =
     (case network of
        Mainnet \<Rightarrow> STANDARD_HEADER_ACTIVATION_HEIGHT
      | Testnet \<Rightarrow> (case env_override of Some h \<Rightarrow> h | None \<Rightarrow> 1)
      | Devnet \<Rightarrow> (case env_override of Some h \<Rightarrow> h | None \<Rightarrow> 1))"

definition resolved_standard_header_activation_height :: "environ \<Rightarrow> NetworkKind \<Rightarrow> u64" where
  "resolved_standard_header_activation_height env network =
     resolve_standard_header_activation network (runtime_standard_header_activation_env_override env)"

text \<open>Alone among the resolvers, this one parses its variable without trimming it.\<close>

definition resolved_coinbase_header_batch_activation_height ::
    "environ \<Rightarrow> NetworkKind \<Rightarrow> u64 option" where
  "resolved_coinbase_header_batch_activation_height env network =
     (case network of
        Mainnet \<Rightarrow> MAINNET_COINBASE_HEADER_BATCH_ACTIVATION_HEIGHT
      | Devnet \<Rightarrow> Option.bind (env ''IRIUM_COINBASE_HEADER_BATCH_ACTIVATION_HEIGHT'') parse_u64
      | Testnet \<Rightarrow> Option.bind (env ''IRIUM_COINBASE_HEADER_BATCH_ACTIVATION_HEIGHT'') parse_u64)"

section \<open>Consensus constants and the emission schedule\<close>

abbreviation (input) MAX_MONEY :: u64 where "MAX_MONEY \<equiv> 10000000000000000"
abbreviation (input) BLOCK_TARGET_INTERVAL_V1 :: u64 where "BLOCK_TARGET_INTERVAL_V1 \<equiv> 600"
abbreviation (input) BLOCK_TARGET_INTERVAL_V2 :: u64 where "BLOCK_TARGET_INTERVAL_V2 \<equiv> 120"
abbreviation (input) DIFFICULTY_RETARGET_INTERVAL :: u64 where "DIFFICULTY_RETARGET_INTERVAL \<equiv> 2016"
abbreviation (input) MTP_ACTIVATION_HEIGHT :: u64 where "MTP_ACTIVATION_HEIGHT \<equiv> 32000"
abbreviation (input) COINBASE_MATURITY :: u64 where "COINBASE_MATURITY \<equiv> 100"
abbreviation (input) INITIAL_SUBSIDY :: u64 where "INITIAL_SUBSIDY \<equiv> 5000000000"
abbreviation (input) HALVING_INTERVAL_V1 :: u64 where "HALVING_INTERVAL_V1 \<equiv> 210000"
abbreviation (input) HALVING_INTERVAL_V2 :: u64 where "HALVING_INTERVAL_V2 \<equiv> 1050000"

definition resolved_block_time_v2_fork_height :: "environ \<Rightarrow> u64 option" where
  "resolved_block_time_v2_fork_height env =
     resolved_block_time_v2_activation_height env (network_kind_from_env env)"

definition block_target_interval :: "environ \<Rightarrow> u64 \<Rightarrow> u64" where
  "block_target_interval env height =
     (case resolved_block_time_v2_fork_height env of
        Some fork \<Rightarrow> if height \<ge> fork then BLOCK_TARGET_INTERVAL_V2 else BLOCK_TARGET_INTERVAL_V1
      | None \<Rightarrow> BLOCK_TARGET_INTERVAL_V1)"

definition halving_count :: "environ \<Rightarrow> u64 \<Rightarrow> u64" where
  "halving_count env height =
     (if height = 0 then 0
      else case resolved_block_time_v2_fork_height env of
        Some fork \<Rightarrow>
          if height > fork then
            (if fork = 0 then 0 else (fork - 1) div HALVING_INTERVAL_V1) +
            (height - fork - 1) div HALVING_INTERVAL_V2
          else (height - 1) div HALVING_INTERVAL_V1
      | None \<Rightarrow> (height - 1) div HALVING_INTERVAL_V1)"

definition block_reward :: "environ \<Rightarrow> u64 \<Rightarrow> u64" where
  "block_reward env height =
     (if height = 0 then 0
      else let halvings = halving_count env height in
      if halvings \<ge> 64 then 0 else drop_bit (unat halvings) INITIAL_SUBSIDY)"

definition coinbase_maturity :: "environ \<Rightarrow> u64" where
  "coinbase_maturity env =
     (if env ''IRIUM_NETWORK'' = Some ''devnet'' \<or> env ''IRIUM_NETWORK'' = Some ''regtest'' then
        (case Option.bind (env ''IRIUM_COINBASE_MATURITY'') parse_u64 of Some n \<Rightarrow> n | None \<Rightarrow> 5)
      else COINBASE_MATURITY)"

section \<open>Network eras\<close>

record NetworkEraInfo =
  era_name :: string
  era_description :: string
  era_tagline :: "string option"
  early_participation_signal :: bool

definition network_era :: "u64 \<Rightarrow> NetworkEraInfo" where
  "network_era height =
     (if height \<le> 25000 then
        \<lparr>era_name = ''Early Miner Era'',
         era_description = ''Irium is still in its early miner phase. Early participants are helping secure and shape the network.'',
         era_tagline = Some ''Early participants are helping secure the network.'',
         early_participation_signal = True\<rparr>
      else if height \<le> 100000 then
        \<lparr>era_name = ''Growth Era'',
         era_description = ''Irium is expanding beyond its bootstrap phase as network usage, block production, and infrastructure continue to grow.'',
         era_tagline = Some ''Network participation is broadening as the chain grows.'',
         early_participation_signal = False\<rparr>
      else
        \<lparr>era_name = ''Mature Network Era'',
         era_description = ''Irium has moved into a more mature operating phase with established network history and infrastructure.'',
         era_tagline = Some ''The network is operating in a more established phase.'',
         early_participation_signal = False\<rparr>)"

section \<open>The halving schedule over the naturals\<close>

definition halvings_nat :: "nat option \<Rightarrow> nat \<Rightarrow> nat" where
  "halvings_nat fork h =
     (case fork of
        Some f \<Rightarrow> if h > f then (f - 1) div 210000 + (h - f - 1) div 1050000 else (h - 1) div 210000
      | None \<Rightarrow> (h - 1) div 210000)"

lemma unat_minus_1: "h \<noteq> 0 \<Longrightarrow> unat (h - 1 :: u64) = unat h - 1"
  by (simp add: unat_minus_one)

lemma unat_halving_count:
  "unat (halving_count env h) =
    (if h = 0 then 0 else halvings_nat (map_option unat (resolved_block_time_v2_fork_height env)) (unat h))"
proof -
  have pre: "unat ((f - 1) div 210000 :: u64) = (unat f - 1) div 210000" if "f \<noteq> 0" for f :: u64
    using that by (simp add: unat_div unat_minus_1)
  have post: "unat ((h - f - 1) div 1050000 :: u64) = (unat h - unat f - 1) div 1050000"
    if "f < h" for f
  proof -
    have "f \<le> h" "h - f \<noteq> 0" using that by auto
    then show ?thesis using that
      by (simp add: unat_div unat_minus_1 unat_sub)
  qed
  have sum: "unat ((a div 210000) + (b div 1050000) :: u64) = unat (a div 210000) + unat (b div 1050000)"
    for a b :: u64
  proof -
    have "unat (a div 210000) < 2 ^ 63" "unat (b div 1050000) < 2 ^ 63"
      using unsigned_less [of a, where 'a = nat] unsigned_less [of b, where 'a = nat]
      by (auto simp: unat_div)
    then show ?thesis by (intro unat_add_no_wrap) simp
  qed
  have post0: "unat ((h - 1) div 1050000 :: u64) = (unat h - 1) div 1050000" if "h \<noteq> 0"
    using that by (simp add: unat_div unat_minus_1)
  show ?thesis
    by (auto simp: halving_count_def halvings_nat_def sum pre post post0 word_less_nat_alt split: option.split)
qed

lemma halvings_nat_mono: "g \<le> h \<Longrightarrow> halvings_nat fork g \<le> halvings_nat fork h"
proof (cases fork)
  case None
  then show "g \<le> h \<Longrightarrow> ?thesis" by (auto simp: halvings_nat_def intro!: div_le_mono)
next
  case (Some f)
  assume "g \<le> h"
  moreover have "(g - 1) div 210000 \<le> (f - 1) div 210000" if "g \<le> f"
    using that by (intro div_le_mono) simp
  ultimately show ?thesis
    using Some by (auto simp: halvings_nat_def intro!: div_le_mono trans_le_add1)
qed

lemma halvings_nat_continuous: "halvings_nat (Some f) (Suc f) = halvings_nat (Some f) f"
  by (simp add: halvings_nat_def)

lemma unat_block_reward:
  "h \<noteq> 0 \<Longrightarrow> unat (block_reward env h) = 5000000000 div 2 ^ unat (halving_count env h)"
proof -
  have z: "5000000000 div 2 ^ n = (0::nat)" if "64 \<le> n" for n :: nat
  proof -
    have "(5000000000::nat) < 2 ^ 64" by simp
    also have "(2::nat) ^ 64 \<le> 2 ^ n" using that by (intro power_increasing) auto
    finally show ?thesis by (rule div_less)
  qed
  have d: "unat (drop_bit n (5000000000 :: u64)) = 5000000000 div 2 ^ n" for n
    unfolding unat_drop_bit_eq by (simp add: drop_bit_eq_div)
  show "h \<noteq> 0 \<Longrightarrow> ?thesis"
    using z by (auto simp: block_reward_def Let_def word_le_nat_alt d)
qed

lemma block_reward_antimono:
  assumes "1 \<le> g" "g \<le> h"
  shows "block_reward env h \<le> block_reward env g"
proof -
  have nz: "g \<noteq> 0" "h \<noteq> 0" using assms by (auto simp: word_le_nat_alt)
  have "unat (halving_count env g) \<le> unat (halving_count env h)"
    using nz assms(2) by (simp add: unat_halving_count halvings_nat_mono word_le_nat_alt)
  then show ?thesis
    using nz by (simp add: word_le_nat_alt unat_block_reward div_le_mono2 power_increasing)
qed

section \<open>Emission\<close>

definition emission :: "environ \<Rightarrow> nat \<Rightarrow> nat" where
  "emission env n = (\<Sum>h = 1..n. unat (block_reward env (word_of_nat h)))"

lemma emission_mono: "m \<le> n \<Longrightarrow> emission env m \<le> emission env n"
  unfolding emission_def by (intro sum_mono2) auto

lemma emission_segment:
  assumes "a \<le> b" "\<And>h. a < h \<Longrightarrow> h \<le> b \<Longrightarrow> unat (block_reward env (word_of_nat h)) = c"
  shows "emission env b = emission env a + (b - a) * c"
proof -
  have "{1..b} = {1..a} \<union> {a<..b}" "{1..a} \<inter> {a<..b} = {}" using assms(1) by auto
  then have "emission env b = emission env a + (\<Sum>h\<in>{a<..b}. unat (block_reward env (word_of_nat h)))"
    unfolding emission_def by (simp add: sum.union_disjoint)
  also have "(\<Sum>h\<in>{a<..b}. unat (block_reward env (word_of_nat h))) = (b - a) * c"
    using assms(2) by simp
  finally show ?thesis .
qed

lemma mainnet_fork_height:
  "network_kind_from_env env = Mainnet \<Longrightarrow> resolved_block_time_v2_fork_height env = Some 24250"
  by (simp add: resolved_block_time_v2_fork_height_def resolved_block_time_v2_activation_height_def)

lemma mainnet_reward:
  assumes "network_kind_from_env env = Mainnet"
    and "0 < h" "h < 2 ^ 63" "k = 0 \<and> h \<le> 1074250 \<or> 24250 + k * 1050000 < h \<and> h \<le> 24250 + Suc k * 1050000"
  shows "unat (block_reward env (word_of_nat h)) = 5000000000 div 2 ^ k"
proof -
  have u: "unat (word_of_nat h :: u64) = h" using assms(3) by (intro unat_word_of_nat_small) simp
  then have "(word_of_nat h :: u64) \<noteq> 0" using assms(2) by (auto simp: word_unat_eq_iff)
  moreover have "halvings_nat (Some 24250) h = k"
  proof -
    consider "k = 0" "h \<le> 24250" | "24250 + k * 1050000 < h" "h \<le> 24250 + Suc k * 1050000"
      using assms(4) by (cases "h \<le> 24250") auto
    then show ?thesis
    proof cases
      case 2
      then have "(h - 24250 - 1) div 1050000 = k" by (intro div_nat_eqI) auto
      then show ?thesis using 2 by (simp add: halvings_nat_def)
    qed (simp add: halvings_nat_def)
  qed
  ultimately show ?thesis
    using u mainnet_fork_height [OF assms(1)] by (simp add: unat_block_reward unat_halving_count)
qed

lemma mainnet_emission_epochs:
  assumes "network_kind_from_env env = Mainnet" "3174250 \<le> n" "n \<le> 4224250"
  shows "emission env n = 9308750000000000 + (n - 3174250) * 625000000"
proof -
  note r = mainnet_reward [OF assms(1)]
  have 0: "emission env 1074250 = emission env 0 + (1074250 - 0) * 5000000000"
    by (intro emission_segment r [where k = 0, simplified]) auto
  have 1: "emission env 2124250 = emission env 1074250 + (2124250 - 1074250) * 2500000000"
    by (intro emission_segment r [where k = 1, simplified]) auto
  have 2: "emission env 3174250 = emission env 2124250 + (3174250 - 2124250) * 1250000000"
    by (intro emission_segment r [where k = 2, simplified]) auto
  have 3: "emission env n = emission env 3174250 + (n - 3174250) * 625000000"
    using assms(2,3) by (intro emission_segment r [where k = 3, simplified]) auto
  have "emission env 0 = 0" by (simp add: emission_def)
  then show ?thesis using 0 1 2 3 by simp
qed

text \<open>
  With 3,500,000 IRM outside the schedule, mainnet's rewards reach the money cap at block 3,720,250, in the
  fourth reward epoch.
\<close>

lemma mainnet_emission_cap:
  assumes "network_kind_from_env env = Mainnet"
  shows "350000000000000 + emission env n \<le> 10000000000000000 \<longleftrightarrow> n \<le> 3720250"
    "350000000000000 + emission env 3720250 = 10000000000000000"
proof -
  note e = mainnet_emission_epochs [OF assms]
  show c: "350000000000000 + emission env 3720250 = 10000000000000000" using e [of 3720250] by simp
  show "350000000000000 + emission env n \<le> 10000000000000000 \<longleftrightarrow> n \<le> 3720250"
  proof
    assume "n \<le> 3720250"
    then show "350000000000000 + emission env n \<le> 10000000000000000" using emission_mono [of n 3720250 env] c by simp
  next
    assume a: "350000000000000 + emission env n \<le> 10000000000000000"
    show "n \<le> 3720250"
    proof (rule ccontr)
      assume "\<not> n \<le> 3720250"
      then have "emission env 3720251 \<le> emission env n" by (intro emission_mono) simp
      then show False using a e [of 3720251] by simp
    qed
  qed
qed

section \<open>Properties\<close>

text \<open>
  C26. On mainnet no environment variable moves the parameters that \<open>activation.rs\<close> and \<open>constants.rs\<close>
  resolve: whatever the environment, as long as it selects mainnet, the fifteen activation heights
  listed here, the block-time target, the reward schedule, coinbase maturity and the height at which
  PoAW-X starts are those of the code constants. The fork-choice and finality limits of PoAW-X are not
  among them: those are read from the environment on mainnet too.
\<close>

theorem mainnet_ignores_environment:
  assumes "network_kind_from_env env = Mainnet"
  defines "n \<equiv> network_kind_from_env env"
  shows "resolved_htlcv1_activation_height env n = Some 18677 \<and>
    resolved_lwma_activation_height env n = Some 16462 \<and>
    resolved_lwma_v2_activation_height env n = Some 19740 \<and>
    resolved_mpsov1_activation_height env n = Some 20000 \<and>
    resolved_standard_header_activation_height env n = 22888 \<and>
    resolved_btc_spv_relay_activation_height env n = Some 23850 \<and>
    resolved_htlc_btc_swap_v1_activation_height env n = Some 23850 \<and>
    resolved_swap_order_v1_activation_height env n = Some 23850 \<and>
    resolved_block_time_v2_activation_height env n = Some 24250 \<and>
    resolved_auxpow_activation_height env n = Some 24800 \<and>
    resolved_ltc_spv_relay_activation_height env n = Some 24800 \<and>
    resolved_htlc_ltc_swap_v1_activation_height env n = Some 24800 \<and>
    resolved_ltc_swap_order_v1_activation_height env n = Some 24800 \<and>
    resolved_coinbase_header_batch_activation_height env n = Some 24800 \<and>
    resolved_btc_swap_bech32_payment_activation_height env n = None \<and>
    coinbase_maturity env = 100 \<and>
    block_target_interval env h = (if h \<ge> 24250 then 120 else 600) \<and>
    block_reward env h = block_reward (\<lambda>_. None) h \<and>
    (poawx_consensus_active env h \<longleftrightarrow> h \<ge> 50000)"
proof -
  have "network_kind_from_env (\<lambda>_. None) = Mainnet" by (simp add: network_kind_from_env_def)
  then have "block_reward env h = block_reward (\<lambda>_. None) h"
    using assms(1) by (simp add: block_reward_def halving_count_def mainnet_fork_height)
  moreover have "env ''IRIUM_NETWORK'' \<noteq> Some ''devnet''" "env ''IRIUM_NETWORK'' \<noteq> Some ''regtest''"
    using assms(1) by (auto simp: network_kind_from_env_def from_env_value_def trim_def is_ws_def
        to_ascii_lowercase_def ascii_lower_def Let_def)
  ultimately show ?thesis
    using assms(1) mainnet_fork_height [OF assms(1)]
    by (simp add: n_def coinbase_maturity_def block_target_interval_def poawx_consensus_active_def
        network_id_byte_def reached_def resolved_htlcv1_activation_height_def
        resolved_lwma_activation_height_def resolved_lwma_v2_activation_height_def
        resolved_mpsov1_activation_height_def resolved_standard_header_activation_height_def
        resolve_standard_header_activation_def resolved_btc_spv_relay_activation_height_def
        resolved_htlc_btc_swap_v1_activation_height_def resolved_swap_order_v1_activation_height_def
        resolved_block_time_v2_activation_height_def resolved_auxpow_activation_height_def
        resolved_ltc_spv_relay_activation_height_def resolved_htlc_ltc_swap_v1_activation_height_def
        resolved_ltc_swap_order_v1_activation_height_def
        resolved_coinbase_header_batch_activation_height_def
        resolved_btc_swap_bech32_payment_activation_height_def)
qed

theorem mainnet_ignores_environment_witness:
  "resolved_lwma_activation_height [''IRIUM_LWMA_ACTIVATION_HEIGHT'' \<mapsto> ''1''] Mainnet = Some 16462"
proof -
  have n: "network_kind_from_env [''IRIUM_LWMA_ACTIVATION_HEIGHT'' \<mapsto> ''1''] = Mainnet"
    by (simp add: network_kind_from_env_def)
  show ?thesis using mainnet_ignores_environment [OF n] unfolding n by blast
qed

text \<open>
  C28. The reward curve: on every network, the reward of the block after the block-time fork equals
  the reward of the fork block, and rewards never increase with height from block 1 on.
\<close>

theorem block_reward_continuous_antimono:
  assumes "resolved_block_time_v2_fork_height env = Some fork" "fork \<noteq> 0" "unat fork < 2 ^ 64 - 1"
    and "1 \<le> g" "g \<le> h"
  shows "block_reward env (fork + 1) = block_reward env fork \<and> block_reward env h \<le> block_reward env g"
proof
  have u: "unat (fork + 1) = Suc (unat fork)" using assms(3) by (simp add: unat_add_no_wrap)
  then have "fork + 1 \<noteq> 0" by (auto simp: word_unat_eq_iff)
  then show "block_reward env (fork + 1) = block_reward env fork"
    using assms(1,2) u
    by (simp add: word_unat_eq_iff [of "block_reward env _"] unat_block_reward unat_halving_count
        halvings_nat_continuous)
  show "block_reward env h \<le> block_reward env g"
    by (rule block_reward_antimono [OF assms(4,5)])
qed

theorem block_reward_continuous_antimono_witness:
  "block_reward (\<lambda>_. None) (24250 + 1) = block_reward (\<lambda>_. None) 24250 \<and>
   block_reward (\<lambda>_. None) 9000000 \<le> block_reward (\<lambda>_. None) 7"
proof -
  have "resolved_block_time_v2_fork_height (\<lambda>_. None) = Some 24250"
    by (intro mainnet_fork_height) (simp add: network_kind_from_env_def)
  from block_reward_continuous_antimono [OF this, of 7 9000000] show ?thesis by simp
qed

end
