(* ===== verification/Block.thy ===== *)
theory Block
  imports Auxpow Activation
begin

text \<open>
  Blocks, \<open>src/src/block.rs\<close>: the 80-byte header in its two byte orders, header hashing, the
  Merkle root, and the block wire format (header, optional AuxPoW extension, transactions, optional
  receipt section). The PoAW-X receipts of \<open>src/src/poawx.rs\<close> are of a type variable
  \<open>'r\<close>; their element codecs are the argument \<open>ops\<close>.
\<close>

unbundle bit_operations_syntax

section \<open>Headers\<close>

record BlockHeader =
  hdr_version :: u32
  hdr_prev_hash :: bytes
  hdr_merkle_root :: bytes
  hdr_time :: u32
  hdr_bits :: u32
  hdr_nonce :: u32

definition serialize_header :: "BlockHeader \<Rightarrow> bytes" where
  "serialize_header h =
     u32_le (hdr_version h) @ rev (hdr_prev_hash h) @ rev (hdr_merkle_root h) @
     u32_le (hdr_time h) @ u32_le (hdr_bits h) @ u32_le (hdr_nonce h)"

definition hash :: "(bytes \<Rightarrow> bytes) \<Rightarrow> BlockHeader \<Rightarrow> bytes" where
  "hash sha h = rev (header_hash sha [serialize_header h])"

definition target :: "BlockHeader \<Rightarrow> Target" where
  "target h = Target (hdr_bits h)"

definition hdr_read_u32 :: "bytes \<Rightarrow> nat \<Rightarrow> err + u32 \<times> nat" where
  "hdr_read_u32 buf off =
     (if off + 4 > length buf then Inl (Err ''unexpected EOF'')
      else Inr (le_u32 (slice buf off (off + 4)), off + 4))"

definition deserialize_header :: "bytes \<Rightarrow> err + BlockHeader \<times> nat" where
  "deserialize_header raw =
     (if length raw < 80 then Inl (Err ''header too short'')
      else
        bindE (hdr_read_u32 raw 0) (\<lambda>(version, off).
        let prev = rev (slice raw off (off + 32)); off = off + 32;
            merkle = rev (slice raw off (off + 32)); off = off + 32
        in
        bindE (hdr_read_u32 raw off) (\<lambda>(time, off).
        bindE (hdr_read_u32 raw off) (\<lambda>(bits, off).
        bindE (hdr_read_u32 raw off) (\<lambda>(nonce, off).
          Inr (\<lparr>hdr_version = version, hdr_prev_hash = prev, hdr_merkle_root = merkle,
                hdr_time = time, hdr_bits = bits, hdr_nonce = nonce\<rparr>, off))))))"

definition serialize_with_activation :: "BlockHeader \<Rightarrow> u64 \<Rightarrow> u64 \<Rightarrow> bytes" where
  "serialize_with_activation h height std_header_activation =
     u32_le (hdr_version h) @ rev (hdr_prev_hash h) @
     (if height < std_header_activation then rev (hdr_merkle_root h) else hdr_merkle_root h) @
     u32_le (hdr_time h) @ u32_le (hdr_bits h) @ u32_le (hdr_nonce h)"

text \<open>The process-wide activation height, set once at start-up; unset it is the mainnet constant.\<close>

definition standard_header_activation_height :: "u64 option \<Rightarrow> u64" where
  "standard_header_activation_height resolved =
     (case resolved of Some h \<Rightarrow> h | None \<Rightarrow> STANDARD_HEADER_ACTIVATION_HEIGHT)"

definition set_standard_header_activation_height :: "u64 option \<Rightarrow> u64 \<Rightarrow> u64 option" where
  "set_standard_header_activation_height resolved height =
     (case resolved of Some h \<Rightarrow> Some h | None \<Rightarrow> Some height)"

definition serialize_for_height :: "u64 \<Rightarrow> BlockHeader \<Rightarrow> u64 \<Rightarrow> bytes" where
  "serialize_for_height activation h height = serialize_with_activation h height activation"

definition hash_for_height :: "(bytes \<Rightarrow> bytes) \<Rightarrow> u64 \<Rightarrow> BlockHeader \<Rightarrow> u64 \<Rightarrow> bytes" where
  "hash_for_height sha activation h height =
     rev (header_hash sha [serialize_for_height activation h height])"

definition peek_prev_hash :: "bytes \<Rightarrow> err + bytes" where
  "peek_prev_hash raw =
     (if length raw < 36 then Inl (Err ''header too short to peek prev_hash'')
      else Inr (rev (slice raw 4 36)))"

definition deserialize_with_activation :: "bytes \<Rightarrow> u64 \<Rightarrow> u64 \<Rightarrow> err + BlockHeader \<times> nat" where
  "deserialize_with_activation raw height std_header_activation =
     (if length raw < 80 then Inl (Err ''header too short'')
      else
        bindE (hdr_read_u32 raw 0) (\<lambda>(version, off).
        let prev = rev (slice raw off (off + 32)); off = off + 32;
            merkle = (if height < std_header_activation then rev (slice raw off (off + 32))
                      else slice raw off (off + 32));
            off = off + 32
        in
        bindE (hdr_read_u32 raw off) (\<lambda>(time, off).
        bindE (hdr_read_u32 raw off) (\<lambda>(bits, off).
        bindE (hdr_read_u32 raw off) (\<lambda>(nonce, off).
          Inr (\<lparr>hdr_version = version, hdr_prev_hash = prev, hdr_merkle_root = merkle,
                hdr_time = time, hdr_bits = bits, hdr_nonce = nonce\<rparr>, off))))))"

definition deserialize_for_height :: "u64 \<Rightarrow> bytes \<Rightarrow> u64 \<Rightarrow> err + BlockHeader \<times> nat" where
  "deserialize_for_height activation raw height = deserialize_with_activation raw height activation"

definition typed_header :: "BlockHeader \<Rightarrow> bool" where
  "typed_header h \<longleftrightarrow> length (hdr_prev_hash h) = 32 \<and> length (hdr_merkle_root h) = 32"

section \<open>Blocks\<close>

record 'r Block =
  header :: BlockHeader
  transactions :: "Transaction list"
  auxpow :: "AuxPoW option"
  poawx_receipts :: "'r list option"

text \<open>One pass of the Merkle loop: duplicate an odd last leaf, then hash the leaves pairwise.\<close>

fun hash_pairs :: "(bytes \<Rightarrow> bytes) \<Rightarrow> bytes list \<Rightarrow> bytes list" where
  "hash_pairs sha (x # y # rest) = header_hash sha [x, y] # hash_pairs sha rest"
| "hash_pairs sha rest = rest"

definition merkle_level :: "(bytes \<Rightarrow> bytes) \<Rightarrow> bytes list \<Rightarrow> bytes list" where
  "merkle_level sha leaves =
     hash_pairs sha (if odd (length leaves) then leaves @ [last leaves] else leaves)"

lemma length_hash_pairs: "even (length xs) \<Longrightarrow> length (hash_pairs sha xs) = length xs div 2"
  by (induction sha xs rule: hash_pairs.induct) auto

lemma length_merkle_level: "length (merkle_level sha xs) = (length xs + 1) div 2"
  by (auto simp: merkle_level_def length_hash_pairs)

function merkle_loop :: "(bytes \<Rightarrow> bytes) \<Rightarrow> bytes list \<Rightarrow> bytes" where
  "merkle_loop sha leaves =
     (if length leaves > 1 then merkle_loop sha (merkle_level sha leaves) else leaves ! 0)"
  by pat_completeness auto
termination
  by (relation "measure (\<lambda>(sha, leaves). length leaves)") (auto simp: length_merkle_level)

declare merkle_loop.simps [simp del]

definition merkle_root :: "(bytes \<Rightarrow> bytes) \<Rightarrow> 'r Block \<Rightarrow> bytes" where
  "merkle_root sha b =
     (if transactions b = [] then replicate 32 0
      else merkle_loop sha (map (\<lambda>tx. rev (txid sha tx)) (transactions b)))"

section \<open>The receipt section and the block wire format\<close>

text \<open>Element codecs of the receipts; the deserialisers take the remaining bytes.\<close>

record 'r receipt_ops =
  has_phase20_ext :: "'r \<Rightarrow> bool"
  has_delegation :: "'r \<Rightarrow> bool"
  ser_v1 :: "'r \<Rightarrow> bytes"
  ser_v2 :: "'r \<Rightarrow> bytes"
  ser_v3 :: "'r \<Rightarrow> bytes"
  de_v1 :: "bytes \<Rightarrow> err + 'r"
  de_v2 :: "bytes \<Rightarrow> err + 'r \<times> nat"
  de_v3 :: "bytes \<Rightarrow> err + 'r \<times> nat"

abbreviation (input) POAWX_RECEIPT_SECTION_MAGIC :: bytes where
  "POAWX_RECEIPT_SECTION_MAGIC \<equiv> [0x50, 0x4f, 0x41, 0x57, 0x58, 0x52, 1, 0]"
abbreviation (input) POAWX_RECEIPT_SECTION_MAGIC_V2 :: bytes where
  "POAWX_RECEIPT_SECTION_MAGIC_V2 \<equiv> [0x50, 0x4f, 0x41, 0x57, 0x58, 0x52, 2, 0]"
abbreviation (input) POAWX_RECEIPT_SECTION_MAGIC_V3 :: bytes where
  "POAWX_RECEIPT_SECTION_MAGIC_V3 \<equiv> [0x50, 0x4f, 0x41, 0x57, 0x58, 0x52, 3, 0]"
abbreviation (input) RECEIPT_WIRE_SIZE :: nat where "RECEIPT_WIRE_SIZE \<equiv> 166"

definition serialize_receipt_section :: "'r receipt_ops \<Rightarrow> 'r Block \<Rightarrow> bytes" where
  "serialize_receipt_section ops b =
     (case poawx_receipts b of
        None \<Rightarrow> []
      | Some receipts \<Rightarrow>
          if receipts = [] then []
          else if list_ex (has_phase20_ext ops) receipts then
            POAWX_RECEIPT_SECTION_MAGIC_V3 @ [word_of_nat (length receipts)] @ concat (map (ser_v3 ops) receipts)
          else if list_ex (has_delegation ops) receipts then
            POAWX_RECEIPT_SECTION_MAGIC_V2 @ [word_of_nat (length receipts)] @ concat (map (ser_v2 ops) receipts)
          else
            POAWX_RECEIPT_SECTION_MAGIC @ [word_of_nat (length receipts)] @ concat (map (ser_v1 ops) receipts))"

definition receipt_element :: "'r receipt_ops \<Rightarrow> bytes \<Rightarrow> bytes \<Rightarrow> nat \<Rightarrow> err + 'r \<times> nat" where
  "receipt_element ops magic raw off =
     (if magic = POAWX_RECEIPT_SECTION_MAGIC then
        (if length raw - off < RECEIPT_WIRE_SIZE then Inl (Err ''receipt section truncated'')
         else bindE (de_v1 ops (drop off raw)) (\<lambda>r. Inr (r, off + RECEIPT_WIRE_SIZE)))
      else if magic = POAWX_RECEIPT_SECTION_MAGIC_V2 then
        bindE (de_v2 ops (drop off raw)) (\<lambda>(r, used). Inr (r, off + used))
      else bindE (de_v3 ops (drop off raw)) (\<lambda>(r, used). Inr (r, off + used)))"

definition try_parse_receipt_section ::
    "'r receipt_ops \<Rightarrow> bytes \<Rightarrow> nat \<Rightarrow> err + 'r list option \<times> nat" where
  "try_parse_receipt_section ops raw offset =
     (if length raw - offset < 8 then Inr (None, offset)
      else let magic = slice raw offset (offset + 8) in
      if magic \<noteq> POAWX_RECEIPT_SECTION_MAGIC \<and> magic \<noteq> POAWX_RECEIPT_SECTION_MAGIC_V2 \<and>
         magic \<noteq> POAWX_RECEIPT_SECTION_MAGIC_V3 then Inr (None, offset)
      else let off = offset + 8 in
      if off \<ge> length raw then Inl (Err ''receipt section: missing count byte'')
      else bindE (read_many (unat (raw ! off)) (receipt_element ops magic) raw (off + 1))
        (\<lambda>(receipts, off). Inr (Some receipts, off)))"

lemma decode_full_tx_at_progress:
  assumes "decode_full_tx_at raw off = Inr (tx, off')"
  shows "off < off' \<and> off' \<le> length raw"
proof (rule decode_full_tx_at_InrE [OF assms])
  fix n k :: u8 and o1 o2
  assume r: "off + 5 \<le> length raw"
    "read_many (unat n) decode_input raw (off + 5) = Inr (inputs tx, o1)" "o1 < length raw"
    "read_many (unat k) decode_output raw (o1 + 1) = Inr (outputs tx, o2)"
    "o2 + 4 \<le> length raw" "off' = o2 + 4"
  have i: "off \<le> off' \<and> off' \<le> length raw" if "decode_input raw off = Inr (x, off')" for off x off'
    using that by (auto simp: decode_input_def bindE_eq_Inr read_u8_Inr read_u32_Inr dest!: read_bytes_Inr)
  have o: "off \<le> off' \<and> off' \<le> length raw" if "decode_output raw off = Inr (x, off')" for off x off'
    using decode_output_InrE [OF that] read_varint_bounds read_bytes_Inr by (metis add_leE le_trans less_imp_le)
  have "off + 5 \<le> o1" using read_many_bounds [OF _ r(2) r(1)] i by blast
  moreover have "o1 + 1 \<le> o2" using read_many_bounds [OF _ r(4)] o r(3) by (metis Suc_eq_plus1 Suc_leI)
  ultimately show ?thesis using r by simp
qed

function parse_block_body ::
    "'r receipt_ops \<Rightarrow> bytes \<Rightarrow> nat \<Rightarrow> err + (Transaction list \<times> 'r list option) \<times> nat" where
  "parse_block_body ops raw offset =
     (if \<not> offset < length raw then Inr (([], None), offset)
      else bindE (try_parse_receipt_section ops raw offset) (\<lambda>(rs, off).
        case rs of
          Some receipts \<Rightarrow> Inr (([], Some receipts), off)
        | None \<Rightarrow>
            bindE (decode_full_tx_at raw off) (\<lambda>(tx, off).
            bindE (parse_block_body ops raw off) (\<lambda>((txs, rs), off). Inr ((tx # txs, rs), off)))))"
  by pat_completeness auto
termination
proof (relation "measure (\<lambda>(ops, raw, offset). length raw - offset)", goal_cases)
  case (2 ops raw offset p rs off q tx off2)
  then have "off = offset"
    by (auto simp: try_parse_receipt_section_def Let_def bindE_eq_Inr split: if_splits)
  then show ?case using 2 decode_full_tx_at_progress [of raw off tx off2] by auto
qed auto

declare parse_block_body.simps [simp del]

definition deserialize_block :: "'r receipt_ops \<Rightarrow> bytes \<Rightarrow> err + 'r Block \<times> nat" where
  "deserialize_block ops raw =
     bindE (deserialize_header raw) (\<lambda>(hdr, offset).
     bindE (if hdr_version hdr AND AUXPOW_VERSION_BIT \<noteq> 0
            then bindE (deserialize_auxpow raw offset) (\<lambda>(ap, offset). Inr (Some ap, offset))
            else Inr (None, offset)) (\<lambda>(ap, offset).
     bindE (parse_block_body ops raw offset) (\<lambda>((txs, rs), offset).
       Inr (\<lparr>header = hdr, transactions = txs, auxpow = ap, poawx_receipts = rs\<rparr>, offset))))"

definition serialize_block :: "'r receipt_ops \<Rightarrow> 'r Block \<Rightarrow> bytes" where
  "serialize_block ops b =
     serialize_header (header b) @
     (case auxpow b of Some ap \<Rightarrow> serialize_auxpow ap | None \<Rightarrow> []) @
     concat (map serialize_tx (transactions b)) @ serialize_receipt_section ops b"

definition deserialize_block_for_height ::
    "'r receipt_ops \<Rightarrow> u64 \<Rightarrow> bytes \<Rightarrow> u64 \<Rightarrow> err + 'r Block \<times> nat" where
  "deserialize_block_for_height ops activation raw height =
     bindE (deserialize_for_height activation raw height) (\<lambda>(hdr, offset).
     let auxpow_active = reached MAINNET_AUXPOW_ACTIVATION_HEIGHT height in
     bindE (if hdr_version hdr AND AUXPOW_VERSION_BIT \<noteq> 0 \<and> auxpow_active
            then bindE (deserialize_auxpow raw offset) (\<lambda>(ap, offset). Inr (Some ap, offset))
            else Inr (None, offset)) (\<lambda>(ap, offset).
     bindE (parse_block_body ops raw offset) (\<lambda>((txs, rs), offset).
       Inr (\<lparr>header = hdr, transactions = txs, auxpow = ap, poawx_receipts = rs\<rparr>, offset))))"

definition serialize_block_for_height :: "'r receipt_ops \<Rightarrow> u64 \<Rightarrow> 'r Block \<Rightarrow> u64 \<Rightarrow> bytes" where
  "serialize_block_for_height ops activation b height =
     serialize_for_height activation (header b) height @
     (case auxpow b of Some ap \<Rightarrow> serialize_auxpow ap | None \<Rightarrow> []) @
     concat (map serialize_tx (transactions b)) @ serialize_receipt_section ops b"

section \<open>Header codec\<close>

lemma length_serialize_with_activation:
  "typed_header h \<Longrightarrow> length (serialize_with_activation h height act) = 80"
  by (simp add: serialize_with_activation_def typed_header_def)

lemma deserialize_header_serialize:
  assumes "typed_header h"
  shows "deserialize_with_activation (serialize_with_activation h height act @ rest) height act = Inr (h, 80)"
proof -
  define m where "m = (if height < act then rev (hdr_merkle_root h) else hdr_merkle_root h)"
  define raw where "raw = serialize_with_activation h height act @ rest"
  have l: "length (rev (hdr_prev_hash h)) = 32" "length m = 32" "80 \<le> length raw"
    using assms length_serialize_with_activation [OF assms] by (auto simp: typed_header_def m_def raw_def)
  have d0: "drop 0 raw = u32_le (hdr_version h) @ rev (hdr_prev_hash h) @ m @ u32_le (hdr_time h) @
      u32_le (hdr_bits h) @ u32_le (hdr_nonce h) @ rest"
    by (simp add: raw_def serialize_with_activation_def m_def)
  note d4 = drop_eq_append_slice [OF d0, simplified]
  note d36 = drop_eq_append_slice [OF d4(2), unfolded l(1), simplified]
  note d68 = drop_eq_append_slice [OF d36(2), unfolded l(2), simplified]
  note d72 = drop_eq_append_slice [OF d68(2), simplified]
  note d76 = drop_eq_append_slice [OF d72(2), simplified]
  note d80 = drop_eq_append_slice [OF d76(2), simplified]
  have r: "hdr_read_u32 raw 0 = Inr (hdr_version h, 4)" "hdr_read_u32 raw 68 = Inr (hdr_time h, 72)"
    "hdr_read_u32 raw 72 = Inr (hdr_bits h, 76)" "hdr_read_u32 raw 76 = Inr (hdr_nonce h, 80)"
    using l(3) d4(1) d72(1) d76(1) d80(1) by (simp_all add: hdr_read_u32_def)
  show ?thesis
    unfolding raw_def [symmetric] using r l(3) d36(1) d68(1)
    by (simp add: deserialize_with_activation_def m_def)
qed

lemma header_layout:
  assumes "80 \<le> length raw"
  shows "slice raw 0 4 @ slice raw 4 36 @ slice raw 36 68 @ slice raw 68 72 @ slice raw 72 76 @
    slice raw 76 80 = take 80 raw"
proof -
  have "slice raw 0 4 @ slice raw 4 36 @ slice raw 36 68 @ slice raw 68 72 @ slice raw 72 76 @
      slice raw 76 80 = slice raw 0 80" by (simp add: slice_join)
  then show ?thesis by (simp add: slice_def)
qed

lemma deserialize_with_activation_Inr:
  assumes "deserialize_with_activation raw height act = Inr (h, off)"
  shows "typed_header h" "off = 80" "80 \<le> length raw" "serialize_with_activation h height act = take 80 raw"
proof -
  have l: "80 \<le> length raw" using assms by (auto simp: deserialize_with_activation_def split: if_splits)
  have h: "off = 80" "h = \<lparr>hdr_version = le_u32 (slice raw 0 4), hdr_prev_hash = rev (slice raw 4 36),
      hdr_merkle_root = (if height < act then rev (slice raw 36 68) else slice raw 36 68),
      hdr_time = le_u32 (slice raw 68 72), hdr_bits = le_u32 (slice raw 72 76),
      hdr_nonce = le_u32 (slice raw 76 80)\<rparr>"
    using assms l by (auto simp: deserialize_with_activation_def hdr_read_u32_def Let_def)
  show "typed_header h" using l by (simp add: h typed_header_def)
  show "off = 80" by (rule h(1))
  show "80 \<le> length raw" by (rule l)
  show "serialize_with_activation h height act = take 80 raw"
    using l header_layout [OF l] by (simp add: h serialize_with_activation_def u_le_slice)
qed

section \<open>Block codec\<close>

lemma serialize_tx_not_magic:
  assumes "wire_tx tx" "take 8 (serialize_tx tx @ rest) = m"
  shows "m \<noteq> POAWX_RECEIPT_SECTION_MAGIC \<and> m \<noteq> POAWX_RECEIPT_SECTION_MAGIC_V2 \<and>
    m \<noteq> POAWX_RECEIPT_SECTION_MAGIC_V3"
proof -
  have c: "(serialize_tx tx @ rest) ! 4 = word_of_nat (length (inputs tx))"
    by (simp add: serialize_tx_append nth_append)
  have t: "(serialize_tx tx @ rest) ! 5 = 32" if "inputs tx \<noteq> []"
  proof -
    obtain i rs where i: "inputs tx = i # rs" using \<open>inputs tx \<noteq> []\<close> by (cases "inputs tx") auto
    then have "length (prev_txid i) = 32" using assms(1) by (simp add: wire_tx_def wire_input_def)
    then show ?thesis by (simp add: serialize_tx_append nth_append i serialize_input_def)
  qed
  have m: "m ! 4 = (serialize_tx tx @ rest) ! 4" "m ! 5 = (serialize_tx tx @ rest) ! 5"
    unfolding assms(2) [symmetric] by (rule nth_take, simp)+
  have "m ! 4 \<noteq> 0x58 \<or> m ! 5 = 32"
    using c t unfolding m by (cases "inputs tx") auto
  then show ?thesis by (auto simp: nth_Cons')
qed

lemma parse_block_body_txs:
  assumes "list_all wire_tx txs" "buffer_ok raw" "off \<le> length raw"
    and "drop off raw = concat (map serialize_tx txs)"
  shows "parse_block_body ops raw off = Inr ((txs, None), length raw)"
  using assms
proof (induction txs arbitrary: off)
  case Nil
  then show ?case by (simp add: parse_block_body.simps)
next
  case (Cons tx txs)
  have d: "drop off raw = serialize_tx tx @ concat (map serialize_tx txs)" using Cons.prems(4) by simp
  have w: "wire_tx tx" using Cons.prems(1) by simp
  have dec: "decode_full_tx_at raw off = Inr (tx, off + length (serialize_tx tx))"
    by (rule tx_codec.dec_enc [OF w Cons.prems(2,3) d])
  note p = decode_full_tx_at_progress [OF dec]
  have "try_parse_receipt_section ops raw off = Inr (None, off)"
    using serialize_tx_not_magic [OF w refl, of "concat (map serialize_tx txs)"]
    unfolding d [symmetric] by (simp add: try_parse_receipt_section_def slice_def Let_def)
  moreover have "parse_block_body ops raw (off + length (serialize_tx tx)) = Inr ((txs, None), length raw)"
    using Cons.prems(1,2) p drop_eq_append_slice(2) [OF d] by (intro Cons.IH) auto
  moreover have "off < length raw" using p by linarith
  ultimately show ?case
    using dec by (subst parse_block_body.simps) simp
qed

section \<open>Merkle trees\<close>

lemma header_hash_pair: "header_hash sha [x, y] = sha256d sha (x @ y)"
  by (simp add: header_hash_def)

lemma nth_hash_pairs:
  assumes "even (length xs)" "k < length xs div 2"
  shows "hash_pairs sha xs ! k = sha256d sha (xs ! (2 * k) @ xs ! (2 * k + 1))"
  using assms
proof (induction sha xs arbitrary: k rule: hash_pairs.induct)
  case (1 sha x y rest)
  then show ?case by (cases k) (auto simp: header_hash_pair)
qed auto

definition padded :: "bytes list \<Rightarrow> bytes list" where
  "padded xs = (if odd (length xs) then xs @ [last xs] else xs)"

lemma merkle_level_padded: "merkle_level sha xs = hash_pairs sha (padded xs)"
  by (simp add: merkle_level_def padded_def)

lemma even_padded: "even (length (padded xs))"
  by (simp add: padded_def)

lemma length_padded: "length (padded xs) div 2 = (length xs + 1) div 2" "length xs \<le> length (padded xs)"
  by (auto simp: padded_def)

lemma nth_padded: "i < length xs \<Longrightarrow> padded xs ! i = xs ! i"
  by (simp add: padded_def nth_append)

text \<open>The inclusion proof of leaf \<open>i\<close>: the sibling at every level, duplicated leaves included.\<close>

function merkle_branch :: "(bytes \<Rightarrow> bytes) \<Rightarrow> bytes list \<Rightarrow> nat \<Rightarrow> bytes list" where
  "merkle_branch sha leaves i =
     (if length leaves > 1
      then padded leaves ! (if even i then i + 1 else i - 1) # merkle_branch sha (merkle_level sha leaves) (i div 2)
      else [])"
  by pat_completeness auto
termination
  by (relation "measure (\<lambda>(sha, leaves, i). length leaves)") (auto simp: length_merkle_level)

declare merkle_branch.simps [simp del]

lemma merkle_branch_complete:
  assumes "i < length leaves" "length leaves \<le> 2 ^ 32"
  shows "compute_merkle_root sha (leaves ! i) (merkle_branch sha leaves i) (word_of_nat i) =
    merkle_loop sha leaves"
  using assms
proof (induction sha leaves i rule: merkle_branch.induct)
  case (1 sha leaves i)
  show ?case
  proof (cases "length leaves > 1")
    case False
    then have "i = 0" using 1(2) by simp
    then show ?thesis using False by (simp add: merkle_branch.simps merkle_loop.simps)
  next
    case True
    have u: "unat (word_of_nat i :: u32) = i" using 1(2,3) by (intro unat_word_of_nat_small) simp
    have e: "(word_of_nat i :: u32) AND 1 = 0 \<longleftrightarrow> even i"
      unfolding word_unat_eq_iff unsigned_and_eq u by (simp add: and_one_eq even_iff_mod_2_eq_zero)
    have s: "drop_bit 1 (word_of_nat i :: u32) = word_of_nat (i div 2)"
    proof -
      have "unat (drop_bit 1 (word_of_nat i :: u32)) = i div 2"
        unfolding unat_drop_bit_eq u by (simp add: drop_bit_eq_div)
      moreover have "unat (word_of_nat (i div 2) :: u32) = i div 2"
        using 1(2,3) by (intro unat_word_of_nat_small) simp
      ultimately show ?thesis by (simp add: word_unat_eq_iff)
    qed
    have k: "i div 2 < length (padded leaves) div 2" using 1(2) by (simp add: length_padded)
    have n: "merkle_level sha leaves ! (i div 2) =
        sha256d sha (if even i then leaves ! i @ padded leaves ! (i + 1) else padded leaves ! (i - 1) @ leaves ! i)"
      using nth_hash_pairs [OF even_padded k, of sha] nth_padded [OF 1(2)]
      by (auto simp: merkle_level_padded elim!: evenE oddE)
    have "compute_merkle_root sha (merkle_level sha leaves ! (i div 2))
        (merkle_branch sha (merkle_level sha leaves) (i div 2)) (word_of_nat (i div 2)) =
        merkle_loop sha (merkle_level sha leaves)"
      using 1(1) [OF True] 1(2,3) by (simp add: length_merkle_level)
    then show ?thesis
      using True n s e
      by (cases "even i") (simp_all add: merkle_branch.simps [of sha leaves] merkle_loop.simps [of sha leaves])
  qed
qed

lemma length_merkle_branch: "length leaves \<le> 2 ^ k \<Longrightarrow> length (merkle_branch sha leaves i) \<le> k"
proof (induction k arbitrary: leaves i)
  case (Suc k)
  then have "length (merkle_level sha leaves) \<le> 2 ^ k" by (simp add: length_merkle_level)
  then show ?case using Suc.IH by (simp add: merkle_branch.simps [of sha leaves])
qed (simp add: merkle_branch.simps)

lemma merkle_loop_duplicate:
  assumes "odd (length leaves)" "length leaves > 1"
  shows "merkle_loop sha (leaves @ [last leaves]) = merkle_loop sha leaves"
proof -
  have "merkle_level sha (leaves @ [last leaves]) = merkle_level sha leaves"
    using assms by (simp add: merkle_level_def)
  moreover have "leaves \<noteq> []" using assms by auto
  ultimately show ?thesis
    using assms by (simp add: merkle_loop.simps [of sha leaves] merkle_loop.simps [of sha "leaves @ _"])
qed

section \<open>Properties\<close>

text \<open>
  The 80-byte header codec is a bijection at every height and on both sides of the byte-order
  fork: a header reads back from its own bytes whatever follows them, and every header read
  re-serialises to exactly the 80 bytes it was read from. The previous-block hash can be read without
  knowing the height.
\<close>

lemma header_codec_exact:
  "(typed_header h \<longrightarrow>
     deserialize_for_height act (serialize_for_height act h height @ rest) height = Inr (h, 80) \<and>
     peek_prev_hash (serialize_for_height act h height @ rest) = Inr (hdr_prev_hash h)) \<and>
   (deserialize_for_height act raw height = Inr (h', off) \<longrightarrow>
     typed_header h' \<and> off = 80 \<and> serialize_for_height act h' height = take 80 raw)"
  using deserialize_header_serialize [of h height act rest] deserialize_with_activation_Inr [of raw height act h' off]
  by (auto simp: deserialize_for_height_def serialize_for_height_def peek_prev_hash_def
      serialize_with_activation_def typed_header_def slice_def)

definition sample_header :: BlockHeader where
  "sample_header = \<lparr>hdr_version = 1, hdr_prev_hash = replicate 32 1, hdr_merkle_root = replicate 32 2,
     hdr_time = 3, hdr_bits = 4, hdr_nonce = 5\<rparr>"

text \<open>
  C31. Blocks round trip: at any height, a block with wire-sized transactions and no receipts, whose
  AuxPoW extension is present exactly when its version bit is set and AuxPoW is active, is read back
  from its serialisation unchanged and completely. No transaction can be mistaken for the start of a
  receipt section.
\<close>

theorem block_roundtrip:
  assumes "typed_header (header b)" "list_all wire_tx (transactions b)" "poawx_receipts b = None"
    and "buffer_ok (serialize_block_for_height ops act b height)"
    and "auxpow b \<noteq> None \<longleftrightarrow> hdr_version (header b) AND 0x100 \<noteq> 0 \<and> height \<ge> 24800"
    and "\<And>ap. auxpow b = Some ap \<Longrightarrow> wire_auxpow ap"
  shows "deserialize_block_for_height ops act (serialize_block_for_height ops act b height) height =
    Inr (b, length (serialize_block_for_height ops act b height))"
proof -
  define tail where "tail = concat (map serialize_tx (transactions b))"
  define raw where "raw = serialize_block_for_height ops act b height"
  define aux where "aux = (case auxpow b of Some ap \<Rightarrow> serialize_auxpow ap | None \<Rightarrow> [])"
  have raw: "raw = serialize_for_height act (header b) height @ aux @ tail"
    using assms(3) by (simp add: raw_def serialize_block_for_height_def serialize_receipt_section_def
        aux_def tail_def)
  have h: "deserialize_for_height act raw height = Inr (header b, 80)"
    unfolding raw deserialize_for_height_def serialize_for_height_def
    by (rule deserialize_header_serialize [OF assms(1)])
  have l: "80 \<le> length raw" and d80: "drop 80 raw = aux @ tail"
    using length_serialize_with_activation [OF assms(1), of height act] by (simp_all add: raw serialize_for_height_def)
  have body: "parse_block_body ops raw (80 + length aux) = Inr ((transactions b, None), length raw)"
  proof (rule parse_block_body_txs [OF assms(2)])
    show "buffer_ok raw" using assms(4) by (simp add: raw_def)
    have "length (drop 80 raw) = length aux + length tail" unfolding d80 by simp
    then show "80 + length aux \<le> length raw" using l by simp
    show "drop (80 + length aux) raw = concat (map serialize_tx (transactions b))"
      using drop_eq_append_slice(2) [OF d80] by (simp add: tail_def)
  qed
  show ?thesis
  proof (cases "auxpow b")
    case None
    then show ?thesis
      using h body assms(3,5) unfolding raw_def [symmetric]
      by (auto simp: deserialize_block_for_height_def reached_def aux_def)
  next
    case (Some ap)
    then have "deserialize_auxpow raw 80 = Inr (ap, 80 + length aux)"
      using auxpow_codec.dec_enc [OF assms(6) [OF Some] _ l, of tail] d80 assms(4)
      by (simp add: aux_def raw_def)
    then show ?thesis
      using h body assms(3,5) Some unfolding raw_def [symmetric]
      by (simp add: deserialize_block_for_height_def reached_def)
  qed
qed


definition sample_block :: "unit Block" where
  "sample_block = \<lparr>header = sample_header, transactions = [sample_tx], auxpow = None, poawx_receipts = None\<rparr>"

definition no_receipts :: "unit receipt_ops" where
  "no_receipts = \<lparr>has_phase20_ext = (\<lambda>_. False), has_delegation = (\<lambda>_. False), ser_v1 = (\<lambda>_. []),
     ser_v2 = (\<lambda>_. []), ser_v3 = (\<lambda>_. []), de_v1 = (\<lambda>_. Inl Panic), de_v2 = (\<lambda>_. Inl Panic),
     de_v3 = (\<lambda>_. Inl Panic)\<rparr>"

theorem block_roundtrip_witness:
  "deserialize_block_for_height no_receipts 22888
      (serialize_block_for_height no_receipts 22888 sample_block 30000) 30000 =
     Inr (sample_block, length (serialize_block_for_height no_receipts 22888 sample_block 30000))"
  by (rule block_roundtrip)
    (simp_all add: sample_block_def sample_header_def typed_header_def sample_tx_ok
      serialize_block_for_height_def serialize_receipt_section_def serialize_for_height_def
      serialize_with_activation_def serialize_tx_def serialize_input_def serialize_output_def
      write_varint_def sample_tx_def wire_tx_def wire_input_def wire_output_def)

text \<open>
  C32. Every transaction of a block has an inclusion proof: the siblings on the path from leaf
  \<open>i\<close> recompute exactly the block's Merkle root with the branch evaluator that AuxPoW and SPV
  proofs use, and for a block of at most \<open>2 ^ k\<close> transactions the proof has at most
  \<open>k\<close> hashes.
\<close>

theorem merkle_inclusion:
  fixes sha :: "bytes \<Rightarrow> bytes" and b :: "'r Block"
  assumes "i < length (transactions b)" "length (transactions b) \<le> 2 ^ k" "k \<le> 32"
  defines "leaves \<equiv> map (\<lambda>tx. rev (txid sha tx)) (transactions b)"
  shows "compute_merkle_root sha (rev (txid sha (transactions b ! i))) (merkle_branch sha leaves i)
      (word_of_nat i) = merkle_root sha b \<and> length (merkle_branch sha leaves i) \<le> k"
proof -
  have "(2::nat) ^ k \<le> 2 ^ 32" using assms(3) by (intro power_increasing) auto
  then have "length leaves \<le> 2 ^ 32" using assms(2) by (simp add: leaves_def)
  moreover have "transactions b \<noteq> []" using assms(1) by auto
  ultimately show ?thesis
    using merkle_branch_complete [of i leaves sha] length_merkle_branch [of leaves k sha i] assms(1,2)
    by (simp add: leaves_def merkle_root_def)
qed

theorem merkle_inclusion_witness:
  "compute_merkle_root toy_sha (rev (txid toy_sha sample_tx)) (merkle_branch toy_sha [rev (txid toy_sha sample_tx)] 0) 0 =
     merkle_root toy_sha sample_block"
  using merkle_inclusion [of 0 sample_block 1 toy_sha] by (simp add: sample_block_def)

text \<open>
  The Merkle root does not determine the transaction list: a block with an odd number of
  transactions, three or more, has the same root as the block with its last transaction repeated.
\<close>

lemma merkle_root_duplicate:
  assumes "odd (length (transactions b))" "length (transactions b) > 1"
  shows "merkle_root sha (b\<lparr>transactions := transactions b @ [last (transactions b)]\<rparr>) = merkle_root sha b"
proof -
  have "transactions b \<noteq> []" using assms by auto
  then show ?thesis
    using merkle_loop_duplicate [of "map (\<lambda>tx. rev (txid sha tx)) (transactions b)" sha] assms
    by (simp add: merkle_root_def last_map)
qed

end
