(* ===== verification/BtcSpv.thy ===== *)
theory BtcSpv
  imports Pow Activation
begin

text \<open>
  The relay of Bitcoin headers kept in consensus state (\<open>src/src/btc_spv.rs\<close>): headers and header
  batches, accumulated work, the retarget rule, median time past, the validation and application of
  a batch, and its undo record. The four mutable arguments of the source (headers, heights, tip and
  tip height) are the record \<open>BtcRelay\<close>; a batch that is rejected returns no state. The walk to
  the first header of a retarget window takes fuel: 2,017 steps are enough in every state in which a header's height
  is its parent's plus one, which the relay keeps. Hex decoding is a package outside the repository
  and is the parameter \<open>hex_decode\<close>.
\<close>

section \<open>Definitions\<close>

abbreviation (input) BTC_HEADER_BATCH_TAG :: u8 where "BTC_HEADER_BATCH_TAG \<equiv> 0xc4"
abbreviation (input) BTC_HEADER_BATCH_VERSION :: u8 where "BTC_HEADER_BATCH_VERSION \<equiv> 0x01"
abbreviation (input) BTC_HEADER_BYTES :: nat where "BTC_HEADER_BYTES \<equiv> 80"
abbreviation (input) MAX_BTC_HEADERS_PER_BATCH :: u16 where "MAX_BTC_HEADERS_PER_BATCH \<equiv> 2016"
abbreviation (input) BTC_RETARGET_INTERVAL :: u64 where "BTC_RETARGET_INTERVAL \<equiv> 2016"
abbreviation (input) BTC_EXPECTED_TIMESPAN :: u32 where "BTC_EXPECTED_TIMESPAN \<equiv> 14 * 24 * 3600"
abbreviation (input) BTC_MTP_WINDOW :: nat where "BTC_MTP_WINDOW \<equiv> 11"
abbreviation (input) BTC_MAX_FUTURE_TIME_SECS :: u32 where
  "BTC_MAX_FUTURE_TIME_SECS \<equiv> 2 * 60 * 60"
abbreviation (input) BTC_MAX_TARGET_BITS :: u32 where "BTC_MAX_TARGET_BITS \<equiv> 0x1d00ffff"

text \<open>The \<open>i32\<close> version is kept as its 32 bits.\<close>

record BtcHeader =
  bh_version :: u32
  bh_prev_hash :: bytes
  bh_merkle_root :: bytes
  bh_time :: u32
  bh_bits :: u32
  bh_nonce :: u32

definition btc_serialize :: "BtcHeader \<Rightarrow> bytes" where
  "btc_serialize h =
     u32_le (bh_version h) @ bh_prev_hash h @ bh_merkle_root h @ u32_le (bh_time h) @
     u32_le (bh_bits h) @ u32_le (bh_nonce h)"

definition btc_deserialize :: "bytes \<Rightarrow> err + BtcHeader" where
  "btc_deserialize bs =
     (if length bs \<noteq> BTC_HEADER_BYTES then Inl (Err ''btc header must be exactly 80 bytes'')
      else Inr \<lparr>bh_version = le_u32 (slice bs 0 4), bh_prev_hash = slice bs 4 36,
                bh_merkle_root = slice bs 36 68, bh_time = le_u32 (slice bs 68 72),
                bh_bits = le_u32 (slice bs 72 76), bh_nonce = le_u32 (slice bs 76 80)\<rparr>)"

definition btc_block_hash :: "(bytes \<Rightarrow> bytes) \<Rightarrow> BtcHeader \<Rightarrow> bytes" where
  "btc_block_hash sha h = sha256d sha (btc_serialize h)"

record BtcHeaderEntry =
  be_header :: BtcHeader
  be_height :: u64
  be_total_work :: nat

record BtcAnchor =
  an_hash :: bytes
  an_height :: u64
  an_bits :: u32
  an_time :: u32

definition btc_anchor_zero :: BtcAnchor where
  "btc_anchor_zero = \<lparr>an_hash = replicate 32 0, an_height = 0, an_bits = 0, an_time = 0\<rparr>"

definition btc_anchor_is_zero :: "BtcAnchor \<Rightarrow> bool" where
  "btc_anchor_is_zero a \<longleftrightarrow>
     an_hash a = replicate 32 0 \<and> an_height a = 0 \<and> an_bits a = 0 \<and> an_time a = 0"

record BtcSpvParams =
  bp_activation_height :: u64
  bp_anchor :: BtcAnchor

text \<open>
  Numbers read from the environment: \<open>parse::<u32>\<close> and \<open>u32::from_str_radix(_, 16)\<close> accept an
  optional plus sign and at least one digit, and fail on overflow.
\<close>

definition digit_value :: "nat \<Rightarrow> char \<Rightarrow> nat option" where
  "digit_value radix c =
     (let n = (of_char c :: nat);
          v = (if 48 \<le> n \<and> n \<le> 57 then n - 48
               else if 97 \<le> n \<and> n \<le> 122 then n - 87
               else if 65 \<le> n \<and> n \<le> 90 then n - 55 else radix)
      in if v < radix then Some v else None)"

fun parse_radix :: "nat \<Rightarrow> nat \<Rightarrow> string \<Rightarrow> nat option" where
  "parse_radix radix acc [] = Some acc"
| "parse_radix radix acc (c # cs) =
     (case digit_value radix c of
        None \<Rightarrow> None
      | Some v \<Rightarrow>
          if acc * radix + v \<ge> 2 ^ 32 then None else parse_radix radix (acc * radix + v) cs)"

definition parse_u32 :: "nat \<Rightarrow> string \<Rightarrow> u32 option" where
  "parse_u32 radix s =
     (let ds = (case s of c # cs \<Rightarrow> if c = CHR ''+'' then cs else s | [] \<Rightarrow> s)
      in if ds = [] then None else map_option word_of_nat (parse_radix radix 0 ds))"

text \<open>The anchor variables of a network, \<open>chain\<close> being \<open>BTC\<close> or \<open>LTC\<close> in their names.\<close>

definition env_anchor :: "(string \<Rightarrow> bytes option) \<Rightarrow> environ \<Rightarrow> string \<Rightarrow> BtcAnchor option" where
  "env_anchor hex_decode env chain =
     Option.bind (env_height env (''IRIUM_'' @ chain @ ''_ANCHOR_HEIGHT'')) (\<lambda>height.
     Option.bind (env (''IRIUM_'' @ chain @ ''_ANCHOR_HASH'')) (\<lambda>hash_str.
     Option.bind (hex_decode (trim hash_str)) (\<lambda>hash_bytes.
     if length hash_bytes \<noteq> 32 then None
     else
       Option.bind (env (''IRIUM_'' @ chain @ ''_ANCHOR_BITS'')) (\<lambda>bits_str.
       let bits_trim = trim bits_str
       in Option.bind (if take 2 bits_trim = ''0x'' then parse_u32 16 (drop 2 bits_trim)
                       else parse_u32 10 bits_trim) (\<lambda>abits.
       Option.bind (Option.bind (env (''IRIUM_'' @ chain @ ''_ANCHOR_TIME''))
                      (\<lambda>v. parse_u32 10 (trim v))) (\<lambda>t.
         Some \<lparr>an_hash = rev hash_bytes, an_height = height, an_bits = abits, an_time = t\<rparr>))))))"

definition MAINNET_BTC_ANCHOR :: BtcAnchor where
  "MAINNET_BTC_ANCHOR =
     \<lparr>an_hash = [0x80, 0x28, 0xca, 0x5c, 0xec, 0x82, 0x20, 0xcf, 0x1d, 0xfd, 0x2a, 0x9c, 0x9a, 0x96, 0x07, 0x05,
        0x40, 0x3c, 0x3c, 0x28, 0x17, 0x0b, 0x01, 0x00, 0x00, 0x00, 0x00, 0x00, 0x00, 0x00, 0x00, 0x00],
      an_height = 880000, an_bits = 0x17028c61, an_time = 1737337343\<rparr>"

definition resolve_btc_spv_params ::
  "(string \<Rightarrow> bytes option) \<Rightarrow> environ \<Rightarrow> NetworkKind \<Rightarrow> BtcSpvParams option" where
  "resolve_btc_spv_params hex_decode env network =
     Option.bind (resolved_btc_spv_relay_activation_height env network) (\<lambda>activation_height.
     Option.bind
       (if network = Mainnet then
          (if btc_anchor_is_zero MAINNET_BTC_ANCHOR then None else Some MAINNET_BTC_ANCHOR)
        else env_anchor hex_decode env ''BTC'') (\<lambda>anchor.
       Some \<lparr>bp_activation_height = activation_height, bp_anchor = anchor\<rparr>))"

record BtcRelayUpdate =
  ru_tip_before :: "bytes option"
  ru_tip_height_before :: u64
  ru_headers_added :: "bytes list"

definition encode_btc_header_batch :: "BtcHeader list \<Rightarrow> err + bytes" where
  "encode_btc_header_batch hs =
     (if hs = [] then Inl (Err ''btc header batch: empty'')
      else if length hs > unat MAX_BTC_HEADERS_PER_BATCH then
        Inl (Err ''btc header batch: headers exceeds max'')
      else Inr ([BTC_HEADER_BATCH_TAG, BTC_HEADER_BATCH_VERSION] @
             u16_le (word_of_nat (length hs)) @ concat (map btc_serialize hs)))"

definition read_btc_header :: "bytes \<Rightarrow> nat \<Rightarrow> err + BtcHeader \<times> nat" where
  "read_btc_header script start =
     bindE (btc_deserialize (slice script start (start + BTC_HEADER_BYTES)))
       (\<lambda>h. Inr (h, start + BTC_HEADER_BYTES))"

definition parse_btc_header_batch :: "bytes \<Rightarrow> err + BtcHeader list" where
  "parse_btc_header_batch script =
     (if length script < 4 then Inl (Err ''btc header batch: script too short'')
      else if script ! 0 \<noteq> BTC_HEADER_BATCH_TAG then Inl (Err ''btc header batch: wrong tag'')
      else if script ! 1 \<noteq> BTC_HEADER_BATCH_VERSION then
        Inl (Err ''btc header batch: unknown version'')
      else
        let count = unat (le_u16 [script ! 2, script ! 3])
        in if count = 0 \<or> count > unat MAX_BTC_HEADERS_PER_BATCH then
             Inl (Err ''btc header batch: count out of range'')
           else if length script \<noteq> 4 + BTC_HEADER_BYTES * count then
             Inl (Err ''btc header batch: wrong size'')
           else bindE (read_many count read_btc_header script 4) (\<lambda>(hs, _). Inr hs))"

definition work_for_bits :: "u32 \<Rightarrow> nat" where
  "work_for_bits b = 2 ^ 256 div (to_target (Target b) + 1)"

definition btc_max_target :: nat where
  "btc_max_target = to_target (Target BTC_MAX_TARGET_BITS)"

definition target_to_compact_bits :: "nat \<Rightarrow> u32" where
  "target_to_compact_bits target =
     (if target = 0 then 0
      else
        let bs = to_bytes_be target;
            size = length bs;
            compact =
              (if size \<le> 3 then
                 push_bit (8 * (3 - size)) (foldl (\<lambda>v b. push_bit 8 v OR (ucast b :: u32)) 0 bs)
               else push_bit 16 (ucast (bs ! 0)) OR push_bit 8 (ucast (bs ! 1)) OR
                 (ucast (bs ! 2) :: u32));
            (compact, size) =
              (if compact AND 0x00800000 \<noteq> 0 then (drop_bit 8 compact, size + 1)
               else (compact, size))
        in compact OR push_bit 24 (word_of_nat size :: u32))"

text \<open>Committed headers and the headers staged earlier in the same batch, in the order staged.\<close>

type_synonym LookupView =
  "(bytes \<rightharpoonup> BtcHeaderEntry) \<times> (bytes \<times> BtcHeaderEntry) list"

fun lookup_get :: "LookupView \<Rightarrow> bytes \<Rightarrow> BtcHeaderEntry option" where
  "lookup_get (committed, staged) h =
     (case committed h of Some e \<Rightarrow> Some e | None \<Rightarrow> map_of (rev staged) h)"

fun mtp_times :: "nat \<Rightarrow> bytes \<Rightarrow> LookupView \<Rightarrow> BtcAnchor \<Rightarrow> u32 list" where
  "mtp_times 0 cur view anchor = []"
| "mtp_times (Suc n) cur view anchor =
     (if cur = an_hash anchor then [an_time anchor]
      else case lookup_get view cur of
             Some e \<Rightarrow> bh_time (be_header e) # mtp_times n (bh_prev_hash (be_header e)) view anchor
           | None \<Rightarrow> [])"

definition median_time_past_v :: "bytes \<Rightarrow> LookupView \<Rightarrow> BtcAnchor \<Rightarrow> u32" where
  "median_time_past_v parent_hash view anchor =
     (let times = mtp_times BTC_MTP_WINDOW parent_hash view anchor
      in if times = [] then 0 else sort times ! (length times div 2))"

fun retarget_walk :: "nat \<Rightarrow> bytes \<Rightarrow> u64 \<Rightarrow> LookupView \<Rightarrow> BtcAnchor \<Rightarrow> err + u32" where
  "retarget_walk 0 cur target_height view anchor = Inl OutOfFuel"
| "retarget_walk (Suc fuel) cur target_height view anchor =
     (if cur = an_hash anchor then
        Inl (Err ''retarget walk: reached anchor without finding target height'')
      else
        case lookup_get view cur of
          None \<Rightarrow> Inl (Err ''retarget walk: missing header in chain'')
        | Some entry \<Rightarrow>
            if be_height entry = target_height then Inr (bh_time (be_header entry))
            else if be_height entry < target_height then
              Inl (Err ''retarget walk: walked past target height'')
            else retarget_walk fuel (bh_prev_hash (be_header entry)) target_height view anchor)"

definition find_ancestor_time_at_height_v ::
  "bytes \<Rightarrow> u64 \<Rightarrow> LookupView \<Rightarrow> BtcAnchor \<Rightarrow> err + u32" where
  "find_ancestor_time_at_height_v parent_hash target_height view anchor =
     (if target_height = an_height anchor then Inr (an_time anchor)
      else retarget_walk 2017 parent_hash target_height view anchor)"

abbreviation (input) before_anchor :: err where
  "before_anchor \<equiv> Err ''expected_bits: retarget window reaches before anchor''"

definition parent_bits_time :: "bytes \<Rightarrow> LookupView \<Rightarrow> BtcAnchor \<Rightarrow> err + u32 \<times> u32" where
  "parent_bits_time parent_hash view anchor =
     (if parent_hash = an_hash anchor then Inr (an_bits anchor, an_time anchor)
      else case lookup_get view parent_hash of
             None \<Rightarrow> Inl (Err ''expected_bits: parent unknown'')
           | Some e \<Rightarrow> Inr (bh_bits (be_header e), bh_time (be_header e)))"

definition retarget :: "u32 \<Rightarrow> u32 \<Rightarrow> u32 \<Rightarrow> u32" where
  "retarget parent_bits parent_time first_time =
     (let actual_timespan = sat_sub parent_time first_time;
          min_ts = BTC_EXPECTED_TIMESPAN div 4;
          max_ts = sat_mul BTC_EXPECTED_TIMESPAN 4;
          actual_timespan = (if actual_timespan < min_ts then min_ts else actual_timespan);
          actual_timespan = (if actual_timespan > max_ts then max_ts else actual_timespan);
          parent_target = to_target (Target parent_bits);
          new_target = parent_target * unat actual_timespan div unat BTC_EXPECTED_TIMESPAN;
          max_target = btc_max_target;
          final_target = (if new_target > max_target then max_target else new_target)
      in target_to_compact_bits final_target)"

definition expected_bits_for_v :: "u64 \<Rightarrow> bytes \<Rightarrow> LookupView \<Rightarrow> BtcAnchor \<Rightarrow> err + u32" where
  "expected_bits_for_v height parent_hash view anchor =
     (if height = 0 then Inl (Err ''expected_bits: height 0 has no parent'')
      else
        bindE (parent_bits_time parent_hash view anchor) (\<lambda>(parent_bits, parent_time).
        if height mod BTC_RETARGET_INTERVAL \<noteq> 0 then Inr parent_bits
        else
          let first_height = height - BTC_RETARGET_INTERVAL
          in if first_height < an_height anchor then Inl before_anchor
             else
               bindE (find_ancestor_time_at_height_v parent_hash first_height view anchor)
                 (\<lambda>first_time. Inr (retarget parent_bits parent_time first_time))))"

text \<open>The relay state, and the state of the loop that stages the headers of a batch.\<close>

record BtcRelay =
  rl_headers :: "bytes \<rightharpoonup> BtcHeaderEntry"
  rl_heights :: "bytes \<rightharpoonup> u64"
  rl_tip :: "bytes option"
  rl_tip_height :: u64

record StageState =
  st_prev_hash :: bytes
  st_prev_height :: u64
  st_prev_work :: nat
  st_staged :: "(bytes \<times> BtcHeaderEntry) list"

definition batch_start ::
  "string \<Rightarrow> (bytes \<rightharpoonup> BtcHeaderEntry) \<Rightarrow> BtcAnchor \<Rightarrow> BtcHeader \<Rightarrow> err + u64 \<times> nat" where
  "batch_start msg committed anchor first =
     (if bh_prev_hash first = an_hash anchor then Inr (an_height anchor, work_for_bits (an_bits anchor))
      else case committed (bh_prev_hash first) of
             None \<Rightarrow> Inl (Err msg)
           | Some parent \<Rightarrow> Inr (be_height parent, be_total_work parent))"

fun all_known_and_matching ::
  "(bytes \<Rightarrow> bytes) \<Rightarrow> (bytes \<rightharpoonup> BtcHeaderEntry) \<Rightarrow> BtcHeader list \<Rightarrow> bytes \<Rightarrow> u64 \<Rightarrow> bool" where
  "all_known_and_matching sha committed [] prev_hash prev_height = True"
| "all_known_and_matching sha committed (header # hs) prev_hash prev_height =
     (if bh_prev_hash header \<noteq> prev_hash then False
      else
        let expected_height = prev_height + 1; h = btc_block_hash sha header
        in case committed h of
             None \<Rightarrow> False
           | Some entry \<Rightarrow>
               if be_height entry \<noteq> expected_height \<or> be_header entry \<noteq> header then False
               else all_known_and_matching sha committed hs h expected_height)"

fun known_prefix ::
  "(bytes \<Rightarrow> bytes) \<Rightarrow> (bytes \<rightharpoonup> BtcHeaderEntry) \<Rightarrow> BtcHeader list \<Rightarrow> bytes \<Rightarrow> u64 \<Rightarrow> nat \<Rightarrow>
    nat \<times> bytes \<times> u64 \<times> nat" where
  "known_prefix sha committed [] prev_hash prev_height prev_work = (0, prev_hash, prev_height, prev_work)"
| "known_prefix sha committed (header # hs) prev_hash prev_height prev_work =
     (if bh_prev_hash header \<noteq> prev_hash then (0, prev_hash, prev_height, prev_work)
      else
        let expected_height = prev_height + 1; h = btc_block_hash sha header
        in case committed h of
             None \<Rightarrow> (0, prev_hash, prev_height, prev_work)
           | Some entry \<Rightarrow>
               if be_height entry \<noteq> expected_height \<or> be_header entry \<noteq> header
               then (0, prev_hash, prev_height, prev_work)
               else case known_prefix sha committed hs h expected_height (be_total_work entry) of
                      (n, stop) \<Rightarrow> (Suc n, stop))"

definition stage_btc_header ::
  "(bytes \<Rightarrow> bytes) \<Rightarrow> BtcAnchor \<Rightarrow> u32 \<Rightarrow> (bytes \<rightharpoonup> BtcHeaderEntry) \<Rightarrow> BtcHeader \<Rightarrow> StageState \<Rightarrow>
    err + StageState" where
  "stage_btc_header sha anchor iriumd_block_time committed header st =
     bindE (ensure (bh_prev_hash header = st_prev_hash st)
       (Err ''apply_btc_header_batch: header does not link to previous'')) (\<lambda>_.
     let height = st_prev_height st + 1;
         h = btc_block_hash sha header;
         header_target = Target (bh_bits header);
         view = (committed, st_staged st)
     in
     bindE (ensure (committed h = None)
       (Err ''apply_btc_header_batch: header already known in chain state'')) (\<lambda>_.
     bindE (ensure (h \<notin> fst ` set (st_staged st))
       (Err ''apply_btc_header_batch: header duplicated within batch'')) (\<lambda>_.
     bindE (ensure (meets_target_btc h header_target)
       (Err ''apply_btc_header_batch: header fails PoW'')) (\<lambda>_.
     bindE (case expected_bits_for_v height (st_prev_hash st) view anchor of
              Inr b \<Rightarrow> Inr (Some b)
            | Inl e \<Rightarrow> if e = before_anchor then Inr None else Inl e) (\<lambda>expected_bits_opt.
     let mtp = median_time_past_v (st_prev_hash st) view anchor
     in
     bindE (case expected_bits_opt of
              Some expected_bits \<Rightarrow>
                ensure (to_target header_target = to_target (Target expected_bits))
                  (Err ''apply_btc_header_batch: header bits mismatch'')
            | None \<Rightarrow> Inr ()) (\<lambda>_.
     bindE (ensure (\<not> bh_time header \<le> mtp)
       (Err ''apply_btc_header_batch: header time not above MTP'')) (\<lambda>_.
     bindE (ensure (\<not> bh_time header > sat_add iriumd_block_time BTC_MAX_FUTURE_TIME_SECS)
       (Err ''apply_btc_header_batch: header time more than 2h ahead of iriumd block time'')) (\<lambda>_.
     let work = st_prev_work st + work_for_bits (bh_bits header)
     in Inr \<lparr>st_prev_hash = h, st_prev_height = height, st_prev_work = work,
             st_staged = st_staged st @
               [(h, \<lparr>be_header = header, be_height = height, be_total_work = work\<rparr>)]\<rparr>))))))))"

text \<open>The committed state once every header of the batch is staged.\<close>

definition tip_work :: "BtcAnchor \<Rightarrow> (bytes \<rightharpoonup> BtcHeaderEntry) \<Rightarrow> bytes option \<Rightarrow> nat" where
  "tip_work anchor headers tip =
     (case tip of
        Some h \<Rightarrow> (case headers h of Some e \<Rightarrow> be_total_work e | None \<Rightarrow> 0)
      | None \<Rightarrow> work_for_bits (an_bits anchor))"

definition commit_staged ::
  "BtcAnchor \<Rightarrow> BtcRelay \<Rightarrow> (bytes \<times> BtcHeaderEntry) list \<Rightarrow> BtcRelay \<times> BtcRelayUpdate" where
  "commit_staged anchor r staged =
     (let tip_before = rl_tip r;
          tip_height_before = rl_tip_height r;
          (final_hash, final_entry) = last staged;
          headers = foldl (\<lambda>m (h, e). m(h \<mapsto> e)) (rl_headers r) staged;
          heights = foldl (\<lambda>m (h, e). m(h \<mapsto> be_height e)) (rl_heights r) staged;
          current_tip_work = tip_work anchor headers tip_before;
          switch = (be_total_work final_entry > current_tip_work)
      in (\<lparr>rl_headers = headers, rl_heights = heights,
           rl_tip = (if switch then Some final_hash else tip_before),
           rl_tip_height = (if switch then be_height final_entry else tip_height_before)\<rparr>,
          \<lparr>ru_tip_before = tip_before, ru_tip_height_before = tip_height_before,
           ru_headers_added = map fst staged\<rparr>))"

definition no_update :: "BtcRelay \<Rightarrow> BtcRelayUpdate" where
  "no_update r = \<lparr>ru_tip_before = rl_tip r, ru_tip_height_before = rl_tip_height r,
                  ru_headers_added = []\<rparr>"

definition apply_btc_header_batch ::
  "(bytes \<Rightarrow> bytes) \<Rightarrow> BtcHeader list \<Rightarrow> u32 \<Rightarrow> BtcRelay \<Rightarrow> BtcAnchor \<Rightarrow>
    err + BtcRelay \<times> BtcRelayUpdate" where
  "apply_btc_header_batch sha hs iriumd_block_time r anchor =
     (if hs = [] then Inl (Err ''apply_btc_header_batch: empty batch'')
      else if btc_anchor_is_zero anchor then
        Inl (Err ''apply_btc_header_batch: anchor not configured'')
      else
        bindE (batch_start ''apply_btc_header_batch: first header does not connect to known chain''
                 (rl_headers r) anchor (hd hs)) (\<lambda>(start_prev_height, start_prev_work).
        if all_known_and_matching sha (rl_headers r) hs (bh_prev_hash (hd hs)) start_prev_height
        then Inr (r, no_update r)
        else
          case known_prefix sha (rl_headers r) hs (bh_prev_hash (hd hs)) start_prev_height
                 start_prev_work of
            (n, prefix_prev_hash, prefix_prev_height, prefix_prev_work) \<Rightarrow>
              if n = length hs then Inr (r, no_update r)
              else if n > 0 \<and> prefix_prev_height < rl_tip_height r then
                Inl (Err ''apply_btc_header_batch: known prefix followed by non-tip fork'')
              else
                bindE (foldE (stage_btc_header sha anchor iriumd_block_time (rl_headers r)) (drop n hs)
                        \<lparr>st_prev_hash = prefix_prev_hash, st_prev_height = prefix_prev_height,
                         st_prev_work = prefix_prev_work, st_staged = []\<rparr>)
                  (\<lambda>st. Inr (commit_staged anchor r (st_staged st)))))"

definition undo_btc_relay_update :: "BtcRelayUpdate \<Rightarrow> BtcRelay \<Rightarrow> BtcRelay" where
  "undo_btc_relay_update update r =
     \<lparr>rl_headers = foldl (\<lambda>m h. m(h := None)) (rl_headers r) (ru_headers_added update),
      rl_heights = foldl (\<lambda>m h. m(h := None)) (rl_heights r) (ru_headers_added update),
      rl_tip = ru_tip_before update, rl_tip_height = ru_tip_height_before update\<rparr>"

section \<open>Staged headers\<close>

text \<open>
  The chain a header extends: the anchor, or a header of the relay, with its height and its
  accumulated work.
\<close>

definition parent_ok :: "BtcAnchor \<Rightarrow> (bytes \<rightharpoonup> BtcHeaderEntry) \<Rightarrow> bytes \<Rightarrow> u64 \<Rightarrow> nat \<Rightarrow> bool" where
  "parent_ok anchor m p ht w \<longleftrightarrow>
     p = an_hash anchor \<and> ht = an_height anchor \<and> w = work_for_bits (an_bits anchor) \<or>
     (\<exists>e. m p = Some e \<and> ht = be_height e \<and> w = be_total_work e)"

definition entry_ok ::
  "(bytes \<Rightarrow> bytes) \<Rightarrow> BtcAnchor \<Rightarrow> (bytes \<rightharpoonup> BtcHeaderEntry) \<Rightarrow> bytes \<Rightarrow> BtcHeaderEntry \<Rightarrow> bool" where
  "entry_ok sha anchor m h e \<longleftrightarrow>
     h = btc_block_hash sha (be_header e) \<and>
     (\<exists>ht w. parent_ok anchor m (bh_prev_hash (be_header e)) ht w \<and> be_height e = ht + 1 \<and>
        be_total_work e = w + work_for_bits (bh_bits (be_header e)))"

definition headers_ok :: "(bytes \<Rightarrow> bytes) \<Rightarrow> BtcAnchor \<Rightarrow> (bytes \<rightharpoonup> BtcHeaderEntry) \<Rightarrow> bool" where
  "headers_ok sha anchor m \<longleftrightarrow> (\<forall>h e. m h = Some e \<longrightarrow> entry_ok sha anchor m h e)"

definition relay_ok :: "(bytes \<Rightarrow> bytes) \<Rightarrow> BtcAnchor \<Rightarrow> BtcRelay \<Rightarrow> bool" where
  "relay_ok sha anchor r \<longleftrightarrow>
     headers_ok sha anchor (rl_headers r) \<and>
     rl_heights r = (\<lambda>h. map_option be_height (rl_headers r h)) \<and>
     (\<forall>t. rl_tip r = Some t \<longrightarrow>
        (\<exists>e. rl_headers r t = Some e \<and> rl_tip_height r = be_height e)) \<and>
     (\<forall>h e. rl_headers r h = Some e \<longrightarrow>
        be_total_work e \<le> tip_work anchor (rl_headers r) (rl_tip r))"

fun linked :: "(bytes \<Rightarrow> bytes) \<Rightarrow> bytes \<Rightarrow> u64 \<Rightarrow> nat \<Rightarrow> (bytes \<times> BtcHeaderEntry) list \<Rightarrow> bool" where
  "linked sha p ht w [] = True"
| "linked sha p ht w ((h, e) # xs) =
     (h = btc_block_hash sha (be_header e) \<and> bh_prev_hash (be_header e) = p \<and>
      be_height e = ht + 1 \<and> be_total_work e = w + work_for_bits (bh_bits (be_header e)) \<and>
      linked sha h (be_height e) (be_total_work e) xs)"

text \<open>What one successful batch adds: headers linked to a known parent, with fresh hashes.\<close>

definition staged_ok ::
  "(bytes \<Rightarrow> bytes) \<Rightarrow> BtcAnchor \<Rightarrow> (bytes \<rightharpoonup> BtcHeaderEntry) \<Rightarrow> (bytes \<times> BtcHeaderEntry) list \<Rightarrow> bool" where
  "staged_ok sha anchor m xs \<longleftrightarrow>
     (\<exists>p ht w. parent_ok anchor m p ht w \<and> linked sha p ht w xs) \<and>
     distinct (map fst xs) \<and> fst ` set xs \<inter> dom m = {}"

lemma map_le_Some: "m \<subseteq>\<^sub>m m' \<Longrightarrow> m k = Some v \<Longrightarrow> m' k = Some v"
  by (metis domI map_le_def)

lemma parent_ok_mono: "parent_ok anchor m p ht w \<Longrightarrow> m \<subseteq>\<^sub>m m' \<Longrightarrow> parent_ok anchor m' p ht w"
  by (auto simp: parent_ok_def dest: map_le_Some)

lemma entry_ok_mono: "entry_ok sha anchor m h e \<Longrightarrow> m \<subseteq>\<^sub>m m' \<Longrightarrow> entry_ok sha anchor m' h e"
  using parent_ok_mono by (fastforce simp: entry_ok_def)

lemma linked_entry_ok:
  assumes "linked sha p ht w xs" "parent_ok anchor m p ht w" "(h, e) \<in> set xs"
    and "\<And>h e. (h, e) \<in> set xs \<Longrightarrow> m h = Some e"
  shows "entry_ok sha anchor m h e"
  using assms
proof (induction xs arbitrary: p ht w)
  case Nil
  then show ?case by simp
next
  case (Cons x xs)
  obtain h0 e0 where x: "x = (h0, e0)" by fastforce
  have "parent_ok anchor m h0 (be_height e0) (be_total_work e0)"
    using Cons.prems(4) [of h0 e0] x by (simp add: parent_ok_def)
  moreover have "entry_ok sha anchor m h0 e0"
    using Cons.prems(1,2) x by (auto simp: entry_ok_def)
  ultimately show ?case
    using Cons.IH [of h0 "be_height e0" "be_total_work e0"] Cons.prems x by auto
qed

lemma linked_work_le:
  assumes "linked sha p ht w xs" "(h, e) \<in> set xs"
  shows "be_total_work e \<le> be_total_work (snd (last xs))" "w \<le> be_total_work (snd (last xs))"
proof -
  have "xs \<noteq> [] \<longrightarrow> w \<le> be_total_work (snd (last xs)) \<and>
      (\<forall>(h, e) \<in> set xs. be_total_work e \<le> be_total_work (snd (last xs)))"
    using assms(1)
  proof (induction xs arbitrary: p ht w)
    case (Cons x xs)
    obtain h0 e0 where x: "x = (h0, e0)" by fastforce
    show ?case
    proof (cases "xs = []")
      case False
      then have "be_total_work e0 \<le> be_total_work (snd (last xs)) \<and>
        (\<forall>(h, e) \<in> set xs. be_total_work e \<le> be_total_work (snd (last xs)))"
        using Cons.IH [of h0 "be_height e0" "be_total_work e0"] Cons.prems x False by auto
      then show ?thesis using Cons.prems x False by simp
    qed (use Cons.prems x in simp)
  qed simp
  then show "be_total_work e \<le> be_total_work (snd (last xs))" "w \<le> be_total_work (snd (last xs))"
    using assms(2) by (cases xs; auto)+
qed

lemma linked_append:
  "linked sha p ht w (xs @ [(h, e)]) \<longleftrightarrow> linked sha p ht w xs \<and>
    (if xs = [] then linked sha p ht w [(h, e)]
     else linked sha (fst (last xs)) (be_height (snd (last xs))) (be_total_work (snd (last xs))) [(h, e)])"
  by (induction xs arbitrary: p ht w) (auto split: if_split_asm)

section \<open>Committing and undoing\<close>

lemma foldl_map_upd:
  "foldl (\<lambda>m (h, e). m(h \<mapsto> f e)) m xs = m ++ map_of (rev (map (\<lambda>(h, e). (h, f e)) xs))"
  by (induction xs rule: rev_induct) (auto simp: map_add_def)

lemma foldl_map_del: "foldl (\<lambda>m h. m(h := None)) m xs = m |` (- set xs)"
  by (induction xs rule: rev_induct) (auto simp: restrict_map_def fun_eq_iff)

lemma map_of_rev_distinct: "distinct (map fst xs) \<Longrightarrow> map_of (rev xs) = map_of xs"
proof
  fix k
  assume "distinct (map fst xs)"
  then have "distinct (map fst (rev xs))" by (simp add: rev_map [symmetric])
  then show "map_of (rev xs) k = map_of xs k"
    by (cases "k \<in> fst ` set xs") (auto simp: map_of_eq_None_iff [THEN iffD2] \<open>distinct (map fst xs)\<close>)
qed

lemma map_of_snd: "map_of (map (\<lambda>(h, e). (h, f e)) xs) = (\<lambda>h. map_option f (map_of xs h))"
  by (induction xs) auto

lemma commit_headers:
  assumes "distinct (map fst xs)"
  shows "foldl (\<lambda>m (h, e). m(h \<mapsto> e)) m xs = m ++ map_of xs"
    "foldl (\<lambda>m (h, e). m(h \<mapsto> be_height e)) n xs = n ++ (\<lambda>h. map_option be_height (map_of xs h))"
proof -
  show "foldl (\<lambda>m (h, e). m(h \<mapsto> e)) m xs = m ++ map_of xs"
    using foldl_map_upd [of "\<lambda>e. e" m xs] map_of_rev_distinct [OF assms] by simp
  have "distinct (map fst (map (\<lambda>(h, e). (h, be_height e)) xs))"
    using assms by (simp add: comp_def case_prod_unfold)
  then show "foldl (\<lambda>m (h, e). m(h \<mapsto> be_height e)) n xs = n ++ (\<lambda>h. map_option be_height (map_of xs h))"
    using foldl_map_upd [of be_height n xs] map_of_rev_distinct [of "map (\<lambda>(h, e). (h, be_height e)) xs"]
    by (simp add: map_of_snd)
qed

lemma add_remove_maps:
  assumes "fst ` set xs \<inter> dom m = {}"
  shows "(m ++ map_of xs) |` (- (fst ` set xs)) = m"
proof
  fix h
  show "((m ++ map_of xs) |` (- (fst ` set xs))) h = m h"
  proof (cases "h \<in> fst ` set xs")
    case True
    then have "m h = None" using assms by (auto simp: disjoint_iff domIff)
    then show ?thesis using True by (simp add: restrict_map_def)
  next
    case False
    then have "map_of xs h = None" by (simp add: map_of_eq_None_iff)
    then show ?thesis using False by (simp add: restrict_map_def map_add_def)
  qed
qed

lemma commit_undo:
  assumes "staged_ok sha anchor (rl_headers r) xs"
    and "dom (rl_heights r) = dom (rl_headers r)"
    and "commit_staged anchor r xs = (r', u)"
  shows "undo_btc_relay_update u r' = r"
proof -
  have d: "distinct (map fst xs)" and f: "fst ` set xs \<inter> dom (rl_headers r) = {}"
    using assms(1) by (auto simp: staged_ok_def)
  have "fst ` set (map (\<lambda>(h, e). (h, be_height e)) xs) = fst ` set xs"
    by (force simp: image_image case_prod_unfold)
  then have "(rl_heights r ++ map_of (map (\<lambda>(h, e). (h, be_height e)) xs)) |` (- (fst ` set xs)) = rl_heights r"
    using add_remove_maps [of "map (\<lambda>(h, e). (h, be_height e)) xs" "rl_heights r"] f assms(2) by simp
  then show ?thesis
    using assms(3) add_remove_maps [OF f]
    by (auto simp: commit_staged_def undo_btc_relay_update_def Let_def case_prod_unfold foldl_map_del
        commit_headers [OF d, unfolded case_prod_unfold] map_of_snd [unfolded case_prod_unfold])
qed

lemma commit_fields:
  assumes "staged_ok sha anchor (rl_headers r) xs" "commit_staged anchor r xs = (r', u)"
  shows "rl_headers r' = rl_headers r ++ map_of xs"
    and "rl_heights r' = rl_heights r ++ (\<lambda>h. map_option be_height (map_of xs h))"
    and "rl_tip r' = (if be_total_work (snd (last xs)) > tip_work anchor (rl_headers r') (rl_tip r)
           then Some (fst (last xs)) else rl_tip r)"
    and "rl_tip_height r' = (if be_total_work (snd (last xs)) > tip_work anchor (rl_headers r') (rl_tip r)
           then be_height (snd (last xs)) else rl_tip_height r)"
  using assms commit_headers(1) [of xs "rl_headers r"] commit_headers(2) [of xs "rl_heights r"]
  by (auto simp: commit_staged_def staged_ok_def Let_def case_prod_unfold)

lemma staged_map:
  assumes "staged_ok sha anchor m xs"
  shows "m \<subseteq>\<^sub>m m ++ map_of xs" and "\<And>h e. (h, e) \<in> set xs \<Longrightarrow> (m ++ map_of xs) h = Some e"
    and "\<And>h e. (m ++ map_of xs) h = Some e \<Longrightarrow> m h = Some e \<or> (h, e) \<in> set xs"
proof -
  have d: "distinct (map fst xs)" "fst ` set xs \<inter> dom m = {}"
    using assms by (auto simp: staged_ok_def)
  show "m \<subseteq>\<^sub>m m ++ map_of xs"
    using d(2) by (auto simp: map_le_def map_add_def split: option.splits dest!: map_of_SomeD)
  show "(m ++ map_of xs) h = Some e" if "(h, e) \<in> set xs" for h e
    using that d(1) by simp
  show "m h = Some e \<or> (h, e) \<in> set xs" if "(m ++ map_of xs) h = Some e" for h e
    using that by (auto simp: map_add_Some_iff dest: map_of_SomeD)
qed

lemma tip_work_mono:
  assumes "m \<subseteq>\<^sub>m m'" "\<And>t. tip = Some t \<Longrightarrow> m t \<noteq> None"
  shows "tip_work anchor m' tip = tip_work anchor m tip"
  using assms by (cases tip) (auto simp: tip_work_def dest: map_le_Some split: option.splits)

lemma headers_ok_staged:
  assumes "headers_ok sha anchor m" "staged_ok sha anchor m xs"
  shows "headers_ok sha anchor (m ++ map_of xs)"
  unfolding headers_ok_def
proof (intro allI impI)
  fix h e
  assume "(m ++ map_of xs) h = Some e"
  then consider "m h = Some e" | "(h, e) \<in> set xs" using staged_map(3) [OF assms(2), of h e] by auto
  then show "entry_ok sha anchor (m ++ map_of xs) h e"
  proof cases
    case 1
    then have "entry_ok sha anchor m h e" using assms(1) by (simp add: headers_ok_def)
    then show ?thesis by (rule entry_ok_mono [OF _ staged_map(1) [OF assms(2)]])
  next
    case 2
    obtain p ht w where p: "parent_ok anchor m p ht w" "linked sha p ht w xs"
      using assms(2) by (auto simp: staged_ok_def)
    show ?thesis
      using linked_entry_ok [OF p(2) parent_ok_mono [OF p(1) staged_map(1) [OF assms(2)]] 2]
        staged_map(2) [OF assms(2)] by blast
  qed
qed

lemma commit_relay_ok:
  assumes ok: "relay_ok sha anchor r" and st: "staged_ok sha anchor (rl_headers r) xs" "xs \<noteq> []"
    and c: "commit_staged anchor r xs = (r', u)"
  shows "relay_ok sha anchor r'"
    and "tip_work anchor (rl_headers r) (rl_tip r) \<le> tip_work anchor (rl_headers r') (rl_tip r')"
proof -
  note f = commit_fields [OF st(1) c] and m = staged_map [OF st(1)]
  have le: "rl_headers r \<subseteq>\<^sub>m rl_headers r'" using m(1) f(1) by simp
  have tip: "rl_headers r t \<noteq> None" if "rl_tip r = Some t" for t
    using ok that by (auto simp: relay_ok_def)
  have tw: "tip_work anchor (rl_headers r') (rl_tip r) = tip_work anchor (rl_headers r) (rl_tip r)"
    by (rule tip_work_mono [OF le tip])
  obtain lh le' where last: "last xs = (lh, le')" "(lh, le') \<in> set xs"
    using st(2) by (metis last_in_set surj_pair)
  have lk: "rl_headers r' lh = Some le'" using m(2) last f(1) by simp
  obtain p ht w where p: "linked sha p ht w xs" using st(1) by (auto simp: staged_ok_def)
  have new: "tip_work anchor (rl_headers r') (rl_tip r') =
      max (be_total_work le') (tip_work anchor (rl_headers r) (rl_tip r))"
    using f(3) tw lk last by (auto simp: tip_work_def [of _ _ "Some _"])
  then show "tip_work anchor (rl_headers r) (rl_tip r) \<le> tip_work anchor (rl_headers r') (rl_tip r')"
    by simp
  have "headers_ok sha anchor (rl_headers r')"
    using ok headers_ok_staged [OF _ st(1)] f(1) by (simp add: relay_ok_def)
  moreover have "rl_heights r' = (\<lambda>h. map_option be_height (rl_headers r' h))"
    using ok f(1,2) by (auto simp: relay_ok_def map_add_def fun_eq_iff split: option.splits)
  moreover have "\<exists>e. rl_headers r' t = Some e \<and> rl_tip_height r' = be_height e" if "rl_tip r' = Some t" for t
  proof (cases "be_total_work le' > tip_work anchor (rl_headers r) (rl_tip r)")
    case True
    then show ?thesis using f(3,4) tw lk last that by simp
  next
    case False
    then have "rl_tip r = Some t" using f(3) tw last that by simp
    then obtain e where "rl_headers r t = Some e" "rl_tip_height r = be_height e"
      using ok by (auto simp: relay_ok_def)
    then show ?thesis using False f(4) tw last map_le_Some [OF le] by auto
  qed
  moreover have "be_total_work e \<le> tip_work anchor (rl_headers r') (rl_tip r')"
    if "rl_headers r' h = Some e" for h e
  proof -
    consider "rl_headers r h = Some e" | "(h, e) \<in> set xs" using m(3) [of h e] \<open>rl_headers r' h = Some e\<close> f(1) by auto
    then show ?thesis
    proof cases
      case 1
      then have "be_total_work e \<le> tip_work anchor (rl_headers r) (rl_tip r)"
        using ok by (auto simp: relay_ok_def)
      then show ?thesis using new by simp
    next
      case 2
      then show ?thesis using linked_work_le(1) [OF p 2] last new by simp
    qed
  qed
  ultimately show "relay_ok sha anchor r'" by (auto simp: relay_ok_def)
qed

section \<open>The interface of a header relay\<close>

text \<open>
  What the chain state relies on when it applies header batches and undoes them: a batch that is
  accepted changes nothing, or commits headers with fresh hashes linked to a known parent.
\<close>

locale header_relay =
  fixes sha :: "bytes \<Rightarrow> bytes" and anchor :: BtcAnchor
    and extend :: "BtcHeader list \<Rightarrow> u32 \<Rightarrow> BtcRelay \<Rightarrow> err + BtcRelay \<times> BtcRelayUpdate"
    and undo :: "BtcRelayUpdate \<Rightarrow> BtcRelay \<Rightarrow> BtcRelay"
  assumes extend_Inr:
    "extend hs t r = Inr (r', u) \<Longrightarrow> r' = r \<and> u = no_update r \<or>
      (\<exists>xs. xs \<noteq> [] \<and> staged_ok sha anchor (rl_headers r) xs \<and> commit_staged anchor r xs = (r', u))"
    and undo_eq: "undo u r = undo_btc_relay_update u r"
begin

lemma extend_ok:
  "extend hs t r = Inr (r', u) \<Longrightarrow> relay_ok sha anchor r \<Longrightarrow> relay_ok sha anchor r'"
  using extend_Inr commit_relay_ok(1) by blast

lemma extend_tip_work:
  "extend hs t r = Inr (r', u) \<Longrightarrow> relay_ok sha anchor r \<Longrightarrow>
    tip_work anchor (rl_headers r) (rl_tip r) \<le> tip_work anchor (rl_headers r') (rl_tip r')"
  using extend_Inr commit_relay_ok(2) by blast

lemma extend_undo:
  assumes "extend hs t r = Inr (r', u)" "dom (rl_heights r) = dom (rl_headers r)"
  shows "undo u r' = r"
  using extend_Inr [OF assms(1)]
proof
  assume "r' = r \<and> u = no_update r"
  then show ?thesis by (simp add: undo_eq undo_btc_relay_update_def no_update_def)
next
  assume "\<exists>xs. xs \<noteq> [] \<and> staged_ok sha anchor (rl_headers r) xs \<and> commit_staged anchor r xs = (r', u)"
  then show ?thesis using commit_undo assms(2) undo_eq by blast
qed

text \<open>A sequence of batches, as successive blocks apply them, with the undo records newest first.\<close>

definition extend_all ::
  "(BtcHeader list \<times> u32) list \<Rightarrow> BtcRelay \<times> BtcRelayUpdate list \<Rightarrow> err + BtcRelay \<times> BtcRelayUpdate list" where
  "extend_all = foldE (\<lambda>(hs, t) (r, us). bindE (extend hs t r) (\<lambda>(r, u). Inr (r, u # us)))"

lemma relay_ok_dom: "relay_ok sha anchor r \<Longrightarrow> dom (rl_heights r) = dom (rl_headers r)"
  by (auto simp: relay_ok_def)

lemma undo_all:
  assumes "extend_all bs (r, us) = Inr (r', us')" "relay_ok sha anchor r"
  shows "relay_ok sha anchor r' \<and> (\<exists>vs. us' = vs @ us \<and> length vs = length bs \<and> fold undo vs r' = r)"
  using assms
proof (induction bs arbitrary: r us)
  case Nil
  then show ?case by (simp add: extend_all_def)
next
  case (Cons b bs)
  obtain hs t r1 u where e: "b = (hs, t)" "extend hs t r = Inr (r1, u)"
    "extend_all bs (r1, u # us) = Inr (r', us')"
    using Cons.prems(1) by (cases b) (auto simp: extend_all_def bindE_eq_Inr)
  obtain vs where v: "relay_ok sha anchor r'" "us' = vs @ u # us" "length vs = length bs" "fold undo vs r' = r1"
    using Cons.IH [OF e(3) extend_ok [OF e(2) Cons.prems(2)]] by blast
  have "undo u r1 = r" by (rule extend_undo [OF e(2) relay_ok_dom [OF Cons.prems(2)]])
  then show ?case using v by (auto intro!: exI [of _ "vs @ [u]"])
qed

end

section \<open>Validation of a batch\<close>

text \<open>What a step of the staging loop adds, whatever the proof-of-work and retarget rules.\<close>

definition stage_adds ::
  "(bytes \<Rightarrow> bytes) \<Rightarrow> (bytes \<rightharpoonup> BtcHeaderEntry) \<Rightarrow> BtcHeader \<Rightarrow> StageState \<Rightarrow> StageState \<Rightarrow> bool" where
  "stage_adds sha m header st st' \<longleftrightarrow>
     (let h = btc_block_hash sha header;
          w = st_prev_work st + work_for_bits (bh_bits header)
      in bh_prev_hash header = st_prev_hash st \<and> m h = None \<and> h \<notin> fst ` set (st_staged st) \<and>
         st' = \<lparr>st_prev_hash = h, st_prev_height = st_prev_height st + 1, st_prev_work = w,
                st_staged = st_staged st @
                  [(h, \<lparr>be_header = header, be_height = st_prev_height st + 1, be_total_work = w\<rparr>)]\<rparr>)"

definition stage_inv ::
  "(bytes \<Rightarrow> bytes) \<Rightarrow> BtcAnchor \<Rightarrow> (bytes \<rightharpoonup> BtcHeaderEntry) \<Rightarrow> StageState \<Rightarrow> bool" where
  "stage_inv sha anchor m st \<longleftrightarrow> staged_ok sha anchor m (st_staged st) \<and>
     (if st_staged st = [] then parent_ok anchor m (st_prev_hash st) (st_prev_height st) (st_prev_work st)
      else last (st_staged st) =
        (st_prev_hash st, \<lparr>be_header = be_header (snd (last (st_staged st))),
           be_height = st_prev_height st, be_total_work = st_prev_work st\<rparr>))"

lemma stage_inv_step:
  assumes "stage_inv sha anchor m st" "stage_adds sha m header st st'"
  shows "stage_inv sha anchor m st'"
proof -
  let ?xs = "st_staged st"
  obtain p ht w where p: "parent_ok anchor m p ht w" "linked sha p ht w ?xs"
    "?xs = [] \<longrightarrow> p = st_prev_hash st \<and> ht = st_prev_height st \<and> w = st_prev_work st"
    using assms(1) by (cases "?xs = []") (auto simp: stage_inv_def staged_ok_def)
  have "linked sha p ht w (st_staged st')"
    using assms p by (auto simp: stage_adds_def stage_inv_def Let_def linked_append split: if_split_asm)
      (metis BtcHeaderEntry.select_convs(2,3) fst_conv snd_conv)+
  then show ?thesis
    using assms p(1) by (auto simp: stage_inv_def stage_adds_def staged_ok_def Let_def domIff)
qed

lemma stage_loop_inv:
  assumes "foldE step hs st = Inr st'" "stage_inv sha anchor m st"
    and "\<And>h st st'. step h st = Inr st' \<Longrightarrow> stage_adds sha m h st st'"
  shows "stage_inv sha anchor m st'"
  using assms(1,2) by (rule foldE_invariant) (use assms(3) stage_inv_step in blast)

lemma stage_loop_length:
  assumes "foldE step hs st = Inr st'" "\<And>h st st'. step h st = Inr st' \<Longrightarrow> stage_adds sha m h st st'"
  shows "length (st_staged st') = length (st_staged st) + length hs"
  using assms(1)
proof (induction hs arbitrary: st)
  case (Cons h hs)
  then obtain s1 where s: "step h st = Inr s1" "foldE step hs s1 = Inr st'" by (auto simp: bindE_eq_Inr)
  have "length (st_staged s1) = length (st_staged st) + 1"
    using assms(2) [OF s(1)] by (simp add: stage_adds_def Let_def)
  then show ?case using Cons.IH [OF s(2)] by simp
qed simp

lemma batch_start_parent:
  "batch_start msg m anchor h = Inr (ht, w) \<Longrightarrow> parent_ok anchor m (bh_prev_hash h) ht w"
  by (auto simp: batch_start_def parent_ok_def split: if_split_asm option.split_asm)

lemma known_prefix_parent:
  assumes "known_prefix sha m hs p ht w = (n, p', ht', w')" "parent_ok anchor m p ht w"
  shows "parent_ok anchor m p' ht' w' \<and> n \<le> length hs"
  using assms
proof (induction hs arbitrary: p ht w n)
  case (Cons h hs)
  show ?case
  proof (cases "n = 0")
    case True
    then show ?thesis using Cons.prems
      by (auto simp: Let_def split: if_split_asm option.split_asm prod.split_asm)
  next
    case False
    then obtain e k where e: "m (btc_block_hash sha h) = Some e" "be_height e = ht + 1"
      "known_prefix sha m hs (btc_block_hash sha h) (ht + 1) (be_total_work e) = (k, p', ht', w')" "n = Suc k"
      using Cons.prems(1) by (auto simp: Let_def split: if_split_asm option.split_asm prod.split_asm)
    have "parent_ok anchor m (btc_block_hash sha h) (ht + 1) (be_total_work e)"
      using e(1,2) by (auto simp: parent_ok_def)
    then show ?thesis using Cons.IH [OF e(3)] e(4) by simp
  qed
qed simp

lemma stage_start_inv:
  "parent_ok anchor m p ht w \<Longrightarrow> stage_inv sha anchor m
    \<lparr>st_prev_hash = p, st_prev_height = ht, st_prev_work = w, st_staged = []\<rparr>"
  by (auto simp: stage_inv_def staged_ok_def)

lemma stage_loop_commits:
  assumes "parent_ok anchor m p ht w" "hs \<noteq> []"
    and "foldE step hs \<lparr>st_prev_hash = p, st_prev_height = ht, st_prev_work = w, st_staged = []\<rparr> = Inr st"
    and "\<And>h st st'. step h st = Inr st' \<Longrightarrow> stage_adds sha m h st st'"
  shows "st_staged st \<noteq> [] \<and> staged_ok sha anchor m (st_staged st)"
proof -
  have "stage_inv sha anchor m st"
    by (rule stage_loop_inv [OF assms(3) stage_start_inv [OF assms(1)] assms(4)])
  moreover have "length (st_staged st) = length hs"
    using stage_loop_length [OF assms(3,4)] by simp
  ultimately show ?thesis using assms(2) by (auto simp: stage_inv_def)
qed

lemma stage_btc_header_adds:
  "stage_btc_header sha anchor t m header st = Inr st' \<Longrightarrow> stage_adds sha m header st st'"
  by (auto simp: stage_btc_header_def stage_adds_def Let_def bindE_eq_Inr)

text \<open>The cases of a batch that is accepted.\<close>

lemma apply_btc_header_batch_cases:
  assumes "apply_btc_header_batch sha hs t r anchor = Inr (r', u)"
  obtains (known) "r' = r" "u = no_update r"
  | (new) n p ht w st where "parent_ok anchor (rl_headers r) p ht w" "n < length hs"
      "foldE (stage_btc_header sha anchor t (rl_headers r)) (drop n hs)
        \<lparr>st_prev_hash = p, st_prev_height = ht, st_prev_work = w, st_staged = []\<rparr> = Inr st"
      "commit_staged anchor r (st_staged st) = (r', u)"
proof -
  obtain ht0 w0 where s: "batch_start ''apply_btc_header_batch: first header does not connect to known chain''
      (rl_headers r) anchor (hd hs) = Inr (ht0, w0)"
    using assms by (auto simp: apply_btc_header_batch_def bindE_eq_Inr split: if_split_asm)
  obtain n p ht w where k: "known_prefix sha (rl_headers r) hs (bh_prev_hash (hd hs)) ht0 w0 = (n, p, ht, w)"
    by (metis surj_pair)
  note kp = known_prefix_parent [OF k batch_start_parent [OF s]]
  show thesis
  proof (cases "u = no_update r \<and> r' = r")
    case False
    then show thesis
      using new [of p ht w n] assms kp s k
      by (auto simp: apply_btc_header_batch_def bindE_eq_Inr split: if_split_asm)
  qed (use known in simp)
qed

interpretation btc_relay: header_relay sha anchor "\<lambda>hs t r. apply_btc_header_batch sha hs t r anchor" undo_btc_relay_update
  for sha anchor
proof (unfold_locales, goal_cases)
  case (1 hs t r r' u)
  then show ?case
  proof (cases rule: apply_btc_header_batch_cases)
    case (new n p ht w st)
    have "st_staged st \<noteq> [] \<and> staged_ok sha anchor (rl_headers r) (st_staged st)"
      by (rule stage_loop_commits [OF new(1) _ new(3)]) (use new(2) in \<open>auto intro: stage_btc_header_adds\<close>)
    then show ?thesis using new(4) by blast
  qed simp
qed simp

section \<open>Termination of the retarget walk\<close>

lemma lookup_staged:
  assumes "staged_ok sha anchor m xs"
  shows "lookup_get (m, xs) = m ++ map_of xs"
proof
  fix h
  have "fst ` set xs \<inter> dom m = {}" "map_of (rev xs) = map_of xs"
    using assms by (auto simp: staged_ok_def map_of_rev_distinct)
  moreover from this(1) have "m h \<noteq> None \<Longrightarrow> map_of xs h = None"
    by (auto simp: map_of_eq_None_iff disjoint_iff domIff)
  ultimately show "lookup_get (m, xs) h = (m ++ map_of xs) h"
    by (cases "m h") (simp_all add: map_add_def split: option.splits)
qed

lemma retarget_walk_fuel:
  assumes "headers_ok sha anchor (lookup_get view)" "0 < fuel"
    and "\<And>e. cur \<noteq> an_hash anchor \<Longrightarrow> lookup_get view cur = Some e \<Longrightarrow>
      unat (be_height e) < fuel + unat T"
  shows "retarget_walk fuel cur T view anchor \<noteq> Inl OutOfFuel"
  using assms(2,3)
proof (induction fuel arbitrary: cur)
  case 0
  then show ?case by simp
next
  case (Suc fuel)
  show ?case
  proof (cases "cur = an_hash anchor \<or> lookup_get view cur = None")
    case False
    then obtain e where e: "cur \<noteq> an_hash anchor" "lookup_get view cur = Some e" by auto
    show ?thesis
    proof (cases "be_height e \<le> T")
      case False
      then have gt: "unat T < unat (be_height e)" by (simp add: word_le_nat_alt)
      have eo: "entry_ok sha anchor (lookup_get view) cur e"
        using assms(1) e by (simp add: headers_ok_def)
      have b: "unat (be_height e') < fuel + unat T"
        if e': "bh_prev_hash (be_header e) \<noteq> an_hash anchor"
          "lookup_get view (bh_prev_hash (be_header e)) = Some e'" for e'
      proof -
        have "be_height e' = be_height e - 1"
          using eo e' by (auto simp: entry_ok_def parent_ok_def)
        then have "unat (be_height e') = unat (be_height e) - 1"
          using gt unat_minus_one [of "be_height e"] by fastforce
        then show ?thesis using Suc.prems(2) [OF e] gt by simp
      qed
      have "0 < fuel" using Suc.prems(2) [OF e] gt by simp
      then have "retarget_walk fuel (bh_prev_hash (be_header e)) T view anchor \<noteq> Inl OutOfFuel"
        by (rule Suc.IH) (rule b)
      then show ?thesis using e False by auto
    qed (use e in auto)
  qed auto
qed

lemma expected_bits_fuel:
  assumes "headers_ok sha anchor (lookup_get view)" "parent_ok anchor (lookup_get view) p ht w"
  shows "expected_bits_for_v (ht + 1) p view anchor \<noteq> Inl OutOfFuel"
proof (cases "ht + 1 = 0 \<or> (ht + 1) mod BTC_RETARGET_INTERVAL \<noteq> 0")
  case True
  then show ?thesis
    by (auto simp: expected_bits_for_v_def parent_bits_time_def bindE_eq_Inl split: if_splits option.splits)
next
  case False
  have "unat ((ht + 1) mod 2016) = 0" using False by simp
  then have "unat (ht + 1) mod 2016 = 0" by (simp add: unat_mod)
  moreover have nz: "0 < unat (ht + 1)" using False by (simp add: unat_gt_0)
  ultimately have ge: "2016 \<le> unat (ht + 1)" by (metis dvd_imp_le mod_0_imp_dvd)
  then have T: "unat (ht + 1 - 2016) = unat (ht + 1) - 2016"
    using unat_sub [of 2016 "ht + 1"] by (simp add: word_le_nat_alt)
  have ht: "unat (ht + 1) = unat ht + 1" using nz False unat_minus_one [of "ht + 1"] by simp
  have "retarget_walk 2017 p (ht + 1 - 2016) view anchor \<noteq> Inl OutOfFuel"
  proof (rule retarget_walk_fuel [OF assms(1)])
    fix e
    assume "p \<noteq> an_hash anchor" "lookup_get view p = Some e"
    then have "be_height e = ht" using assms(2) by (auto simp: parent_ok_def)
    then show "unat (be_height e) < 2017 + unat (ht + 1 - 2016)" using T ht ge by simp
  qed simp
  then show ?thesis
    by (auto simp: expected_bits_for_v_def parent_bits_time_def find_ancestor_time_at_height_v_def
        bindE_eq_Inl Let_def split: if_splits option.splits)
qed

lemma stage_inv_parent:
  assumes "stage_inv sha anchor m st"
  shows "parent_ok anchor (lookup_get (m, st_staged st)) (st_prev_hash st) (st_prev_height st) (st_prev_work st)"
proof -
  have st: "staged_ok sha anchor m (st_staged st)" using assms by (simp add: stage_inv_def)
  show ?thesis
  proof (cases "st_staged st = []")
    case True
    then show ?thesis using assms lookup_staged [OF st] by (simp add: stage_inv_def)
  next
    case False
    then have "(st_prev_hash st, \<lparr>be_header = be_header (snd (last (st_staged st))),
           be_height = st_prev_height st, be_total_work = st_prev_work st\<rparr>) \<in> set (st_staged st)"
      using assms by (metis last_in_set stage_inv_def)
    from staged_map(2) [OF st this] show ?thesis
      unfolding lookup_staged [OF st] parent_ok_def by auto
  qed
qed

lemma stage_btc_header_fuel:
  assumes "headers_ok sha anchor m" "stage_inv sha anchor m st"
  shows "stage_btc_header sha anchor t m header st \<noteq> Inl OutOfFuel"
proof -
  have st: "staged_ok sha anchor m (st_staged st)" using assms(2) by (simp add: stage_inv_def)
  have "headers_ok sha anchor (lookup_get (m, st_staged st))"
    unfolding lookup_staged [OF st] by (rule headers_ok_staged [OF assms(1) st])
  from expected_bits_fuel [OF this stage_inv_parent [OF assms(2)]] show ?thesis
    by (auto simp: stage_btc_header_def bindE_eq_Inl Let_def split: sum.split_asm option.split_asm if_split_asm)
qed

lemma stage_loop_fuel:
  assumes "stage_inv sha anchor m st"
    and "\<And>h st st'. step h st = Inr st' \<Longrightarrow> stage_adds sha m h st st'"
    and "\<And>h st. stage_inv sha anchor m st \<Longrightarrow> step h st \<noteq> Inl OutOfFuel"
  shows "foldE step hs st \<noteq> Inl OutOfFuel"
  by (rule foldE_no_error [where I = "stage_inv sha anchor m"])
    (use assms stage_inv_step in blast)+

section \<open>Compact targets\<close>

lemma le_digits_drop: "drop i (le_digits n) = le_digits (n div 256 ^ i)"
proof (induction i arbitrary: n)
  case (Suc i)
  show ?case
  proof (cases "n = 0")
    case False
    have "n div 256 ^ Suc i = n div 256 div 256 ^ i" by (simp add: div_mult2_eq)
    then show ?thesis using Suc False by (simp add: le_digits_pos)
  qed simp
qed simp

lemma foldl_bytes:
  assumes "length bs \<le> 4"
  shows "unat (foldl (\<lambda>v b. push_bit 8 v OR (ucast b :: u32)) 0 bs) = from_bytes_be bs"
  using assms
proof (induction bs rule: rev_induct)
  case (snoc b bs)
  let ?v = "foldl (\<lambda>v b. push_bit 8 v OR (ucast b :: u32)) 0 bs"
  have v: "unat ?v = le_val (rev bs)" using snoc by (simp add: from_bytes_be_def)
  have "le_val (rev bs) < 256 ^ length bs" using le_val_bound [of "rev bs"] by simp
  also have "(256::nat) ^ length bs \<le> 256 ^ 3" using snoc.prems by (intro power_increasing) auto
  finally have b: "2 ^ 8 * unat ?v < 2 ^ LENGTH(32)" using v by simp
  have u: "unat (ucast b :: u32) = unat b"
    using unat_u8_lt [of b] by (simp add: unsigned_ucast_eq take_bit_nat_eq_self)
  have "unat (push_bit 8 ?v OR (ucast b :: u32)) = 2 ^ 8 * unat ?v + unat b"
    using unat_push_bit_or [OF b, of "ucast b"] u unat_u8_lt [of b] by simp
  then show ?case using v by (simp add: from_bytes_be_def)
qed (simp add: from_bytes_be_def)

lemma mantissa_of_bytes:
  assumes "0 < v"
  shows "unat (if length (to_bytes_be v) \<le> 3 then
       push_bit (8 * (3 - length (to_bytes_be v)))
         (foldl (\<lambda>v b. push_bit 8 v OR (ucast b :: u32)) 0 (to_bytes_be v))
     else push_bit 16 (ucast (to_bytes_be v ! 0)) OR push_bit 8 (ucast (to_bytes_be v ! 1)) OR
       (ucast (to_bytes_be v ! 2) :: u32)) = mant v"
proof -
  define k where "k = byte_len v"
  have l: "length (to_bytes_be v) = k" using length_to_bytes_be [OF assms] by (simp add: k_def)
  show ?thesis
  proof (cases "k \<le> 3")
    case True
    let ?w = "foldl (\<lambda>v b. push_bit 8 v OR (ucast b :: u32)) 0 (to_bytes_be v)"
    have w: "unat ?w = v" using foldl_bytes [of "to_bytes_be v"] l True from_bytes_be_to_bytes_be by simp
    have m: "mant v = 2 ^ (8 * (3 - k)) * v" using True by (simp add: mant_def k_def power_mult)
    then have "2 ^ (8 * (3 - k)) * unat ?w < 2 ^ LENGTH(32)" using mant_bounds [OF assms] w by simp
    from unat_push_bit_or [OF this, of 0]
    have "unat (push_bit (8 * (3 - k)) ?w) = 2 ^ (8 * (3 - k)) * unat ?w" by simp
    then show ?thesis using True l w m by simp
  next
    case False
    obtain b0 b1 b2 where b: "to_bytes_be (mant v) = [b0, b1, b2]"
      "unat b0 * 65536 + unat b1 * 256 + unat b2 = mant v"
      using mantissa_bytes [OF assms] .
    have "0 < mant v" using mant_bounds [OF assms] by simp
    moreover have "mant v = v div 256 ^ (k - 3)" using False by (simp add: mant_def k_def)
    ultimately have "to_bytes_be (mant v) = rev (drop (k - 3) (le_digits v))"
      by (simp add: to_bytes_be_def le_digits_drop)
    also have "\<dots> = take 3 (to_bytes_be v)"
      using assms False l by (simp add: to_bytes_be_def rev_drop)
    finally have "take 3 (to_bytes_be v) = [b0, b1, b2]" using b(1) by simp
    then have "to_bytes_be v ! 0 = b0" "to_bytes_be v ! 1 = b1" "to_bytes_be v ! 2 = b2"
      by (metis nth_take nth_Cons_0 zero_less_numeral,
          metis nth_take nth_Cons_0 nth_Cons_Suc One_nat_def one_less_numeral_iff semiring_norm(77),
          metis nth_take nth_Cons_0 nth_Cons_Suc numeral_2_eq_2 Suc_1 lessI numeral_3_eq_3)
    then show ?thesis using False l mantissa_word b(2) by simp
  qed
qed

lemma compact_bits_from_target:
  assumes "v < 256 ^ 254"
  shows "Target (target_to_compact_bits v) = from_target v"
proof (cases "v = 0")
  case True
  then show ?thesis by (simp add: target_to_compact_bits_def from_target_def)
next
  case False
  have v: "0 < v" "byte_len v < 255" using False byte_len_le [OF assms] by auto
  have e: "unat (word_of_nat (byte_len v) :: u32) = byte_len v"
    using v(2) by (intro unat_word_of_nat_small) simp
  have s: "push_bit 24 (word_of_nat (Suc (byte_len v)) :: u32) = push_bit 24 (word_of_nat (byte_len v) + 1)"
    by (simp add: add.commute)
  have "target_to_compact_bits v = word_of_nat (compact v)"
    using compact_word [OF v mantissa_of_bytes [OF v(1)] e] v(1) length_to_bytes_be [OF v(1)]
    unfolding target_to_compact_bits_def Let_def
    by (simp add: or.commute s add.commute split: if_splits)
  then show ?thesis using from_target_char [OF v] by simp
qed

text \<open>
  The relay's encoder of compact targets computes the same bits as the encoder of the
  proof-of-work module on every target of at most 254 bytes, though it works on the bytes of the
  number and the other on shifted numbers.
\<close>

lemma target_to_compact_bits_eq_from_target:
  assumes "v < 256 ^ 254"
  shows "Target (target_to_compact_bits v) = from_target v"
  by (rule compact_bits_from_target [OF assms])

lemma retarget_clamps:
  obtains ts where "302400 \<le> unat (ts::u32)" "unat ts \<le> 4838400"
    "retarget pb pt ft =
      target_to_compact_bits (min btc_max_target (to_target (Target pb) * unat ts div 1209600))"
proof -
  define a where "a = sat_sub pt ft"
  define x where "x = (if a < 302400 then 302400 else a)"
  define ts where "ts = (if x > 4838400 then 4838400 else x)"
  have c: "sat_mul (14 * 24 * 3600 :: u32) 4 = 4838400" "(14 * 24 * 3600 :: u32) div 4 = 302400"
    by (simp_all add: sat_mul_def word_div_def)
  have "302400 \<le> unat ts" "unat ts \<le> 4838400"
    unfolding ts_def x_def by (auto simp: word_less_nat_alt)
  moreover have "retarget pb pt ft =
      target_to_compact_bits (min btc_max_target (to_target (Target pb) * unat ts div 1209600))"
    unfolding retarget_def Let_def c a_def [symmetric] x_def [symmetric] ts_def [symmetric]
    by (simp add: min_def)
  ultimately show thesis by (rule that)
qed

lemma retarget_step_bounds:
  fixes P ts :: nat
  assumes "302400 \<le> ts" "ts \<le> 4838400"
  shows "P * ts div 1209600 \<le> 4 * P" "P div 4 \<le> P * ts div 1209600"
proof -
  have "P * ts div 1209600 \<le> P * 4838400 div 1209600" using assms(2) by (intro div_le_mono) simp
  also have "\<dots> = 4 * P" by simp
  finally show "P * ts div 1209600 \<le> 4 * P" .
  have "P div 4 = P * 302400 div (4 * 302400)" by (rule div_mult_mult2 [symmetric]) simp
  also have "\<dots> = P * 302400 div 1209600" by simp
  also have "\<dots> \<le> P * ts div 1209600" using assms(1) by (intro div_le_mono) simp
  finally show "P div 4 \<le> P * ts div 1209600" .
qed

lemma btc_max_target_eq: "btc_max_target = 0xffff * 256 ^ 26"
  by code_simp

lemma compact_bits_approx:
  assumes "T < 256 ^ 254"
  shows "to_target (Target (target_to_compact_bits T)) \<le> T"
    "(2 ^ 15 - 1) * T \<le> 2 ^ 15 * to_target (Target (target_to_compact_bits T))"
proof -
  have e: "Target (target_to_compact_bits T) = from_target T"
    by (rule compact_bits_from_target [OF assms])
  have "to_target (from_target T) \<le> T \<and> (2 ^ 15 - 1) * T \<le> 2 ^ 15 * to_target (from_target T)"
  proof (cases "T = 0")
    case False
    then have "0 < T" "byte_len T < 255" using byte_len_le [OF assms] by auto
    from to_target_from_target_approx [OF this] show ?thesis by simp
  qed (simp add: from_target_def to_target_def)
  then show "to_target (Target (target_to_compact_bits T)) \<le> T"
    "(2 ^ 15 - 1) * T \<le> 2 ^ 15 * to_target (Target (target_to_compact_bits T))"
    unfolding e by auto
qed

lemma expected_bits_boundary:
  assumes "expected_bits_for_v height p view anchor = Inr b" "height mod BTC_RETARGET_INTERVAL = 0"
    and "parent_bits_time p view anchor = Inr (pb, pt)"
  obtains ft where "b = retarget pb pt ft"
  using assms by (auto simp: expected_bits_for_v_def bindE_eq_Inr Let_def split: if_split_asm)

text \<open>
  C20. At a retarget boundary the relay's expected target moves by at most a factor of four from the
  parent's and never exceeds the network's maximum; up to the rounding of the compact form it is at
  least the smaller of a quarter of the parent's target and the maximum.
\<close>

theorem expected_bits_retarget_bounds:
  assumes "expected_bits_for_v height p view anchor = Inr b" "height mod BTC_RETARGET_INTERVAL = 0"
    and "parent_bits_time p view anchor = Inr (pb, pt)"
  shows "to_target (Target b) \<le> btc_max_target \<and> to_target (Target b) \<le> 4 * to_target (Target pb) \<and>
    (2 ^ 15 - 1) * min btc_max_target (to_target (Target pb) div 4) \<le> 2 ^ 15 * to_target (Target b)"
proof -
  obtain ts where t: "302400 \<le> unat (ts::u32)" "unat ts \<le> 4838400"
    and b: "b = target_to_compact_bits (min btc_max_target (to_target (Target pb) * unat ts div 1209600))"
    by (metis expected_bits_boundary [OF assms] retarget_clamps)
  define T where "T = min btc_max_target (to_target (Target pb) * unat ts div 1209600)"
  note s = retarget_step_bounds [OF t, of "to_target (Target pb)"]
  have "T \<le> btc_max_target" by (simp add: T_def)
  moreover have "btc_max_target < 256 ^ 254" by (simp add: btc_max_target_eq)
  ultimately have "T < 256 ^ 254" by linarith
  note a = compact_bits_approx [OF this]
  have "T \<le> 4 * to_target (Target pb)" "min btc_max_target (to_target (Target pb) div 4) \<le> T"
    using s by (auto simp: T_def)
  moreover from this(2) have "(2 ^ 15 - 1) * min btc_max_target (to_target (Target pb) div 4) \<le> (2 ^ 15 - 1) * T"
    by (rule mult_le_mono2)
  ultimately show ?thesis
    using a \<open>T \<le> btc_max_target\<close> unfolding b T_def [symmetric] by linarith
qed

definition sample_btc_header :: BtcHeader where
  "sample_btc_header = \<lparr>bh_version = 0x20000000, bh_prev_hash = replicate 32 1,
     bh_merkle_root = replicate 32 2, bh_time = 3000000, bh_bits = 0x1c00ffff, bh_nonce = 7\<rparr>"

theorem expected_bits_retarget_bounds_witness:
  "\<exists>b. expected_bits_for_v 4032 [9]
     ([[9] \<mapsto> \<lparr>be_header = sample_btc_header, be_height = 4031, be_total_work = 1\<rparr>], [])
     \<lparr>an_hash = [8], an_height = 2016, an_bits = 0x1c00ffff, an_time = 1000000\<rparr> = Inr b \<and>
   to_target (Target b) \<le> 4 * to_target (Target 0x1c00ffff)"
proof -
  let ?v = "([[9] \<mapsto> \<lparr>be_header = sample_btc_header, be_height = 4031, be_total_work = 1\<rparr>], []) :: LookupView"
  let ?a = "\<lparr>an_hash = [8], an_height = 2016, an_bits = 0x1c00ffff, an_time = 1000000\<rparr>"
  have p: "parent_bits_time [9] ?v ?a = Inr (0x1c00ffff, 3000000)"
    by (simp add: parent_bits_time_def sample_btc_header_def)
  have e: "expected_bits_for_v 4032 [9] ?v ?a = Inr (retarget 0x1c00ffff 3000000 1000000)"
    using p by (simp add: expected_bits_for_v_def find_ancestor_time_at_height_v_def)
  show ?thesis using expected_bits_retarget_bounds [OF e _ p] e by simp
qed

section \<open>Header batches as scripts\<close>

lemma first_four: "4 \<le> length xs \<Longrightarrow> xs = [xs ! 0, xs ! 1, xs ! 2, xs ! 3] @ drop 4 xs"
  by (auto simp: Suc_le_length_iff numeral_eq_Suc)

definition wf_btc_header :: "BtcHeader \<Rightarrow> bool" where
  "wf_btc_header h \<longleftrightarrow> length (bh_prev_hash h) = 32 \<and> length (bh_merkle_root h) = 32"

lemma length_btc_serialize: "wf_btc_header h \<Longrightarrow> length (btc_serialize h) = 80"
  by (simp add: wf_btc_header_def btc_serialize_def)

lemma btc_deserialize_serialize:
  assumes "wf_btc_header h"
  shows "btc_deserialize (btc_serialize h) = Inr h"
proof -
  have l: "length (bh_prev_hash h) = 32" "length (bh_merkle_root h) = 32"
    using assms by (auto simp: wf_btc_header_def)
  have d0: "drop 0 (btc_serialize h) = u32_le (bh_version h) @ bh_prev_hash h @ bh_merkle_root h @
      u32_le (bh_time h) @ u32_le (bh_bits h) @ u32_le (bh_nonce h)"
    by (simp add: btc_serialize_def)
  note s0 = drop_eq_append_slice [OF d0, simplified]
  note s1 = drop_eq_append_slice [OF s0(2), unfolded l, simplified]
  note s2 = drop_eq_append_slice [OF s1(2), unfolded l, simplified]
  note s3 = drop_eq_append_slice [OF s2(2), simplified]
  note s4 = drop_eq_append_slice [OF s3(2), simplified]
  have s5: "slice (btc_serialize h) 76 80 = u32_le (bh_nonce h)"
    using drop_eq_append_slice(1) [of 76 "btc_serialize h" "u32_le (bh_nonce h)" "[]"] s4(2) by simp
  show ?thesis
    using length_btc_serialize [OF assms] s0(1) s1(1) s2(1) s3(1) s4(1) s5
    by (simp add: btc_deserialize_def)
qed

lemma btc_deserialize_Inr:
  assumes "btc_deserialize bs = Inr h"
  shows "wf_btc_header h" "length bs = 80" "btc_serialize h = bs"
proof -
  show l: "length bs = 80" using assms by (auto simp: btc_deserialize_def split: if_splits)
  then have h: "h = \<lparr>bh_version = le_u32 (slice bs 0 4), bh_prev_hash = slice bs 4 36,
      bh_merkle_root = slice bs 36 68, bh_time = le_u32 (slice bs 68 72),
      bh_bits = le_u32 (slice bs 72 76), bh_nonce = le_u32 (slice bs 76 80)\<rparr>"
    using assms by (simp add: btc_deserialize_def)
  show "wf_btc_header h" using h l by (simp add: wf_btc_header_def)
  show "btc_serialize h = bs"
    using l unfolding h btc_serialize_def by (simp add: slice_simps)
qed

interpretation btc_header_codec: wire_codec btc_serialize read_btc_header wf_btc_header
proof (unfold_locales, goal_cases)
  case (1 h buf off rest)
  then show ?case
    using drop_eq_append_slice(1) [OF 1(4)] btc_deserialize_serialize [OF 1(1)]
      length_btc_serialize [OF 1(1)] by (simp add: read_btc_header_def)
next
  case (2 buf off h off')
  then show ?case using btc_deserialize_Inr(1) by (auto simp: read_btc_header_def bindE_eq_Inr)
next
  case (3 buf off h off')
  then have "btc_deserialize (slice buf off (off + 80)) = Inr h" "off' = off + 80"
    by (auto simp: read_btc_header_def bindE_eq_Inr)
  with btc_deserialize_Inr(2) [OF this(1)] show ?case by simp
qed

lemma u16_le_two: "[(0xc4 # 1 # u16_le w @ r) ! 2, (0xc4 # 1 # u16_le w @ r) ! 3] = u16_le w"
  by (simp add: u16_le_def numeral_2_eq_2 numeral_3_eq_3)

lemma read_btc_header_Inr:
  "read_btc_header buf off = Inr (h, off') \<longleftrightarrow>
    btc_deserialize (slice buf off (off + 80)) = Inr h \<and> off' = off + 80"
  by (auto simp: read_btc_header_def bindE_eq_Inr)

lemma read_many_btc_headers:
  assumes "read_many n read_btc_header buf off = Inr (hs, off')" "off \<le> length buf"
  shows "off' = off + 80 * n \<and> off' \<le> length buf \<and> concat (map btc_serialize hs) = slice buf off off'"
  using assms
proof (induction n arbitrary: off hs)
  case 0
  then show ?case by (simp add: slice_def)
next
  case (Suc n)
  obtain h hs' where r: "btc_deserialize (slice buf off (off + 80)) = Inr h"
    "read_many n read_btc_header buf (off + 80) = Inr (hs', off')" "hs = h # hs'"
    using Suc.prems(1) by (auto simp: read_btc_header_Inr bindE_eq_Inr)
  have "off + 80 \<le> length buf" using btc_deserialize_Inr(2) [OF r(1)] by simp
  from Suc.IH [OF r(2) this] show ?case
    using r(3) btc_deserialize_Inr(3) [OF r(1)] by (auto simp: slice_join)
qed

text \<open>
  Header batches have one encoding: a script parses to a list of headers exactly if the headers
  are well formed and the encoder turns them into that script. In particular every batch of 1 to
  2,016 headers survives the round trip, and no other script spells the same batch.
\<close>

lemma btc_header_batch_canonical:
  "parse_btc_header_batch script = Inr hs \<longleftrightarrow>
     list_all wf_btc_header hs \<and> encode_btc_header_batch hs = Inr script"
proof
  assume p: "parse_btc_header_batch script = Inr hs"
  let ?c = "unat (le_u16 [script ! 2, script ! 3])"
  obtain off' where r: "length script = 4 + 80 * ?c" "script ! 0 = 0xc4" "script ! 1 = 1" "?c \<noteq> 0" "?c \<le> 2016"
      "read_many ?c read_btc_header script 4 = Inr (hs, off')"
    using p by (auto simp: parse_btc_header_batch_def Let_def bindE_eq_Inr split: if_split_asm)
  have ok: "buffer_ok script" using r(1,5) by simp
  have w: "length hs = ?c" "list_all wf_btc_header hs"
    using btc_header_codec.read_many_wf [OF ok r(6)] by auto
  have "concat (map btc_serialize hs) = slice script 4 (length script)"
    using read_many_btc_headers [OF r(6)] r(1) by simp
  moreover have "u16_le (word_of_nat ?c) = [script ! 2, script ! 3]"
    by (simp add: word_of_nat_unat u16_le_le_u16)
  moreover have "script = [script ! 0, script ! 1, script ! 2, script ! 3] @ slice script 4 (length script)"
    using first_four [of script] r(1) by (simp add: slice_def)
  ultimately show "list_all wf_btc_header hs \<and> encode_btc_header_batch hs = Inr script"
    using w r(2-5) by (auto simp: encode_btc_header_batch_def)
next
  assume e: "list_all wf_btc_header hs \<and> encode_btc_header_batch hs = Inr script"
  then have n: "hs \<noteq> []" "length hs \<le> 2016"
    and s: "script = [0xc4, 1] @ u16_le (word_of_nat (length hs)) @ concat (map btc_serialize hs)"
    by (auto simp: encode_btc_header_batch_def split: if_splits)
  have c: "length (concat (map btc_serialize hs)) = 80 * length hs"
    using conjunct1 [OF e] by (induction hs) (auto simp: length_btc_serialize)
  have u: "unat (word_of_nat (length hs) :: u16) = length hs"
    using n(2) by (intro unat_word_of_nat_small) simp
  have d: "drop 4 script = concat (map btc_serialize hs) @ []" using s by simp
  have two: "[script ! 2, script ! 3] = u16_le (word_of_nat (length hs))"
    unfolding s using u16_le_two by simp
  have ok: "buffer_ok script" "4 \<le> length script" using s c n(2) by auto
  have "read_many (length hs) read_btc_header script 4 = Inr (hs, 4 + 80 * length hs)"
    using btc_header_codec.read_many_enc [OF _ ok d] e c by simp
  then show "parse_btc_header_batch script = Inr hs"
    using n s c u two by (simp add: parse_btc_header_batch_def Let_def)
qed

section \<open>Properties of the relay\<close>

lemma apply_btc_header_batch_fuel:
  assumes "relay_ok sha anchor r"
  shows "apply_btc_header_batch sha hs t r anchor \<noteq> Inl OutOfFuel"
proof
  assume a: "apply_btc_header_batch sha hs t r anchor = Inl OutOfFuel"
  have ok: "headers_ok sha anchor (rl_headers r)" using assms by (simp add: relay_ok_def)
  obtain ht0 w0 where s: "batch_start ''apply_btc_header_batch: first header does not connect to known chain''
      (rl_headers r) anchor (hd hs) = Inr (ht0, w0)"
    using a by (auto simp: apply_btc_header_batch_def bindE_eq_Inl batch_start_def split: if_split_asm option.split_asm)
  obtain n p ht w where k: "known_prefix sha (rl_headers r) hs (bh_prev_hash (hd hs)) ht0 w0 = (n, p, ht, w)"
    by (metis surj_pair)
  have "parent_ok anchor (rl_headers r) p ht w"
    using known_prefix_parent [OF k batch_start_parent [OF s]] by blast
  then have "foldE (stage_btc_header sha anchor t (rl_headers r)) (drop n hs)
      \<lparr>st_prev_hash = p, st_prev_height = ht, st_prev_work = w, st_staged = []\<rparr> \<noteq> Inl OutOfFuel"
    by (intro stage_loop_fuel [OF stage_start_inv stage_btc_header_adds stage_btc_header_fuel [OF ok]])
  then show False
    using a s k by (auto simp: apply_btc_header_batch_def bindE_eq_Inl split: if_split_asm)
qed

text \<open>The relay before the first batch.\<close>

definition empty_relay :: "u64 \<Rightarrow> BtcRelay" where
  "empty_relay h = \<lparr>rl_headers = Map.empty, rl_heights = Map.empty, rl_tip = None, rl_tip_height = h\<rparr>"

lemma empty_relay_ok: "relay_ok sha anchor (empty_relay h)"
  by (simp add: relay_ok_def empty_relay_def headers_ok_def)

text \<open>Batches applied by successive blocks, with the undo records the blocks keep, newest first.\<close>

definition apply_btc_batches ::
  "(bytes \<Rightarrow> bytes) \<Rightarrow> BtcAnchor \<Rightarrow> (BtcHeader list \<times> u32) list \<Rightarrow> BtcRelay \<times> BtcRelayUpdate list \<Rightarrow>
    err + BtcRelay \<times> BtcRelayUpdate list" where
  "apply_btc_batches sha anchor =
     foldE (\<lambda>(hs, t) (r, us). bindE (apply_btc_header_batch sha hs t r anchor) (\<lambda>(r, u). Inr (r, u # us)))"

lemma apply_btc_batches_eq: "apply_btc_batches sha anchor = btc_relay.extend_all sha anchor"
  unfolding apply_btc_batches_def btc_relay.extend_all_def ..

text \<open>
  C13. Disconnecting blocks restores the relay exactly: after any sequence of accepted header batches,
  undoing their records newest first gives back the headers, heights, tip and tip height from before
  the sequence.
\<close>

theorem btc_relay_undo_restores:
  assumes "relay_ok sha anchor r" "apply_btc_batches sha anchor bs (r, []) = Inr (r', us)"
  shows "fold undo_btc_relay_update us r' = r"
  using btc_relay.undo_all [OF assms(2) [unfolded apply_btc_batches_eq] assms(1)] by auto

text \<open>
  C12. The relay stays consistent: an accepted batch keeps every stored header filed under its own
  hash, one above its parent (a stored header or the anchor) in height and with its parent's work
  plus its own; heights and headers agree; the tip is a stored header; and the tip has the most
  accumulated work of all stored headers and never loses work.
\<close>

theorem btc_relay_invariant:
  assumes "relay_ok sha anchor r" "apply_btc_header_batch sha hs t r anchor = Inr (r', u)"
  shows "relay_ok sha anchor r' \<and>
    tip_work anchor (rl_headers r) (rl_tip r) \<le> tip_work anchor (rl_headers r') (rl_tip r')"
  using btc_relay.extend_ok [OF assms(2,1)] btc_relay.extend_tip_work [OF assms(2,1)] by blast

text \<open>
  C14. Applying a batch always returns: in a consistent relay the walk back to the start of a
  retarget window ends within 2,017 steps, so no batch, accepted or rejected, runs out of fuel.
\<close>

theorem apply_btc_header_batch_returns:
  assumes "relay_ok sha anchor r"
  shows "apply_btc_header_batch sha hs t r anchor \<noteq> Inl OutOfFuel"
  by (rule apply_btc_header_batch_fuel [OF assms])

section \<open>The first retarget after the anchor\<close>

lemma resolve_btc_mainnet:
  "resolve_btc_spv_params hex_decode env Mainnet =
     Some \<lparr>bp_activation_height = 23850, bp_anchor = MAINNET_BTC_ANCHOR\<rparr>"
  by (simp add: resolve_btc_spv_params_def resolved_btc_spv_relay_activation_height_def
      btc_anchor_is_zero_def MAINNET_BTC_ANCHOR_def)

lemma easiest_target: "256 ^ 32 \<le> to_target (Target 0x2200ffff)"
  by code_simp

lemma meets_easiest: "length h \<le> 32 \<Longrightarrow> meets_target_btc h (Target 0x2200ffff)"
proof -
  assume "length h \<le> 32"
  then have "le_val h < 256 ^ 32"
    using le_val_bound [of h] power_increasing [of "length h" 32 "256::nat"] by linarith
  then show ?thesis using easiest_target unfolding meets_target_btc_def by linarith
qed

lemma stage_first_retarget:
  assumes "length (btc_block_hash sha header) = 32" "bh_bits header = 0x2200ffff"
    and "m p = Some e" "be_height e = 880991" "p \<noteq> an_hash MAINNET_BTC_ANCHOR"
    and "bh_prev_hash header = p" "m (btc_block_hash sha header) = None"
    and "median_time_past_v p (m, []) MAINNET_BTC_ANCHOR < bh_time header"
    and "bh_time header \<le> sat_add t BTC_MAX_FUTURE_TIME_SECS"
  shows "stage_btc_header sha MAINNET_BTC_ANCHOR t m header
      \<lparr>st_prev_hash = p, st_prev_height = 880991, st_prev_work = w, st_staged = []\<rparr> =
    Inr \<lparr>st_prev_hash = btc_block_hash sha header, st_prev_height = 880992,
        st_prev_work = w + work_for_bits 0x2200ffff,
        st_staged = [(btc_block_hash sha header, \<lparr>be_header = header, be_height = 880992,
           be_total_work = w + work_for_bits 0x2200ffff\<rparr>)]\<rparr>"
proof -
  have "expected_bits_for_v 880992 p (m, []) MAINNET_BTC_ANCHOR = Inl before_anchor"
    using assms(3,5) by (simp add: expected_bits_for_v_def parent_bits_time_def)
      (simp add: MAINNET_BTC_ANCHOR_def)
  then show ?thesis
    using assms meets_easiest [of "btc_block_hash sha header"] unfolding stage_btc_header_def Let_def
    by (simp add: ensure_def not_le not_less)
qed

lemma first_retarget_accepted:
  assumes "resolve_btc_spv_params hex_decode env Mainnet = Some ps"
    and "\<And>x. length (sha x) = 32"
    and "rl_headers r (bh_prev_hash header) = Some e" "be_height e = 880991"
    and "bh_prev_hash header \<noteq> an_hash (bp_anchor ps)"
    and "rl_headers r (btc_block_hash sha header) = None" "bh_bits header = 0x2200ffff"
    and "median_time_past_v (bh_prev_hash header) (rl_headers r, []) (bp_anchor ps) < bh_time header"
    and "bh_time header \<le> sat_add t BTC_MAX_FUTURE_TIME_SECS"
  shows "\<exists>r' u. apply_btc_header_batch sha [header] t r (bp_anchor ps) = Inr (r', u) \<and>
    rl_headers r' (btc_block_hash sha header) = Some \<lparr>be_header = header, be_height = 880992,
      be_total_work = be_total_work e + work_for_bits 0x2200ffff\<rparr> \<and>
    rl_heights r' (btc_block_hash sha header) = Some 880992"
proof -
  have a: "bp_anchor ps = MAINNET_BTC_ANCHOR" using assms(1) by (auto simp: resolve_btc_mainnet)
  have h: "length (btc_block_hash sha header) = 32"
    using assms(2) by (simp add: btc_block_hash_def sha256d_def)
  note s = stage_first_retarget [OF h assms(7,3,4) assms(5)[unfolded a] refl assms(6)
      assms(8)[unfolded a] assms(9), of "be_total_work e"]
  have z: "\<not> btc_anchor_is_zero MAINNET_BTC_ANCHOR"
    by (simp add: btc_anchor_is_zero_def MAINNET_BTC_ANCHOR_def)
  show ?thesis
    unfolding a using assms(3-6)[unfolded a] s z
    by (simp add: apply_btc_header_batch_def batch_start_def commit_staged_def Let_def)
qed

text \<open>
  C16. On mainnet the relay does not check the difficulty of the first retarget after its anchor.
  Any header that extends a stored header of height 880,991 and claims the compact target
  \<open>0x2200ffff\<close>, which every hash meets, is accepted and stored at height 880,992 whatever its Merkle
  root and nonce: it costs no work, though its hash must be new and its time within the usual bounds.
\<close>

theorem btc_first_retarget_unchecked:
  assumes "resolve_btc_spv_params hex_decode env Mainnet = Some ps"
    and "\<And>x. length (sha x) = 32"
    and "rl_headers r (bh_prev_hash header) = Some e" "be_height e = 880991"
    and "bh_prev_hash header \<noteq> an_hash (bp_anchor ps)"
    and "rl_headers r (btc_block_hash sha header) = None" "bh_bits header = 0x2200ffff"
    and "median_time_past_v (bh_prev_hash header) (rl_headers r, []) (bp_anchor ps) < bh_time header"
    and "bh_time header \<le> sat_add t BTC_MAX_FUTURE_TIME_SECS"
  shows "\<exists>r' u. apply_btc_header_batch sha [header] t r (bp_anchor ps) = Inr (r', u) \<and>
    rl_headers r' (btc_block_hash sha header) = Some \<lparr>be_header = header, be_height = 880992,
      be_total_work = be_total_work e + work_for_bits 0x2200ffff\<rparr> \<and>
    rl_heights r' (btc_block_hash sha header) = Some 880992"
  by (rule first_retarget_accepted [OF assms])

section \<open>A concrete relay\<close>

definition pad32 :: "bytes \<Rightarrow> bytes" where
  "pad32 bs = take 32 (bs @ replicate 32 0)"

definition sample_anchor :: BtcAnchor where
  "sample_anchor = \<lparr>an_hash = replicate 32 1, an_height = 100, an_bits = 0x2200ffff, an_time = 1000\<rparr>"

definition sample_batch :: "BtcHeader list" where
  "sample_batch = [sample_btc_header\<lparr>bh_bits := 0x2200ffff\<rparr>]"

lemma sample_batch_applies:
  obtains r u where "apply_btc_header_batch pad32 sample_batch 3000000 (empty_relay 100) sample_anchor = Inr (r, u)"
proof -
  let ?h = "sample_btc_header\<lparr>bh_bits := 0x2200ffff\<rparr>"
  have "length (btc_block_hash pad32 ?h) = 32" by (simp add: btc_block_hash_def sha256d_def pad32_def)
  note m = meets_easiest [OF this [THEN eq_refl]]
  have e: "expected_bits_for_v 101 (replicate 32 1) (Map.empty, []) sample_anchor = Inr 0x2200ffff"
    by (simp add: expected_bits_for_v_def parent_bits_time_def sample_anchor_def)
  have t: "median_time_past_v (replicate 32 1) (Map.empty, []) sample_anchor = 1000"
    by (simp add: median_time_past_v_def sample_anchor_def numeral_eq_Suc)
  have a: "an_hash sample_anchor = replicate 32 1" "an_height sample_anchor = 100"
    "\<not> btc_anchor_is_zero sample_anchor"
    by (simp_all add: sample_anchor_def btc_anchor_is_zero_def)
  have f: "bh_prev_hash ?h = replicate 32 1" "bh_time ?h = 3000000"
    by (simp_all add: sample_btc_header_def)
  obtain st where st: "stage_btc_header pad32 sample_anchor 3000000 Map.empty ?h
      \<lparr>st_prev_hash = replicate 32 1, st_prev_height = 100,
       st_prev_work = work_for_bits (an_bits sample_anchor), st_staged = []\<rparr> = Inr st"
    using m e t f unfolding stage_btc_header_def Let_def
    by (simp add: ensure_def sat_add_def)
  obtain r u where "commit_staged sample_anchor (empty_relay 100) (st_staged st) = (r, u)" by fastforce
  then have "apply_btc_header_batch pad32 sample_batch 3000000 (empty_relay 100) sample_anchor = Inr (r, u)"
    using st a f by (simp add: apply_btc_header_batch_def sample_batch_def empty_relay_def batch_start_def)
  then show thesis by (rule that)
qed

theorem btc_relay_undo_restores_witness:
  "\<exists>r' u. apply_btc_batches pad32 sample_anchor [(sample_batch, 3000000)] (empty_relay 100, []) = Inr (r', [u]) \<and>
     fold undo_btc_relay_update [u] r' = empty_relay 100"
proof -
  obtain r' u where a: "apply_btc_header_batch pad32 sample_batch 3000000 (empty_relay 100) sample_anchor = Inr (r', u)"
    by (rule sample_batch_applies)
  then have b: "apply_btc_batches pad32 sample_anchor [(sample_batch, 3000000)] (empty_relay 100, []) = Inr (r', [u])"
    by (simp add: apply_btc_batches_def)
  show ?thesis using btc_relay_undo_restores [OF empty_relay_ok b] b by blast
qed

theorem btc_relay_invariant_witness:
  "\<exists>r' u. apply_btc_header_batch pad32 sample_batch 3000000 (empty_relay 100) sample_anchor = Inr (r', u) \<and>
     relay_ok pad32 sample_anchor r'"
  by (rule sample_batch_applies) (use btc_relay_invariant [OF empty_relay_ok] in blast)

theorem apply_btc_header_batch_returns_witness:
  "apply_btc_header_batch pad32 sample_batch 0 (empty_relay 100) sample_anchor \<noteq> Inl OutOfFuel"
  using apply_btc_header_batch_returns [OF empty_relay_ok] .

definition sample_fork :: BtcHeader where
  "sample_fork = sample_btc_header\<lparr>bh_bits := 0x2200ffff, bh_time := 3000001\<rparr>"

definition sample_parent :: BtcHeaderEntry where
  "sample_parent = \<lparr>be_header = sample_btc_header\<lparr>bh_prev_hash := []\<rparr>, be_height = 880991, be_total_work = 5\<rparr>"

theorem btc_first_retarget_unchecked_witness:
  "\<exists>r' u. apply_btc_header_batch pad32 [sample_fork] 3000000
     ((empty_relay 880000)\<lparr>rl_headers := [replicate 32 1 \<mapsto> sample_parent]\<rparr>) MAINNET_BTC_ANCHOR = Inr (r', u) \<and>
   rl_heights r' (btc_block_hash pad32 sample_fork) = Some 880992"
proof -
  let ?r = "(empty_relay 880000)\<lparr>rl_headers := [replicate 32 1 \<mapsto> sample_parent]\<rparr>"
  let ?ps = "\<lparr>bp_activation_height = 23850, bp_anchor = MAINNET_BTC_ANCHOR\<rparr>"
  have p: "bh_prev_hash sample_fork = replicate 32 1"
    by (simp add: sample_fork_def sample_btc_header_def)
  have m: "rl_headers ?r (bh_prev_hash sample_fork) = Some sample_parent" "be_height sample_parent = 880991"
    by (simp_all add: p sample_parent_def)
  have c: "bh_prev_hash sample_fork \<noteq> an_hash (bp_anchor ?ps)" by code_simp
  have f: "btc_block_hash pad32 sample_fork \<noteq> replicate 32 1" by code_simp
  then have f': "rl_headers ?r (btc_block_hash pad32 sample_fork) = None" by (simp add: empty_relay_def)
  have t: "median_time_past_v (bh_prev_hash sample_fork) (rl_headers ?r, []) (bp_anchor ?ps) < bh_time sample_fork"
    "bh_time sample_fork \<le> sat_add 3000000 BTC_MAX_FUTURE_TIME_SECS" "bh_bits sample_fork = 0x2200ffff"
    by code_simp+
  have l: "\<And>x. length (pad32 x) = 32" by (simp add: pad32_def)
  show ?thesis
    using btc_first_retarget_unchecked [OF resolve_btc_mainnet [of "\<lambda>_. None" "\<lambda>_. None"] l m c f' t(3,1,2)] by auto
qed

end
