(* ===== verification/LtcSpv.thy ===== *)
theory LtcSpv
  imports BtcSpv
begin

text \<open>
  The relay of Litecoin headers (\<open>src/src/ltc_spv.rs\<close>) and its proof-of-work check
  (\<open>src/src/scrypt_pow.rs\<close>). Litecoin headers, header entries, anchors, relay states and undo
  records have the fields of their Bitcoin counterparts and share their types. The module carries
  its own copies of the shared routines; they are defined here from its text and shown equal to the
  Bitcoin relay's, so that its lemmas carry over. The scrypt key derivation is a package outside the
  repository and is the parameter \<open>kdf\<close> (cost exponent, block size, parallelism, output length, password,
  salt). The walk to the first header of a retarget window takes one more step of fuel than the
  window has blocks, which is enough in a consistent relay.
\<close>

section \<open>Definitions\<close>

abbreviation (input) LTC_HEADER_BATCH_TAG :: u8 where "LTC_HEADER_BATCH_TAG \<equiv> 0xc6"
abbreviation (input) LTC_HEADER_BATCH_VERSION :: u8 where "LTC_HEADER_BATCH_VERSION \<equiv> 0x01"
abbreviation (input) LTC_HEADER_BYTES :: nat where "LTC_HEADER_BYTES \<equiv> 80"
abbreviation (input) MAX_LTC_HEADERS_PER_BATCH :: u16 where "MAX_LTC_HEADERS_PER_BATCH \<equiv> 144"
abbreviation (input) LTC_MTP_WINDOW :: nat where "LTC_MTP_WINDOW \<equiv> 11"
abbreviation (input) LTC_MAX_FUTURE_TIME_SECS :: u32 where
  "LTC_MAX_FUTURE_TIME_SECS \<equiv> 2 * 60 * 60"

type_synonym LtcHeader = BtcHeader
type_synonym LtcHeaderEntry = BtcHeaderEntry
type_synonym LtcAnchor = BtcAnchor
type_synonym LtcRelayUpdate = BtcRelayUpdate
type_synonym LtcRelay = BtcRelay
type_synonym scrypt_kdf = "u8 \<Rightarrow> u32 \<Rightarrow> u32 \<Rightarrow> nat \<Rightarrow> bytes \<Rightarrow> bytes \<Rightarrow> bytes"

definition scrypt_hash :: "scrypt_kdf \<Rightarrow> bytes \<Rightarrow> bytes" where
  "scrypt_hash kdf header_80_bytes = kdf 10 1 1 32 header_80_bytes header_80_bytes"

definition meets_target_ltc :: "scrypt_kdf \<Rightarrow> bytes \<Rightarrow> Target \<Rightarrow> bool" where
  "meets_target_ltc kdf header_bytes target = meets_target_btc (scrypt_hash kdf header_bytes) target"

record RetargetParams =
  rt_window :: u64
  rt_expected_timespan_secs :: u32
  rt_max_target_bits :: u32
  rt_min_timespan_divisor :: u32
  rt_max_timespan_multiplier :: u32

definition LITECOIN :: RetargetParams where
  "LITECOIN = \<lparr>rt_window = 2016, rt_expected_timespan_secs = 302400,
     rt_max_target_bits = 0x1e0fffff, rt_min_timespan_divisor = 4, rt_max_timespan_multiplier = 4\<rparr>"

definition ltc_serialize :: "LtcHeader \<Rightarrow> bytes" where
  "ltc_serialize h =
     u32_le (bh_version h) @ bh_prev_hash h @ bh_merkle_root h @ u32_le (bh_time h) @
     u32_le (bh_bits h) @ u32_le (bh_nonce h)"

definition ltc_deserialize :: "bytes \<Rightarrow> err + LtcHeader" where
  "ltc_deserialize bs =
     (if length bs \<noteq> LTC_HEADER_BYTES then Inl (Err ''ltc header must be exactly 80 bytes'')
      else Inr \<lparr>bh_version = le_u32 (slice bs 0 4), bh_prev_hash = slice bs 4 36,
                bh_merkle_root = slice bs 36 68, bh_time = le_u32 (slice bs 68 72),
                bh_bits = le_u32 (slice bs 72 76), bh_nonce = le_u32 (slice bs 76 80)\<rparr>)"

definition ltc_block_hash :: "(bytes \<Rightarrow> bytes) \<Rightarrow> LtcHeader \<Rightarrow> bytes" where
  "ltc_block_hash sha h = sha256d sha (ltc_serialize h)"

definition meets_pow :: "scrypt_kdf \<Rightarrow> LtcHeader \<Rightarrow> bool" where
  "meets_pow kdf h = meets_target_ltc kdf (ltc_serialize h) (Target (bh_bits h))"

definition ltc_anchor_zero :: LtcAnchor where
  "ltc_anchor_zero = \<lparr>an_hash = replicate 32 0, an_height = 0, an_bits = 0, an_time = 0\<rparr>"

definition ltc_anchor_is_zero :: "LtcAnchor \<Rightarrow> bool" where
  "ltc_anchor_is_zero a \<longleftrightarrow>
     an_hash a = replicate 32 0 \<and> an_height a = 0 \<and> an_bits a = 0 \<and> an_time a = 0"

definition MAINNET_LTC_ANCHOR_HASH_DISPLAY :: bytes where
  "MAINNET_LTC_ANCHOR_HASH_DISPLAY =
     [0x8a, 0x89, 0xd2, 0xe5, 0x23, 0x29, 0xaa, 0xbe, 0x63, 0xfa, 0xbe, 0xb9, 0xd4, 0xcf, 0x73, 0x4d,
      0x8a, 0x44, 0xde, 0x15, 0x85, 0x98, 0xaf, 0xb6, 0x56, 0x0f, 0x20, 0xf8, 0xc9, 0x47, 0xbe, 0x64]"

definition ltc_anchor_mainnet :: LtcAnchor where
  "ltc_anchor_mainnet =
     (let candidate = \<lparr>an_hash = rev MAINNET_LTC_ANCHOR_HASH_DISPLAY, an_height = 3106656,
                       an_bits = 0x1929b619, an_time = 1778676649\<rparr>
      in if an_hash candidate = replicate 32 0 \<and> an_bits candidate = 0 \<and> an_time candidate = 0
         then ltc_anchor_zero else candidate)"

record LtcSpvParams =
  lp_activation_height :: u64
  lp_anchor :: LtcAnchor
  lp_retarget :: RetargetParams

definition resolve_ltc_spv_params ::
  "(string \<Rightarrow> bytes option) \<Rightarrow> environ \<Rightarrow> NetworkKind \<Rightarrow> LtcSpvParams option" where
  "resolve_ltc_spv_params hex_decode env network =
     Option.bind (resolved_ltc_spv_relay_activation_height env network) (\<lambda>activation_height.
     Option.bind
       (if network = Mainnet then
          (if ltc_anchor_is_zero ltc_anchor_mainnet then None else Some ltc_anchor_mainnet)
        else env_anchor hex_decode env ''LTC'') (\<lambda>anchor.
       Some \<lparr>lp_activation_height = activation_height, lp_anchor = anchor, lp_retarget = LITECOIN\<rparr>))"

definition encode_ltc_header_batch :: "LtcHeader list \<Rightarrow> err + bytes" where
  "encode_ltc_header_batch hs =
     (if hs = [] then Inl (Err ''ltc header batch: empty'')
      else if length hs > unat MAX_LTC_HEADERS_PER_BATCH then
        Inl (Err ''ltc header batch: headers exceeds max'')
      else Inr ([LTC_HEADER_BATCH_TAG, LTC_HEADER_BATCH_VERSION] @
             u16_le (word_of_nat (length hs)) @ concat (map ltc_serialize hs)))"

definition read_ltc_header :: "bytes \<Rightarrow> nat \<Rightarrow> err + LtcHeader \<times> nat" where
  "read_ltc_header script start =
     bindE (ltc_deserialize (slice script start (start + LTC_HEADER_BYTES)))
       (\<lambda>h. Inr (h, start + LTC_HEADER_BYTES))"

definition parse_ltc_header_batch :: "bytes \<Rightarrow> err + LtcHeader list" where
  "parse_ltc_header_batch script =
     (if length script < 4 then Inl (Err ''ltc header batch: script too short'')
      else if script ! 0 \<noteq> LTC_HEADER_BATCH_TAG then Inl (Err ''ltc header batch: wrong tag'')
      else if script ! 1 \<noteq> LTC_HEADER_BATCH_VERSION then
        Inl (Err ''ltc header batch: unknown version'')
      else
        let count = unat (le_u16 [script ! 2, script ! 3])
        in if count = 0 \<or> count > unat MAX_LTC_HEADERS_PER_BATCH then
             Inl (Err ''ltc header batch: count out of range'')
           else if length script \<noteq> 4 + LTC_HEADER_BYTES * count then
             Inl (Err ''ltc header batch: wrong size'')
           else bindE (read_many count read_ltc_header script 4) (\<lambda>(hs, _). Inr hs))"

definition ltc_work_for_bits :: "u32 \<Rightarrow> nat" where
  "ltc_work_for_bits b = 2 ^ 256 div (to_target (Target b) + 1)"

definition ltc_max_target :: "RetargetParams \<Rightarrow> nat" where
  "ltc_max_target params = to_target (Target (rt_max_target_bits params))"

definition ltc_target_to_compact_bits :: "nat \<Rightarrow> u32" where
  "ltc_target_to_compact_bits target =
     (if target = 0 then 0
      else
        let bs = to_bytes_be target;
            size = length bs;
            compact =
              (if size \<le> 3 then
                 push_bit (8 * (3 - size)) (foldl (\<lambda>v b. push_bit 8 v OR (ucast b :: u32)) 0 bs)
               else push_bit 16 (ucast (bs ! 0)) OR push_bit 8 (ucast (bs ! 1)) OR
                 (ucast (bs ! 2) :: u32));
            (compact, size) =
              (if compact AND 0x00800000 \<noteq> 0 then (drop_bit 8 compact, size + 1)
               else (compact, size))
        in compact OR push_bit 24 (word_of_nat size :: u32))"

fun ltc_lookup_get :: "LookupView \<Rightarrow> bytes \<Rightarrow> LtcHeaderEntry option" where
  "ltc_lookup_get (committed, staged) h =
     (case committed h of Some e \<Rightarrow> Some e | None \<Rightarrow> map_of (rev staged) h)"

fun ltc_mtp_times :: "nat \<Rightarrow> bytes \<Rightarrow> LookupView \<Rightarrow> LtcAnchor \<Rightarrow> u32 list" where
  "ltc_mtp_times 0 cur view anchor = []"
| "ltc_mtp_times (Suc n) cur view anchor =
     (if cur = an_hash anchor then [an_time anchor]
      else case ltc_lookup_get view cur of
             Some e \<Rightarrow>
               bh_time (be_header e) # ltc_mtp_times n (bh_prev_hash (be_header e)) view anchor
           | None \<Rightarrow> [])"

definition ltc_median_time_past_v :: "bytes \<Rightarrow> LookupView \<Rightarrow> LtcAnchor \<Rightarrow> u32" where
  "ltc_median_time_past_v parent_hash view anchor =
     (let times = ltc_mtp_times LTC_MTP_WINDOW parent_hash view anchor
      in if times = [] then 0 else sort times ! (length times div 2))"

fun ltc_retarget_walk :: "nat \<Rightarrow> bytes \<Rightarrow> u64 \<Rightarrow> LookupView \<Rightarrow> LtcAnchor \<Rightarrow> err + u32" where
  "ltc_retarget_walk 0 cur target_height view anchor = Inl OutOfFuel"
| "ltc_retarget_walk (Suc fuel) cur target_height view anchor =
     (if cur = an_hash anchor then
        Inl (Err ''retarget walk: reached anchor without finding target height'')
      else
        case ltc_lookup_get view cur of
          None \<Rightarrow> Inl (Err ''retarget walk: missing header in chain'')
        | Some entry \<Rightarrow>
            if be_height entry = target_height then Inr (bh_time (be_header entry))
            else if be_height entry < target_height then
              Inl (Err ''retarget walk: walked past target height'')
            else ltc_retarget_walk fuel (bh_prev_hash (be_header entry)) target_height view anchor)"

definition ltc_find_ancestor_time_at_height_v ::
  "nat \<Rightarrow> bytes \<Rightarrow> u64 \<Rightarrow> LookupView \<Rightarrow> LtcAnchor \<Rightarrow> err + u32" where
  "ltc_find_ancestor_time_at_height_v fuel parent_hash target_height view anchor =
     (if target_height = an_height anchor then Inr (an_time anchor)
      else ltc_retarget_walk fuel parent_hash target_height view anchor)"

definition ltc_parent_bits_time :: "bytes \<Rightarrow> LookupView \<Rightarrow> LtcAnchor \<Rightarrow> err + u32 \<times> u32" where
  "ltc_parent_bits_time parent_hash view anchor =
     (if parent_hash = an_hash anchor then Inr (an_bits anchor, an_time anchor)
      else case ltc_lookup_get view parent_hash of
             None \<Rightarrow> Inl (Err ''expected_bits: parent unknown'')
           | Some e \<Rightarrow> Inr (bh_bits (be_header e), bh_time (be_header e)))"

text \<open>The division by a parameter that is zero panics; \<open>LITECOIN\<close> has none.\<close>

definition ltc_retarget :: "RetargetParams \<Rightarrow> u32 \<Rightarrow> u32 \<Rightarrow> u32 \<Rightarrow> err + u32" where
  "ltc_retarget params parent_bits parent_time first_time =
     (if rt_min_timespan_divisor params = 0 \<or> rt_expected_timespan_secs params = 0 then Inl Panic
      else
        let actual_timespan = sat_sub parent_time first_time;
            min_ts = rt_expected_timespan_secs params div rt_min_timespan_divisor params;
            max_ts = sat_mul (rt_expected_timespan_secs params) (rt_max_timespan_multiplier params);
            actual_timespan = (if actual_timespan < min_ts then min_ts else actual_timespan);
            actual_timespan = (if actual_timespan > max_ts then max_ts else actual_timespan);
            parent_target = to_target (Target parent_bits);
            new_target =
              parent_target * unat actual_timespan div unat (rt_expected_timespan_secs params);
            max_target = ltc_max_target params;
            final_target = (if new_target > max_target then max_target else new_target)
        in Inr (ltc_target_to_compact_bits final_target))"

definition ltc_expected_bits_for_v ::
  "u64 \<Rightarrow> bytes \<Rightarrow> LookupView \<Rightarrow> LtcAnchor \<Rightarrow> RetargetParams \<Rightarrow> err + u32" where
  "ltc_expected_bits_for_v height parent_hash view anchor params =
     (if height = 0 then Inl (Err ''expected_bits: height 0 has no parent'')
      else
        bindE (ltc_parent_bits_time parent_hash view anchor) (\<lambda>(parent_bits, parent_time).
        if height mod rt_window params \<noteq> 0 then Inr parent_bits
        else
          let first_height =
                (if height = rt_window params then height - rt_window params
                 else height - rt_window params - 1)
          in if first_height < an_height anchor then Inl before_anchor
             else
               bindE (ltc_find_ancestor_time_at_height_v (unat (rt_window params) + 1) parent_hash
                        first_height view anchor)
                 (ltc_retarget params parent_bits parent_time)))"

fun ltc_known_prefix ::
  "(bytes \<Rightarrow> bytes) \<Rightarrow> (bytes \<rightharpoonup> LtcHeaderEntry) \<Rightarrow> LtcHeader list \<Rightarrow> bytes \<Rightarrow> u64 \<Rightarrow> nat \<Rightarrow>
    nat \<times> bytes \<times> u64 \<times> nat" where
  "ltc_known_prefix sha committed [] prev_hash prev_height prev_work =
     (0, prev_hash, prev_height, prev_work)"
| "ltc_known_prefix sha committed (header # hs) prev_hash prev_height prev_work =
     (if bh_prev_hash header \<noteq> prev_hash then (0, prev_hash, prev_height, prev_work)
      else
        let expected_height = prev_height + 1; h = ltc_block_hash sha header
        in case committed h of
             None \<Rightarrow> (0, prev_hash, prev_height, prev_work)
           | Some entry \<Rightarrow>
               if be_height entry \<noteq> expected_height \<or> be_header entry \<noteq> header
               then (0, prev_hash, prev_height, prev_work)
               else case ltc_known_prefix sha committed hs h expected_height (be_total_work entry) of
                      (n, stop) \<Rightarrow> (Suc n, stop))"

definition stage_ltc_header ::
  "(bytes \<Rightarrow> bytes) \<Rightarrow> LtcAnchor \<Rightarrow> RetargetParams \<Rightarrow> u32 \<Rightarrow> (bytes \<rightharpoonup> LtcHeaderEntry) \<Rightarrow>
    LtcHeader \<Rightarrow> StageState \<Rightarrow> err + StageState" where
  "stage_ltc_header sha anchor params iriumd_block_time committed header st =
     bindE (ensure (bh_prev_hash header = st_prev_hash st)
       (Err ''apply_ltc_header_batch: header does not link to previous'')) (\<lambda>_.
     let height = st_prev_height st + 1;
         h = ltc_block_hash sha header;
         view = (committed, st_staged st)
     in
     bindE (ensure (committed h = None)
       (Err ''apply_ltc_header_batch: header already known in chain state'')) (\<lambda>_.
     bindE (ensure (h \<notin> fst ` set (st_staged st))
       (Err ''apply_ltc_header_batch: header duplicated within batch'')) (\<lambda>_.
     bindE (case ltc_expected_bits_for_v height (st_prev_hash st) view anchor params of
              Inr b \<Rightarrow> Inr (Some b)
            | Inl e \<Rightarrow> if e = before_anchor then Inr None else Inl e) (\<lambda>expected_bits_opt.
     let mtp = ltc_median_time_past_v (st_prev_hash st) view anchor
     in
     bindE (case expected_bits_opt of
              Some expected_bits \<Rightarrow>
                ensure (to_target (Target (bh_bits header)) = to_target (Target expected_bits))
                  (Err ''apply_ltc_header_batch: header bits mismatch'')
            | None \<Rightarrow> Inr ()) (\<lambda>_.
     bindE (ensure (\<not> bh_time header \<le> mtp)
       (Err ''apply_ltc_header_batch: header time not above MTP'')) (\<lambda>_.
     bindE (ensure (\<not> bh_time header > sat_add iriumd_block_time LTC_MAX_FUTURE_TIME_SECS)
       (Err ''apply_ltc_header_batch: header time more than 2h ahead of iriumd block time'')) (\<lambda>_.
     let work = st_prev_work st + ltc_work_for_bits (bh_bits header)
     in Inr \<lparr>st_prev_hash = h, st_prev_height = height, st_prev_work = work,
             st_staged = st_staged st @
               [(h, \<lparr>be_header = header, be_height = height, be_total_work = work\<rparr>)]\<rparr>)))))))"

text \<open>
  All proof-of-work checks of a batch run before the others, in parallel in the source; a failure
  rejects the batch.
\<close>

definition apply_ltc_header_batch ::
  "scrypt_kdf \<Rightarrow> (bytes \<Rightarrow> bytes) \<Rightarrow> LtcHeader list \<Rightarrow> u32 \<Rightarrow> LtcRelay \<Rightarrow> LtcAnchor \<Rightarrow>
    RetargetParams \<Rightarrow> err + LtcRelay \<times> LtcRelayUpdate" where
  "apply_ltc_header_batch kdf sha hs iriumd_block_time r anchor params =
     (if hs = [] then Inl (Err ''apply_ltc_header_batch: empty batch'')
      else if length hs > unat MAX_LTC_HEADERS_PER_BATCH then
        Inl (Err ''apply_ltc_header_batch: headers exceeds max'')
      else if ltc_anchor_is_zero anchor then
        Inl (Err ''apply_ltc_header_batch: anchor not configured'')
      else if \<not> list_all (meets_pow kdf) hs then
        Inl (Err ''apply_ltc_header_batch: header fails PoW'')
      else
        bindE (batch_start ''apply_ltc_header_batch: first header does not connect to known chain''
                 (rl_headers r) anchor (hd hs)) (\<lambda>(start_prev_height, start_prev_work).
        case ltc_known_prefix sha (rl_headers r) hs (bh_prev_hash (hd hs)) start_prev_height
               start_prev_work of
          (n, prefix_prev_hash, prefix_prev_height, prefix_prev_work) \<Rightarrow>
            if n = length hs then Inr (r, no_update r)
            else if n > 0 \<and> prefix_prev_height < rl_tip_height r then
              Inl (Err ''apply_ltc_header_batch: known prefix followed by non-tip fork'')
            else
              bindE (foldE (stage_ltc_header sha anchor params iriumd_block_time (rl_headers r))
                      (drop n hs)
                      \<lparr>st_prev_hash = prefix_prev_hash, st_prev_height = prefix_prev_height,
                       st_prev_work = prefix_prev_work, st_staged = []\<rparr>)
                (\<lambda>st. Inr (commit_staged anchor r (st_staged st)))))"

definition undo_ltc_relay_update :: "LtcRelayUpdate \<Rightarrow> LtcRelay \<Rightarrow> LtcRelay" where
  "undo_ltc_relay_update update r =
     \<lparr>rl_headers = foldl (\<lambda>m h. m(h := None)) (rl_headers r) (ru_headers_added update),
      rl_heights = foldl (\<lambda>m h. m(h := None)) (rl_heights r) (ru_headers_added update),
      rl_tip = ru_tip_before update, rl_tip_height = ru_tip_height_before update\<rparr>"

section \<open>The copies of the shared routines\<close>

lemma ltc_serialize_eq: "ltc_serialize = btc_serialize"
  by (simp add: fun_eq_iff ltc_serialize_def btc_serialize_def)

lemma ltc_block_hash_eq: "ltc_block_hash = btc_block_hash"
  by (simp add: fun_eq_iff ltc_block_hash_def btc_block_hash_def ltc_serialize_eq)

lemma ltc_work_for_bits_eq: "ltc_work_for_bits = work_for_bits"
  by (simp add: fun_eq_iff ltc_work_for_bits_def work_for_bits_def)

lemma ltc_compact_bits_eq: "ltc_target_to_compact_bits = target_to_compact_bits"
  by (simp add: fun_eq_iff ltc_target_to_compact_bits_def target_to_compact_bits_def)

lemma ltc_lookup_get_eq: "ltc_lookup_get = lookup_get"
  by (auto simp: fun_eq_iff)

lemma ltc_mtp_times_eq: "ltc_mtp_times n p v a = mtp_times n p v a"
  by (induction n arbitrary: p) (auto simp: ltc_lookup_get_eq split: option.splits)

lemma ltc_median_eq: "ltc_median_time_past_v = median_time_past_v"
  by (simp add: fun_eq_iff ltc_median_time_past_v_def median_time_past_v_def ltc_mtp_times_eq)

lemma ltc_retarget_walk_eq: "ltc_retarget_walk n p t v a = retarget_walk n p t v a"
  by (induction n arbitrary: p) (auto simp: ltc_lookup_get_eq split: option.splits)

lemma ltc_parent_bits_time_eq: "ltc_parent_bits_time = parent_bits_time"
  by (simp add: fun_eq_iff ltc_parent_bits_time_def parent_bits_time_def ltc_lookup_get_eq)

lemma ltc_known_prefix_eq: "ltc_known_prefix sha m hs p t w = known_prefix sha m hs p t w"
  by (induction hs arbitrary: p t w) (auto simp: ltc_block_hash_eq Let_def split: option.splits)

lemma undo_ltc_eq: "undo_ltc_relay_update = undo_btc_relay_update"
  by (simp add: fun_eq_iff undo_ltc_relay_update_def undo_btc_relay_update_def)

lemma ltc_anchor_is_zero_eq: "ltc_anchor_is_zero = btc_anchor_is_zero"
  by (simp add: fun_eq_iff ltc_anchor_is_zero_def btc_anchor_is_zero_def)

section \<open>Validation of a batch\<close>

lemma stage_ltc_header_adds:
  "stage_ltc_header sha anchor params t m header st = Inr st' \<Longrightarrow> stage_adds sha m header st st'"
  by (auto simp: stage_ltc_header_def stage_adds_def Let_def bindE_eq_Inr ltc_block_hash_eq ltc_work_for_bits_eq)

lemma apply_ltc_header_batch_cases:
  assumes "apply_ltc_header_batch kdf sha hs t r anchor params = Inr (r', u)"
  obtains (known) "r' = r" "u = no_update r"
  | (new) n p ht w st where "parent_ok anchor (rl_headers r) p ht w" "n < length hs"
      "foldE (stage_ltc_header sha anchor params t (rl_headers r)) (drop n hs)
        \<lparr>st_prev_hash = p, st_prev_height = ht, st_prev_work = w, st_staged = []\<rparr> = Inr st"
      "commit_staged anchor r (st_staged st) = (r', u)"
proof -
  obtain ht0 w0 where s: "batch_start ''apply_ltc_header_batch: first header does not connect to known chain''
      (rl_headers r) anchor (hd hs) = Inr (ht0, w0)"
    using assms by (auto simp: apply_ltc_header_batch_def bindE_eq_Inr split: if_split_asm)
  obtain n p ht w where k: "known_prefix sha (rl_headers r) hs (bh_prev_hash (hd hs)) ht0 w0 = (n, p, ht, w)"
    by (metis surj_pair)
  note kp = known_prefix_parent [OF k batch_start_parent [OF s]]
  show thesis
  proof (cases "u = no_update r \<and> r' = r")
    case False
    then show thesis
      using new [of p ht w n] assms kp s k
      by (auto simp: apply_ltc_header_batch_def ltc_known_prefix_eq bindE_eq_Inr split: if_split_asm)
  qed (use known in simp)
qed

interpretation ltc_relay: header_relay sha anchor
  "\<lambda>hs t r. apply_ltc_header_batch kdf sha hs t r anchor params" undo_ltc_relay_update
  for kdf sha anchor params
proof (unfold_locales, goal_cases)
  case (1 hs t r r' u)
  then show ?case
  proof (cases rule: apply_ltc_header_batch_cases)
    case (new n p ht w st)
    have "st_staged st \<noteq> [] \<and> staged_ok sha anchor (rl_headers r) (st_staged st)"
      by (rule stage_loop_commits [OF new(1) _ new(3)]) (use new(2) in \<open>auto intro: stage_ltc_header_adds\<close>)
    then show ?thesis using new(4) by blast
  qed simp
qed (simp add: undo_ltc_eq)

lemma ltc_expected_bits_fuel:
  assumes "headers_ok sha anchor (lookup_get view)" "parent_ok anchor (lookup_get view) p ht w"
  shows "ltc_expected_bits_for_v (ht + 1) p view anchor params \<noteq> Inl OutOfFuel"
proof (cases "ht + 1 = 0 \<or> (ht + 1) mod rt_window params \<noteq> 0")
  case True
  then show ?thesis
    by (auto simp: ltc_expected_bits_for_v_def ltc_parent_bits_time_eq parent_bits_time_def bindE_eq_Inl
        split: if_splits option.splits)
next
  case False
  let ?n = "unat (rt_window params)" and ?h = "unat (ht + 1)"
  define T where "T = (if ht + 1 = rt_window params then ht + 1 - rt_window params else ht + 1 - rt_window params - 1)"
  have "unat ((ht + 1) mod rt_window params) = 0" using False by simp
  then have dvd: "?n dvd ?h" by (simp add: unat_mod mod_eq_0_iff_dvd)
  have nz: "0 < ?h" using False by (simp add: unat_gt_0)
  then have ge: "?n \<le> ?h" using dvd by (simp add: dvd_imp_le)
  have d: "unat (ht + 1 - rt_window params) = ?h - ?n"
    using unat_sub [of "rt_window params" "ht + 1"] ge by (simp add: word_le_nat_alt)
  have bT: "unat T \<le> ?h \<and> ?h \<le> unat T + ?n + 1"
  proof (cases "ht + 1 = rt_window params")
    case True
    then show ?thesis by (simp add: T_def)
  next
    case ne: False
    then have "ht + 1 - rt_window params \<noteq> 0" by simp
    then have "unat T = ?h - ?n - 1" using unat_minus_one [of "ht + 1 - rt_window params"] d ne by (simp add: T_def)
    then show ?thesis by simp
  qed
  have ht: "?h = unat ht + 1" using nz False unat_minus_one [of "ht + 1"] by simp
  have "retarget_walk (?n + 1) p T view anchor \<noteq> Inl OutOfFuel"
  proof (rule retarget_walk_fuel [OF assms(1)])
    fix e
    assume "p \<noteq> an_hash anchor" "lookup_get view p = Some e"
    then have "be_height e = ht" using assms(2) by (auto simp: parent_ok_def)
    then show "unat (be_height e) < ?n + 1 + unat T" using conjunct2 [OF bT] ht by simp
  qed simp
  then show ?thesis
    by (auto simp: ltc_expected_bits_for_v_def ltc_parent_bits_time_eq parent_bits_time_def
        ltc_find_ancestor_time_at_height_v_def ltc_retarget_walk_eq ltc_retarget_def
        bindE_eq_Inl Let_def T_def split: if_splits option.splits)
qed

lemma stage_ltc_header_fuel:
  assumes "headers_ok sha anchor m" "stage_inv sha anchor m st"
  shows "stage_ltc_header sha anchor params t m header st \<noteq> Inl OutOfFuel"
proof -
  have st: "staged_ok sha anchor m (st_staged st)" using assms(2) by (simp add: stage_inv_def)
  have "headers_ok sha anchor (lookup_get (m, st_staged st))"
    unfolding lookup_staged [OF st] by (rule headers_ok_staged [OF assms(1) st])
  from ltc_expected_bits_fuel [OF this stage_inv_parent [OF assms(2)]] show ?thesis
    by (auto simp: stage_ltc_header_def bindE_eq_Inl Let_def split: sum.split_asm option.split_asm if_split_asm)
qed

lemma apply_ltc_header_batch_fuel:
  assumes "relay_ok sha anchor r"
  shows "apply_ltc_header_batch kdf sha hs t r anchor params \<noteq> Inl OutOfFuel"
proof
  assume a: "apply_ltc_header_batch kdf sha hs t r anchor params = Inl OutOfFuel"
  have ok: "headers_ok sha anchor (rl_headers r)" using assms by (simp add: relay_ok_def)
  obtain ht0 w0 where s: "batch_start ''apply_ltc_header_batch: first header does not connect to known chain''
      (rl_headers r) anchor (hd hs) = Inr (ht0, w0)"
    using a by (auto simp: apply_ltc_header_batch_def bindE_eq_Inl batch_start_def split: if_split_asm option.split_asm)
  obtain n p ht w where k: "known_prefix sha (rl_headers r) hs (bh_prev_hash (hd hs)) ht0 w0 = (n, p, ht, w)"
    by (metis surj_pair)
  have "parent_ok anchor (rl_headers r) p ht w"
    using known_prefix_parent [OF k batch_start_parent [OF s]] by blast
  then have "foldE (stage_ltc_header sha anchor params t (rl_headers r)) (drop n hs)
      \<lparr>st_prev_hash = p, st_prev_height = ht, st_prev_work = w, st_staged = []\<rparr> \<noteq> Inl OutOfFuel"
    by (intro stage_loop_fuel [OF stage_start_inv stage_ltc_header_adds stage_ltc_header_fuel [OF ok]])
  then show False
    using a s k by (auto simp: apply_ltc_header_batch_def ltc_known_prefix_eq bindE_eq_Inl split: if_split_asm)
qed

section \<open>Properties\<close>

text \<open>
  C15. The Litecoin relay keeps the contract of the Bitcoin relay, with any retarget parameters and
  any key derivation: in a consistent relay applying a batch always returns; a batch that is accepted
  leaves the relay consistent with a tip of at least the work it had; and undoing its record restores
  the relay exactly.
\<close>

theorem ltc_relay_correct:
  assumes "relay_ok sha anchor r"
  shows "apply_ltc_header_batch kdf sha hs t r anchor params \<noteq> Inl OutOfFuel \<and>
    (\<forall>r' u. apply_ltc_header_batch kdf sha hs t r anchor params = Inr (r', u) \<longrightarrow>
       relay_ok sha anchor r' \<and> undo_ltc_relay_update u r' = r \<and>
       tip_work anchor (rl_headers r) (rl_tip r) \<le> tip_work anchor (rl_headers r') (rl_tip r'))"
proof (intro conjI allI impI)
  show "apply_ltc_header_batch kdf sha hs t r anchor params \<noteq> Inl OutOfFuel"
    by (rule apply_ltc_header_batch_fuel [OF assms])
  fix r' u
  assume e: "apply_ltc_header_batch kdf sha hs t r anchor params = Inr (r', u)"
  show "relay_ok sha anchor r'" by (rule ltc_relay.extend_ok [OF e assms])
  show "undo_ltc_relay_update u r' = r"
    by (rule ltc_relay.extend_undo [OF e ltc_relay.relay_ok_dom [OF assms]])
  show "tip_work anchor (rl_headers r) (rl_tip r) \<le> tip_work anchor (rl_headers r') (rl_tip r')"
    by (rule ltc_relay.extend_tip_work [OF e assms])
qed

definition zero_kdf :: scrypt_kdf where
  "zero_kdf log_n r p len pw salt = replicate len 0"

theorem ltc_relay_correct_witness:
  "\<exists>r' u. apply_ltc_header_batch zero_kdf pad32 sample_batch 3000000 (empty_relay 100) sample_anchor LITECOIN
      = Inr (r', u) \<and> relay_ok pad32 sample_anchor r' \<and> undo_ltc_relay_update u r' = empty_relay 100"
proof -
  let ?h = "sample_btc_header\<lparr>bh_bits := 0x2200ffff\<rparr>"
  have z: "le_val (replicate 32 0) = 0" by code_simp
  have pow: "list_all (meets_pow zero_kdf) sample_batch"
    by (simp add: sample_batch_def meets_pow_def meets_target_ltc_def scrypt_hash_def zero_kdf_def
        meets_target_btc_def z)
  have e: "ltc_expected_bits_for_v 101 (replicate 32 1) (Map.empty, []) sample_anchor LITECOIN = Inr 0x2200ffff"
    by (simp add: ltc_expected_bits_for_v_def ltc_parent_bits_time_def sample_anchor_def LITECOIN_def)
  have t: "ltc_median_time_past_v (replicate 32 1) (Map.empty, []) sample_anchor = 1000"
    by (simp add: ltc_median_time_past_v_def sample_anchor_def numeral_eq_Suc)
  have a: "an_hash sample_anchor = replicate 32 1" "an_height sample_anchor = 100"
    "\<not> ltc_anchor_is_zero sample_anchor"
    by (simp_all add: sample_anchor_def ltc_anchor_is_zero_def)
  have f: "bh_prev_hash ?h = replicate 32 1" "bh_time ?h = 3000000"
    by (simp_all add: sample_btc_header_def)
  obtain st where st: "stage_ltc_header pad32 sample_anchor LITECOIN 3000000 Map.empty ?h
      \<lparr>st_prev_hash = replicate 32 1, st_prev_height = 100,
       st_prev_work = work_for_bits (an_bits sample_anchor), st_staged = []\<rparr> = Inr st"
    using e t f unfolding stage_ltc_header_def Let_def by (simp add: ensure_def sat_add_def)
  obtain r u where "commit_staged sample_anchor (empty_relay 100) (st_staged st) = (r, u)" by fastforce
  then have r: "apply_ltc_header_batch zero_kdf pad32 sample_batch 3000000 (empty_relay 100) sample_anchor LITECOIN = Inr (r, u)"
    using st a f pow by (simp add: apply_ltc_header_batch_def sample_batch_def empty_relay_def batch_start_def)
  show ?thesis using ltc_relay_correct [OF empty_relay_ok] r by blast
qed

end
