(* ===== verification/Difficulty.thy ===== *)
theory Difficulty
  imports Block LtcSpv
begin

text \<open>
  Chain parameters and difficulty (\<open>src/src/chain.rs\<close>): the legacy 2016-block retarget, the
  linearly weighted moving average (LWMA) that replaces it, the choice between them, the median time
  past and the work of a block. The methods read only the parameters and the main chain of the state,
  which are their arguments. A chain is the list of its blocks, genesis first. Where the source
  would panic (an empty chain, a division by zero) the result is \<open>Inl Panic\<close>.
\<close>

section \<open>Parameters\<close>

record LwmaParams =
  lw_activation_height :: "u64 option"
  lw_window :: u64
  lw_min_solvetime :: u64
  lw_solvetime_clamp_factor :: u64
  lw_max_target_up_factor :: u64
  lw_max_target_down_factor :: u64
  lw_max_target :: Target

definition lwma_params_new :: "u64 option \<Rightarrow> Target \<Rightarrow> LwmaParams" where
  "lwma_params_new activation_height pow_limit =
     \<lparr>lw_activation_height = activation_height, lw_window = 60, lw_min_solvetime = 1,
      lw_solvetime_clamp_factor = 6, lw_max_target_up_factor = 2, lw_max_target_down_factor = 2,
      lw_max_target = min_difficulty_target pow_limit 1\<rparr>"

definition lwma_params_new_v2 :: "u64 option \<Rightarrow> Target \<Rightarrow> LwmaParams" where
  "lwma_params_new_v2 activation_height pow_limit =
     \<lparr>lw_activation_height = activation_height, lw_window = 30, lw_min_solvetime = 1,
      lw_solvetime_clamp_factor = 10, lw_max_target_up_factor = 2, lw_max_target_down_factor = 2,
      lw_max_target = min_difficulty_target pow_limit 1\<rparr>"

definition max_solvetime_at :: "environ \<Rightarrow> LwmaParams \<Rightarrow> u64 \<Rightarrow> u64" where
  "max_solvetime_at env p target_height =
     sat_mul (lw_solvetime_clamp_factor p) (block_target_interval env target_height)"

record 'r ChainParams =
  genesis_block :: "'r Block"
  pow_limit :: Target
  htlcv1_activation_height :: "u64 option"
  mpsov1_activation_height :: "u64 option"
  lwma :: LwmaParams
  lwma_v2 :: "LwmaParams option"
  auxpow_activation_height :: "u64 option"
  btc_spv :: "BtcSpvParams option"
  ltc_spv :: "LtcSpvParams option"
  htlc_btc_swap_v1_activation_height :: "u64 option"
  btc_swap_bech32_payment_activation_height :: "u64 option"
  htlc_ltc_swap_v1_activation_height :: "u64 option"
  swap_order_v1_activation_height :: "u64 option"
  ltc_swap_order_v1_activation_height :: "u64 option"
  coinbase_header_batch_activation_height :: "u64 option"

section \<open>Targets\<close>

definition median_time_past :: "'r Block list \<Rightarrow> u32" where
  "median_time_past chain =
     (let count = min (length chain) 11
      in if count = 0 then 0
         else sort (map (\<lambda>b. hdr_time (header b)) (drop (length chain - count) chain)) ! (count div 2))"

definition fast_mining_network :: "environ \<Rightarrow> bool" where
  "fast_mining_network env \<longleftrightarrow>
     env ''IRIUM_NETWORK'' = Some ''devnet'' \<or> env ''IRIUM_NETWORK'' = Some ''regtest''"

text \<open>The retarget proper: the last target scaled by the elapsed time, clamped to a factor of four.\<close>

definition legacy_retarget :: "u32 \<Rightarrow> u32 \<Rightarrow> nat \<Rightarrow> nat" where
  "legacy_retarget last_time prev_time last_target =
     (let actual_time = int (unat last_time) - int (unat prev_time);
          expected_time = 2016 * 600 :: int;
          expected_time = (if expected_time \<le> 0 then 1 else expected_time);
          adj_num = (if actual_time \<le> 0 then expected_time div 4 else actual_time);
          adj_den = expected_time;
          adj_num = (if adj_num * 4 < adj_den then adj_den div 4
                     else if adj_num > adj_den * 4 then adj_den * 4 else adj_num)
      in last_target * nat adj_num div nat adj_den)"

definition legacy_target_for_height ::
  "environ \<Rightarrow> 'r ChainParams \<Rightarrow> 'r Block list \<Rightarrow> u64 \<Rightarrow> err + Target" where
  "legacy_target_for_height env params chain height =
     (if height > 0 \<and> fast_mining_network env then Inr (Target 0x207fffff)
      else if height = 0 then Inr (target (header (genesis_block params)))
      else if chain = [] then Inl Panic
      else
        let last_block = last chain; interval = unat DIFFICULTY_RETARGET_INTERVAL
        in if height < DIFFICULTY_RETARGET_INTERVAL \<or> height mod DIFFICULTY_RETARGET_INTERVAL \<noteq> 0
           then Inr (target (header last_block))
           else if length chain \<le> interval then Inr (target (header last_block))
           else
             let prev_block = chain ! (length chain - interval)
             in Inr (from_target (legacy_retarget (hdr_time (header last_block)) (hdr_time (header prev_block))
                       (to_target (target (header last_block))))))"

text \<open>
  The sample loop of LWMA over consecutive blocks: the weighted sum of clamped solve times, the sum
  of the weights (both \<open>u128\<close>) and the sum of the targets.
\<close>

definition solvetime :: "u64 \<Rightarrow> u64 \<Rightarrow> u32 \<Rightarrow> u32 \<Rightarrow> u64" where
  "solvetime min_solvetime max_solvetime previous current =
     min (ucast (max (sat_sub current previous) (ucast min_solvetime :: u32))) max_solvetime"

fun lwma_samples ::
  "u64 \<Rightarrow> u64 \<Rightarrow> nat \<Rightarrow> 'r Block \<Rightarrow> 'r Block list \<Rightarrow> nat \<times> nat \<times> nat \<Rightarrow> nat \<times> nat \<times> nat" where
  "lwma_samples min_st max_st offset previous [] acc = acc"
| "lwma_samples min_st max_st offset previous (current # rest) (weighted, weights, targets) =
     (let st = solvetime min_st max_st (hdr_time (header previous)) (hdr_time (header current));
          weight = offset + 1
      in lwma_samples min_st max_st (offset + 1) current rest
           ((weighted + weight * unat st) mod 2 ^ 128, (weights + weight) mod 2 ^ 128,
            targets + to_target (target (header current))))"

text \<open>The clamps of the next target: the step factors against the previous one, then the caps.\<close>

definition lwma_clamp :: "LwmaParams \<Rightarrow> Target \<Rightarrow> nat \<Rightarrow> nat \<Rightarrow> nat" where
  "lwma_clamp p limit previous_target next_target =
     (let min_step = previous_target div unat (max (lw_max_target_down_factor p) 1);
          min_step = (if min_step = 0 then 1 else min_step);
          max_step = previous_target * unat (max (lw_max_target_up_factor p) 1);
          next_target = (if next_target < min_step then min_step else next_target);
          next_target = (if next_target > max_step then max_step else next_target);
          hard_max = (if to_target (lw_max_target p) < to_target limit
                      then to_target (lw_max_target p) else to_target limit)
      in if next_target > hard_max then hard_max else next_target)"

definition lwma_target_for_height_with ::
  "environ \<Rightarrow> 'r ChainParams \<Rightarrow> 'r Block list \<Rightarrow> LwmaParams \<Rightarrow> u64 \<Rightarrow> err + Target" where
  "lwma_target_for_height_with env params chain p target_height =
     (if length chain > 1 \<and> fast_mining_network env then Inr (Target 0x207fffff)
      else if chain = [] then Inl Panic
      else
        let last_block = last chain; sample_count = min (unat (lw_window p)) (length chain - 1)
        in if sample_count = 0 then Inr (target (header last_block))
           else
             let target_t = block_target_interval env target_height;
                 max_solvetime = max_solvetime_at env p target_height;
                 start = length chain - sample_count;
                 (weighted_solvetimes, weight_total, target_sum) =
                   lwma_samples (lw_min_solvetime p) max_solvetime 0 (chain ! (start - 1)) (drop start chain) (0, 0, 0);
                 avg_target = target_sum div sample_count;
                 avg_target = (if avg_target = 0 then 1 else avg_target);
                 observed = max weighted_solvetimes 1;
                 expected = unat target_t * weight_total mod 2 ^ 128
             in if expected = 0 then Inl Panic
                else
                  let next_target = avg_target * observed div expected;
                      next_target = (if next_target = 0 then 1 else next_target)
                  in Inr (from_target (lwma_clamp p (pow_limit params) (to_target (target (header last_block)))
                            next_target)))"

definition lwma_target_for_height ::
  "environ \<Rightarrow> 'r ChainParams \<Rightarrow> 'r Block list \<Rightarrow> u64 \<Rightarrow> err + Target" where
  "lwma_target_for_height env params chain target_height =
     lwma_target_for_height_with env params chain (lwma params) target_height"

definition lwma_active_at :: "'r ChainParams \<Rightarrow> u64 \<Rightarrow> bool" where
  "lwma_active_at params height = reached (lw_activation_height (lwma params)) height"

definition lwma_v2_active_at :: "'r ChainParams \<Rightarrow> u64 \<Rightarrow> bool" where
  "lwma_v2_active_at params height = reached (Option.bind (lwma_v2 params) lw_activation_height) height"

definition target_for_height :: "environ \<Rightarrow> 'r ChainParams \<Rightarrow> 'r Block list \<Rightarrow> u64 \<Rightarrow> err + Target" where
  "target_for_height env params chain height =
     bindE (legacy_target_for_height env params chain height) (\<lambda>legacy_target.
     if \<not> lwma_active_at params height then Inr legacy_target
     else if lwma_v2_active_at params height then
       (case lwma_v2 params of
          Some v2 \<Rightarrow> lwma_target_for_height_with env params chain v2 height
        | None \<Rightarrow> Inl Panic)
     else lwma_target_for_height env params chain height)"

section \<open>Work\<close>

definition work_for_target :: "Target \<Rightarrow> nat" where
  "work_for_target t = (let n = to_target t in if n = 0 then 0 else 2 ^ 256 div (n + 1))"

definition block_work :: "'r Block \<Rightarrow> nat" where
  "block_work b = work_for_target (target (header b))"

section \<open>The LWMA formula\<close>

lemma lwma_samples_closed:
  fixes t :: "nat \<Rightarrow> 'r Block"
  shows "lwma_samples mn mx off (t off) (map t [off + 1..<off + 1 + n]) (w mod 2 ^ 128, ws mod 2 ^ 128, ts) =
    ((w + (\<Sum>i = off + 1..off + n. i * unat (solvetime mn mx (hdr_time (header (t (i - 1)))) (hdr_time (header (t i)))))) mod 2 ^ 128,
     (ws + (\<Sum>i = off + 1..off + n. i)) mod 2 ^ 128,
     ts + (\<Sum>i = off + 1..off + n. to_target (target (header (t i)))))"
proof (induction n arbitrary: off w ws ts)
  case (Suc n)
  have l: "[off + 1..<off + 1 + Suc n] = (off + 1) # [Suc off + 1..<Suc off + 1 + n]"
    by (subst upt_conv_Cons) simp_all
  have r: "(\<Sum>i = off + 1..off + Suc n. f i) = f (off + 1) + (\<Sum>i = Suc off + 1..Suc off + n. f i)" for f :: "nat \<Rightarrow> nat"
    using sum.atLeast_Suc_atMost [of "off + 1" "off + Suc n" f] by (simp del: sum.cl_ivl_Suc)
  let ?st = "(off + 1) * unat (solvetime mn mx (hdr_time (header (t off))) (hdr_time (header (t (off + 1)))))"
  show ?case
    unfolding l list.map lwma_samples.simps Let_def r mod_add_left_eq
    using Suc.IH [of "Suc off" "w + ?st" "ws + (off + 1)" "ts + to_target (target (header (t (off + 1))))"]
    by (simp add: add.assoc)
qed simp

text \<open>The average of the targets, the weighted solve times and the expected time of a window of \<open>n\<close> blocks.\<close>

definition lwma_average :: "(nat \<Rightarrow> 'r Block) \<Rightarrow> nat \<Rightarrow> nat" where
  "lwma_average t n = max 1 ((\<Sum>i = 1..n. to_target (target (header (t i)))) div n)"

definition lwma_observed :: "u64 \<Rightarrow> u64 \<Rightarrow> (nat \<Rightarrow> 'r Block) \<Rightarrow> nat \<Rightarrow> nat" where
  "lwma_observed mn mx t n =
     max 1 (\<Sum>i = 1..n. i * unat (solvetime mn mx (hdr_time (header (t (i - 1)))) (hdr_time (header (t i)))))"

definition lwma_expected :: "environ \<Rightarrow> u64 \<Rightarrow> nat \<Rightarrow> nat" where
  "lwma_expected env h n = unat (block_target_interval env h) * (n * (n + 1) div 2)"

lemma gauss_sum: "(\<Sum>i = 1..n. i) = n * (n + 1) div (2 :: nat)"
  by (induction n) simp_all

lemma block_target_interval_pos: "0 < unat (block_target_interval env h)"
  by (simp add: block_target_interval_def split: option.split)

lemma triangle_small: "n \<le> 2 ^ 32 \<Longrightarrow> n * (n + 1) div 2 < (2 :: nat) ^ 64"
proof -
  assume "n \<le> 2 ^ 32"
  then have "n * (n + 1) \<le> 2 ^ 32 * (2 ^ 32 + 1)" by (intro mult_le_mono) simp_all
  then have "n * (n + 1) div 2 \<le> 2 ^ 32 * (2 ^ 32 + 1) div 2" by (rule div_le_mono)
  then show ?thesis by simp
qed

lemma weighted_small:
  fixes u :: "nat \<Rightarrow> u64"
  assumes "n \<le> 2 ^ 32"
  shows "(\<Sum>i = 1..n. i * unat (u i)) < 2 ^ 128"
proof -
  have "(\<Sum>i = 1..n. i * unat (u i)) \<le> (\<Sum>i = 1..n. i * (2 ^ 64 - 1))"
  proof (intro sum_mono mult_le_mono le_refl)
    show "unat (u i) \<le> 2 ^ 64 - 1" for i using unsigned_less [of "u i", where 'a = nat] by simp
  qed
  also have "\<dots> = (n * (n + 1) div 2) * (2 ^ 64 - 1)" by (simp only: gauss_sum flip: sum_distrib_right)
  also have "\<dots> \<le> 2 ^ 64 * (2 ^ 64 - 1)" using triangle_small [OF assms] by (intro mult_le_mono) simp_all
  finally show ?thesis by simp
qed

lemma lwma_target_formula:
  assumes n: "n = min (unat (lw_window p)) (length chain - 1)" "0 < n" "n \<le> 2 ^ 32" and "\<not> fast_mining_network env"
  shows "lwma_target_for_height_with env params chain p h =
    Inr (from_target (lwma_clamp p (pow_limit params) (to_target (target (header (last chain))))
      (max 1 (lwma_average (\<lambda>i. chain ! (length chain - 1 - n + i)) n *
        lwma_observed (lw_min_solvetime p) (max_solvetime_at env p h) (\<lambda>i. chain ! (length chain - 1 - n + i)) n div
        lwma_expected env h n))))"
proof -
  let ?t = "\<lambda>i. chain ! (length chain - 1 - n + i)"
  have ln: "n < length chain" using n(1,2) by auto
  then have ne: "chain \<noteq> []" by auto
  have d: "drop (length chain - n) chain = map ?t [0 + 1..<0 + 1 + n]"
    by (rule nth_equalityI) (use ln in \<open>simp_all add: add.commute del: upt_Suc\<close>)
  have e: "lwma_samples (lw_min_solvetime p) (max_solvetime_at env p h) 0 (chain ! (length chain - n - 1))
      (drop (length chain - n) chain) (0, 0, 0) =
    (\<Sum>i = 1..n. i * unat (solvetime (lw_min_solvetime p) (max_solvetime_at env p h) (hdr_time (header (?t (i - 1)))) (hdr_time (header (?t i)))),
     n * (n + 1) div 2, \<Sum>i = 1..n. to_target (target (header (?t i))))"
    using lwma_samples_closed [of "lw_min_solvetime p" "max_solvetime_at env p h" 0 ?t n 0 0 0]
      weighted_small [OF n(3)] triangle_small [OF n(3)]
    unfolding d by (simp add: gauss_sum [simplified] diff_commute)
  have x: "lwma_expected env h n < 2 ^ 128" "0 < lwma_expected env h n"
  proof -
    have "lwma_expected env h n \<le> (2 ^ 64 - 1) * 2 ^ 64"
      unfolding lwma_expected_def using triangle_small [OF n(3)] unsigned_less [of "block_target_interval env h", where 'a = nat]
      by (intro mult_le_mono) simp_all
    then show "lwma_expected env h n < 2 ^ 128" by simp
    have "2 \<le> n * (n + 1)" using n(2) by (cases n) simp_all
    then show "0 < lwma_expected env h n"
      using block_target_interval_pos by (simp add: lwma_expected_def div_greater_zero_iff)
  qed
  have o: "max (\<Sum>i = 1..n. i * unat (solvetime (lw_min_solvetime p) (max_solvetime_at env p h) (hdr_time (header (?t (i - 1)))) (hdr_time (header (?t i))))) 1 =
      lwma_observed (lw_min_solvetime p) (max_solvetime_at env p h) ?t n"
    by (simp add: lwma_observed_def max.commute)
  have a: "(if (\<Sum>i = 1..n. to_target (target (header (?t i)))) div n = 0 then 1 else (\<Sum>i = 1..n. to_target (target (header (?t i)))) div n) =
      lwma_average ?t n"
    by (simp add: lwma_average_def)
  have m: "(if x = 0 then 1 else x) = max 1 x" for x :: nat by simp
  show ?thesis
    unfolding lwma_target_for_height_with_def Let_def n(1) [symmetric] e prod.case o a m
    using x assms(4) n(2) ne by (simp add: lwma_expected_def lwma_average_def)
qed

text \<open>
  C17. The LWMA target is what its description says: the average target of the window times the
  weighted solve times over the expected time, clamped, on every chain above its genesis. In
  particular it is computed without overflow and without a division by zero for every window of at
  most \<open>2 ^ 32\<close> blocks.
\<close>

theorem lwma_follows_formula:
  assumes "n = min (unat (lw_window p)) (length chain - 1)" "0 < n" "n \<le> 2 ^ 32" "\<not> fast_mining_network env"
  shows "lwma_target_for_height_with env params chain p h =
    Inr (from_target (lwma_clamp p (pow_limit params) (to_target (target (header (last chain))))
      (max 1 (lwma_average (\<lambda>i. chain ! (length chain - 1 - n + i)) n *
        lwma_observed (lw_min_solvetime p) (max_solvetime_at env p h) (\<lambda>i. chain ! (length chain - 1 - n + i)) n div
        lwma_expected env h n))))"
  by (rule lwma_target_formula [OF assms])

lemma lwma_clamp_bounds:
  "lwma_clamp p limit prev next \<le> prev * unat (max (lw_max_target_up_factor p) 1)"
  "lwma_clamp p limit prev next \<le> to_target limit"
  "lwma_clamp p limit prev next \<le> to_target (lw_max_target p)"
  "prev div unat (max (lw_max_target_down_factor p) 1) \<le> lwma_clamp p limit prev next \<or>
   lwma_clamp p limit prev next = min (to_target limit) (to_target (lw_max_target p))"
proof -
  have up: "prev \<le> prev * unat (max (lw_max_target_up_factor p) 1)"
  proof -
    have "1 \<le> unat (max (lw_max_target_up_factor p) 1)"
      by (metis max.cobounded2 unat_1 word_le_nat_alt)
    then show ?thesis by simp
  qed
  then have dn: "prev div k \<le> prev * unat (max (lw_max_target_up_factor p) 1)" for k
    using div_le_dividend le_trans by blast
  show "lwma_clamp p limit prev next \<le> prev * unat (max (lw_max_target_up_factor p) 1)"
    "lwma_clamp p limit prev next \<le> to_target limit"
    "lwma_clamp p limit prev next \<le> to_target (lw_max_target p)"
    "prev div unat (max (lw_max_target_down_factor p) 1) \<le> lwma_clamp p limit prev next \<or>
     lwma_clamp p limit prev next = min (to_target limit) (to_target (lw_max_target p))"
    using dn [of "unat (max (lw_max_target_down_factor p) 1)"] by (auto simp: lwma_clamp_def Let_def min_def)
qed

text \<open>
  C18. From one block to the next the LWMA target changes at most by the step factors: before compact
  encoding, which only rounds down, it is at most the previous target times the upward factor and at
  most both caps, and at least the previous target divided by the downward factor unless the lower of
  the two caps is below that.
\<close>

theorem lwma_step_bounded:
  assumes "n = min (unat (lw_window p)) (length chain - 1)" "0 < n" "n \<le> 2 ^ 32" "\<not> fast_mining_network env"
  shows "\<exists>m. lwma_target_for_height_with env params chain p h = Inr (from_target m) \<and>
    m \<le> to_target (target (header (last chain))) * unat (max (lw_max_target_up_factor p) 1) \<and>
    m \<le> to_target (pow_limit params) \<and> m \<le> to_target (lw_max_target p) \<and>
    (to_target (target (header (last chain))) div unat (max (lw_max_target_down_factor p) 1) \<le> m \<or>
     m = min (to_target (pow_limit params)) (to_target (lw_max_target p)))"
  using lwma_target_formula [OF assms] lwma_clamp_bounds by blast

lemma unat_sat_mul_ge: "1 \<le> unat a \<Longrightarrow> unat b \<le> unat (sat_mul a b)"
  using le_diff_conv2 [of 1 "2 ^ LENGTH('a)" "unat b"] unsigned_less [of b, where 'a = nat]
  by (simp add: sat_mul_def unat_word_ariths unsigned_minus_1_eq_mask mask_eq_exp_minus_1)

lemma max_solvetime_ge:
  assumes "1 \<le> lw_solvetime_clamp_factor p"
  shows "block_target_interval env h \<le> max_solvetime_at env p h"
proof -
  have "1 \<le> unat (lw_solvetime_clamp_factor p)" using assms by (metis unat_1 word_le_nat_alt)
  then show ?thesis by (simp add: max_solvetime_at_def word_le_nat_alt unat_sat_mul_ge)
qed

lemma solvetime_on_time:
  fixes w mx :: u64
  assumes "unat t' = unat t + unat w" "0 < unat w" "w \<le> mx"
  shows "solvetime 1 mx t t' = w"
proof -
  have s: "unat (sat_sub t' t) = unat w" using assms(1) by (simp add: unat_sat_sub)
  moreover have "(ucast (1 :: u64) :: u32) \<le> sat_sub t' t" using s assms(2) by (simp add: word_le_nat_alt)
  ultimately have "(ucast (max (sat_sub t' t) (ucast (1 :: u64) :: u32)) :: u64) = w"
    using unsigned_less [of "sat_sub t' t", where 'a = nat]
    by (simp add: max_def word_unat_eq_iff unsigned_ucast_eq take_bit_nat_eq_self)
  then show ?thesis using assms(3) by (simp add: solvetime_def)
qed

lemma lwma_clamp_stay:
  assumes "0 < b" "b \<le> to_target limit" "b \<le> to_target (lw_max_target p)"
  shows "lwma_clamp p limit b b = b"
proof -
  have "1 \<le> unat (max (lw_max_target_up_factor p) 1)" by (metis max.cobounded2 unat_1 word_le_nat_alt)
  then have u: "\<not> b * unat (max (lw_max_target_up_factor p) 1) < b" by simp
  have d: "\<not> b < (if b div k = 0 then 1 else b div k)" for k
    using assms(1) div_le_dividend [of b k] by (simp add: not_less)
  have h: "\<not> (if to_target (lw_max_target p) < to_target limit then to_target (lw_max_target p) else to_target limit) < b"
    using assms(2,3) by simp
  show ?thesis unfolding lwma_clamp_def Let_def if_not_P [OF d] if_not_P [OF u] if_not_P [OF h] ..
qed

text \<open>
  C19. The LWMA has its fixed point where it should: when the blocks of the window all have the same
  target, within the caps, and each came exactly one target interval after the block before, the next
  target is the same (re-encoded).
\<close>

theorem lwma_steady_state:
  assumes n: "n = min (unat (lw_window p)) (length chain - 1)" "0 < n" "n \<le> 2 ^ 32" "\<not> fast_mining_network env"
    and b: "\<forall>i \<in> {1..n}. target (header (chain ! (length chain - 1 - n + i))) = b"
    and t: "\<forall>i \<in> {1..n}. unat (hdr_time (header (chain ! (length chain - 1 - n + i)))) =
      unat (hdr_time (header (chain ! (length chain - 1 - n + (i - 1))))) + unat (block_target_interval env h)"
    and p: "lw_min_solvetime p = 1" "1 \<le> lw_solvetime_clamp_factor p"
    and c: "0 < to_target b" "to_target b \<le> to_target (pow_limit params)" "to_target b \<le> to_target (lw_max_target p)"
  shows "lwma_target_for_height_with env params chain p h = Inr (from_target (to_target b))"
proof -
  let ?t = "\<lambda>i. chain ! (length chain - 1 - n + i)"
  let ?T = "block_target_interval env h"
  have st: "solvetime 1 (max_solvetime_at env p h) (hdr_time (header (?t (i - 1)))) (hdr_time (header (?t i))) = ?T"
    if "i \<in> {1..n}" for i
    using t that by (intro solvetime_on_time block_target_interval_pos max_solvetime_ge p(2)) blast
  have "(\<Sum>i = 1..n. i * unat (solvetime 1 (max_solvetime_at env p h) (hdr_time (header (?t (i - 1)))) (hdr_time (header (?t i))))) =
      (\<Sum>i = 1..n. i * unat ?T)"
    by (intro sum.cong) (simp_all only: st)
  also have "\<dots> = lwma_expected env h n"
    by (simp only: lwma_expected_def gauss_sum mult.commute flip: sum_distrib_right)
  finally have o: "lwma_observed 1 (max_solvetime_at env p h) ?t n = max 1 (lwma_expected env h n)"
    by (simp add: lwma_observed_def)
  have "2 \<le> n * (n + 1)" using n(2) by (cases n) simp_all
  then have e: "0 < lwma_expected env h n"
    using block_target_interval_pos by (simp add: lwma_expected_def div_greater_zero_iff)
  have "(\<Sum>i = 1..n. to_target (target (header (?t i)))) = (\<Sum>i = 1..n. to_target b)"
    using b by (intro sum.cong) simp_all
  then have a: "lwma_average ?t n = to_target b" using n(2) c(1) by (simp add: lwma_average_def)
  have "n < length chain" using n(1,2) by auto
  then have l: "target (header (last chain)) = b"
    using bspec [OF b, of n] n(2) by (cases "chain = []") (simp_all add: last_conv_nth)
  show ?thesis
    unfolding lwma_target_formula [OF n] p(1) o a l
    using e c lwma_clamp_stay [OF c] by (simp add: max_def)
qed

definition timed_block :: "u32 \<Rightarrow> unit Block" where
  "timed_block t = \<lparr>header = \<lparr>hdr_version = 1, hdr_prev_hash = [], hdr_merkle_root = [], hdr_time = t, hdr_bits = 0x1d00ffff,
     hdr_nonce = 0\<rparr>, transactions = [], auxpow = None, poawx_receipts = None\<rparr>"

definition timed_params :: "unit ChainParams" where
  "timed_params = \<lparr>genesis_block = timed_block 0, pow_limit = Target 0x1d00ffff,
     htlcv1_activation_height = None, mpsov1_activation_height = None,
     lwma = lwma_params_new None (Target 0x1d00ffff), lwma_v2 = None, auxpow_activation_height = None,
     btc_spv = None, ltc_spv = None, htlc_btc_swap_v1_activation_height = None,
     btc_swap_bech32_payment_activation_height = None, htlc_ltc_swap_v1_activation_height = None,
     swap_order_v1_activation_height = None, ltc_swap_order_v1_activation_height = None,
     coinbase_header_batch_activation_height = None\<rparr>"

abbreviation timed_lwma :: LwmaParams where
  "timed_lwma \<equiv> lwma timed_params"

lemma timed_facts:
  "2 = min (unat (lw_window timed_lwma)) (length [timed_block 0, timed_block 600, timed_block 1200] - 1)"
  "\<not> fast_mining_network (\<lambda>_. None)" "block_target_interval (\<lambda>_. None) 3 = 600"
  "lw_min_solvetime timed_lwma = 1" "1 \<le> lw_solvetime_clamp_factor timed_lwma"
  "0 < to_target (Target 0x1d00ffff)" "to_target (Target 0x1d00ffff) \<le> to_target (pow_limit timed_params)"
  "to_target (Target 0x1d00ffff) \<le> to_target (lw_max_target timed_lwma)"
  by code_simp+

theorem lwma_steady_state_witness:
  "lwma_target_for_height_with (\<lambda>_. None) timed_params [timed_block 0, timed_block 600, timed_block 1200] timed_lwma 3 =
     Inr (from_target (to_target (Target 0x1d00ffff)))"
proof (rule lwma_steady_state [OF timed_facts(1) _ _ timed_facts(2) _ _ timed_facts(4-8)])
  have two: "{1..2} = {1, 2 :: nat}" by auto
  let ?c = "[timed_block 0, timed_block 600, timed_block 1200]"
  show "\<forall>i \<in> {1..2}. target (header (?c ! (length ?c - 1 - 2 + i))) = Target 0x1d00ffff"
    unfolding two by (simp add: timed_block_def target_def)
  show "\<forall>i \<in> {1..2}. unat (hdr_time (header (?c ! (length ?c - 1 - 2 + i)))) =
      unat (hdr_time (header (?c ! (length ?c - 1 - 2 + (i - 1))))) + unat (block_target_interval (\<lambda>_. None) 3)"
    unfolding two timed_facts(3) by (simp add: timed_block_def)
qed simp_all

theorem lwma_follows_formula_witness:
  "\<exists>m. lwma_target_for_height_with (\<lambda>_. None) timed_params [timed_block 0, timed_block 600, timed_block 1200] timed_lwma 3 =
     Inr (from_target (lwma_clamp timed_lwma (Target 0x1d00ffff) (to_target (Target 0x1d00ffff)) m))"
  using lwma_follows_formula [OF timed_facts(1) _ _ timed_facts(2), of timed_params 3]
  by (auto simp: timed_block_def target_def timed_params_def)

theorem lwma_step_bounded_witness:
  "\<exists>m. lwma_target_for_height_with (\<lambda>_. None) timed_params [timed_block 0, timed_block 600, timed_block 1200] timed_lwma 3 =
     Inr (from_target m) \<and> m \<le> to_target (pow_limit timed_params)"
  using lwma_step_bounded [OF timed_facts(1) _ _ timed_facts(2), of timed_params 3] by auto

end
