(* ===== verification/Scripts.thy ===== *)
theory Scripts
  imports TxWire
begin

text \<open>
  The output scripts of \<open>src/src/tx.rs\<close>: P2PKH, hash time locks (HTLCv1), multi-party
  settlement outputs (MPSOv1), BTC and LTC swap locks and the two swap-order covenants, each with its
  encoder and its parser, and the classifier \<open>parse_output_encumbrance\<close>. Every parser is
  shown to be the exact inverse of its encoder on well-formed values (\<open>script_codec\<close>), the
  formats are disjoint, and the classifier therefore recognises exactly the encoded scripts.
\<close>

unbundle bit_operations_syntax

section \<open>Constants of the script formats\<close>

abbreviation (input) HTLC_V1_SCRIPT_TAG :: u8 where "HTLC_V1_SCRIPT_TAG \<equiv> 0xc0"
abbreviation (input) HTLC_V1_VERSION :: u8 where "HTLC_V1_VERSION \<equiv> 1"
abbreviation (input) HTLC_V1_HASHALG_SHA256 :: u8 where "HTLC_V1_HASHALG_SHA256 \<equiv> 1"
abbreviation (input) HTLC_V1_SCRIPT_LEN :: nat where "HTLC_V1_SCRIPT_LEN \<equiv> 83"

abbreviation (input) MPSO_V1_TAG :: u8 where "MPSO_V1_TAG \<equiv> 0xc1"
abbreviation (input) MPSO_V1_MAX_SCRIPT_SIZE :: nat where "MPSO_V1_MAX_SCRIPT_SIZE \<equiv> 640"
abbreviation (input) MPSO_V1_MAX_WITNESS_SIZE :: nat where "MPSO_V1_MAX_WITNESS_SIZE \<equiv> 768"

abbreviation (input) HTLC_BTC_SWAP_V1_TAG :: u8 where "HTLC_BTC_SWAP_V1_TAG \<equiv> 0xc3"
abbreviation (input) HTLC_BTC_SWAP_V1_VERSION :: u8 where "HTLC_BTC_SWAP_V1_VERSION \<equiv> 1"
abbreviation (input) HTLC_BTC_SWAP_V1_SCRIPT_LEN :: nat where "HTLC_BTC_SWAP_V1_SCRIPT_LEN \<equiv> 87"

abbreviation (input) HTLC_LTC_SWAP_V1_TAG :: u8 where "HTLC_LTC_SWAP_V1_TAG \<equiv> 0xc7"
abbreviation (input) HTLC_LTC_SWAP_V1_VERSION :: u8 where "HTLC_LTC_SWAP_V1_VERSION \<equiv> 1"
abbreviation (input) HTLC_LTC_SWAP_V1_SCRIPT_LEN :: nat where "HTLC_LTC_SWAP_V1_SCRIPT_LEN \<equiv> 87"

abbreviation (input) LTC_SWAP_ORDER_V1_TAG :: u8 where "LTC_SWAP_ORDER_V1_TAG \<equiv> 0xc8"
abbreviation (input) LTC_SWAP_ORDER_V1_VERSION :: u8 where "LTC_SWAP_ORDER_V1_VERSION \<equiv> 1"
abbreviation (input) LTC_SWAP_ORDER_DIRECTION_SELL :: u8 where "LTC_SWAP_ORDER_DIRECTION_SELL \<equiv> 1"
abbreviation (input) LTC_SWAP_ORDER_DIRECTION_BUY :: u8 where "LTC_SWAP_ORDER_DIRECTION_BUY \<equiv> 2"
abbreviation (input) LTC_SWAP_ORDER_SELL_SCRIPT_LEN :: nat where "LTC_SWAP_ORDER_SELL_SCRIPT_LEN \<equiv> 76"
abbreviation (input) LTC_SWAP_ORDER_BUY_SCRIPT_LEN :: nat where "LTC_SWAP_ORDER_BUY_SCRIPT_LEN \<equiv> 108"

abbreviation (input) SWAP_ORDER_V1_TAG :: u8 where "SWAP_ORDER_V1_TAG \<equiv> 0xc5"
abbreviation (input) SWAP_ORDER_V1_VERSION :: u8 where "SWAP_ORDER_V1_VERSION \<equiv> 1"
abbreviation (input) SWAP_ORDER_DIRECTION_SELL :: u8 where "SWAP_ORDER_DIRECTION_SELL \<equiv> 1"
abbreviation (input) SWAP_ORDER_DIRECTION_BUY :: u8 where "SWAP_ORDER_DIRECTION_BUY \<equiv> 2"
abbreviation (input) SWAP_ORDER_SELL_SCRIPT_LEN :: nat where "SWAP_ORDER_SELL_SCRIPT_LEN \<equiv> 76"
abbreviation (input) SWAP_ORDER_BUY_SCRIPT_LEN :: nat where "SWAP_ORDER_BUY_SCRIPT_LEN \<equiv> 108"

section \<open>Outputs as values\<close>

record HtlcV1Output =
  htlc_expected_hash :: bytes
  htlc_recipient_pkh :: bytes
  htlc_refund_pkh :: bytes
  htlc_timeout_height :: u64

record MpsoV1Output =
  mpso_flags :: u8
  claim_n :: u8
  claim_m :: u8
  refund_n :: u8
  refund_m :: u8
  agreement_hash :: bytes
  claim_pubkeys :: "bytes list"
  refund_pubkeys :: "bytes list"
  mpso_timeout_height :: u64
  optional_hash :: "bytes option"

record HtlcBtcSwapV1Output =
  btc_confirmations_required :: u8
  btc_swap_recipient_pkh :: bytes
  btc_swap_refund_pkh :: bytes
  btc_recipient_pkh :: bytes
  btc_amount_sats :: u64
  btc_swap_timeout_height :: u64
  btc_funding_binding :: bytes

record HtlcLtcSwapV1Output =
  ltc_confirmations_required :: u8
  ltc_swap_recipient_pkh :: bytes
  ltc_swap_refund_pkh :: bytes
  ltc_recipient_pkh :: bytes
  ltc_amount_sats :: u64
  ltc_swap_timeout_height :: u64
  ltc_funding_binding :: bytes

record SwapOrderOutput =
  so_direction :: u8
  so_confirmations_required :: u8
  so_irm_amount :: u64
  so_btc_amount_sats :: u64
  so_maker_iriumd_pkh :: bytes
  so_maker_btc_pkh :: bytes
  so_expiry_height :: u64
  so_order_id :: bytes
  so_expected_hash :: "bytes option"

record LtcSwapOrderOutput =
  lo_direction :: u8
  lo_confirmations_required :: u8
  lo_irm_amount :: u64
  lo_ltc_amount_sats :: u64
  lo_maker_iriumd_pkh :: bytes
  lo_maker_ltc_pkh :: bytes
  lo_expiry_height :: u64
  lo_order_id :: bytes
  lo_expected_hash :: "bytes option"

datatype OutputEncumbrance =
    P2pkh bytes
  | HtlcV1 HtlcV1Output
  | MpsoV1 MpsoV1Output
  | HtlcBtcSwapV1 HtlcBtcSwapV1Output
  | HtlcLtcSwapV1 HtlcLtcSwapV1Output
  | SwapOrder SwapOrderOutput
  | LtcSwapOrder LtcSwapOrderOutput
  | Unknown

section \<open>Encoders and parsers\<close>

definition p2pkh_script :: "bytes \<Rightarrow> bytes" where
  "p2pkh_script pkh = [0x76, 0xa9, 0x14] @ pkh @ [0x88, 0xac]"

definition parse_p2pkh_script :: "bytes \<Rightarrow> bytes option" where
  "parse_p2pkh_script script =
     (if length script \<noteq> 25 then None
      else if script ! 0 \<noteq> 0x76 \<or> script ! 1 \<noteq> 0xa9 \<or> script ! 2 \<noteq> 0x14 then None
      else if script ! 23 \<noteq> 0x88 \<or> script ! 24 \<noteq> 0xac then None
      else Some (slice script 3 23))"

definition encode_htlcv1_script :: "HtlcV1Output \<Rightarrow> bytes" where
  "encode_htlcv1_script out =
     [HTLC_V1_SCRIPT_TAG, HTLC_V1_VERSION, HTLC_V1_HASHALG_SHA256] @
     htlc_expected_hash out @ htlc_recipient_pkh out @ htlc_refund_pkh out @
     u64_le (htlc_timeout_height out)"

definition parse_htlcv1_script :: "bytes \<Rightarrow> HtlcV1Output option" where
  "parse_htlcv1_script script =
     (if length script \<noteq> HTLC_V1_SCRIPT_LEN then None
      else if script ! 0 \<noteq> HTLC_V1_SCRIPT_TAG then None
      else if script ! 1 \<noteq> HTLC_V1_VERSION then None
      else if script ! 2 \<noteq> HTLC_V1_HASHALG_SHA256 then None
      else Some \<lparr>htlc_expected_hash = slice script 3 35, htlc_recipient_pkh = slice script 35 55,
                 htlc_refund_pkh = slice script 55 75,
                 htlc_timeout_height = le_u64 (slice script 75 83)\<rparr>)"

definition encode_mpso_script :: "MpsoV1Output \<Rightarrow> bytes" where
  "encode_mpso_script out =
     [MPSO_V1_TAG, 1, mpso_flags out, 0, claim_n out, claim_m out, refund_n out, refund_m out] @
     agreement_hash out @ concat (claim_pubkeys out) @ concat (refund_pubkeys out) @
     u64_le (mpso_timeout_height out) @
     (case optional_hash out of Some h \<Rightarrow> h | None \<Rightarrow> [])"

text \<open>
  The pubkey loops: \<open>n\<close> compressed keys of 33 bytes from position \<open>pos\<close>; the test for two
  equal keys is the nested index loop of the source.
\<close>

fun mpso_read_pubkeys :: "nat \<Rightarrow> bytes \<Rightarrow> nat \<Rightarrow> (bytes list \<times> nat) option" where
  "mpso_read_pubkeys 0 script pos = Some ([], pos)"
| "mpso_read_pubkeys (Suc n) script pos =
     (if script ! pos \<noteq> 0x02 \<and> script ! pos \<noteq> 0x03 then None
      else case mpso_read_pubkeys n script (pos + 33) of
             None \<Rightarrow> None
           | Some (pks, pos') \<Rightarrow> Some (slice script pos (pos + 33) # pks, pos'))"

definition has_duplicate_pubkey :: "bytes list \<Rightarrow> bool" where
  "has_duplicate_pubkey pks =
     list_ex (\<lambda>i. list_ex (\<lambda>j. pks ! i = pks ! j) [i + 1 ..< length pks]) [0 ..< length pks]"

definition parse_mpso_script :: "bytes \<Rightarrow> MpsoV1Output option" where
  "parse_mpso_script script =
     (if length script < 8 then None
      else if script ! 0 \<noteq> MPSO_V1_TAG then None
      else if script ! 1 \<noteq> 0x01 then None
      else let flags = script ! 2 in
      if flags AND 0xFE \<noteq> 0 then None
      else if script ! 3 \<noteq> 0 then None
      else let cn = script ! 4; cm = script ! 5; rn = script ! 6; rm = script ! 7 in
      if \<not> (1 \<le> cn \<and> cn \<le> 8) then None
      else if cm < 1 \<or> cm > cn then None
      else if \<not> (1 \<le> rn \<and> rn \<le> 8) then None
      else if rm < 1 \<or> rm > rn then None
      else let secret_gate = (flags AND 1 \<noteq> 0);
               expected_len = 48 + (unat cn + unat rn) * 33 + (if secret_gate then 32 else 0) in
      if length script \<noteq> expected_len then None
      else if length script > MPSO_V1_MAX_SCRIPT_SIZE then None
      else case mpso_read_pubkeys (unat cn) script 40 of
        None \<Rightarrow> None
      | Some (cpks, pos) \<Rightarrow>
        (case mpso_read_pubkeys (unat rn) script pos of
           None \<Rightarrow> None
         | Some (rpks, pos) \<Rightarrow>
             if has_duplicate_pubkey cpks then None
             else if has_duplicate_pubkey rpks then None
             else Some \<lparr>mpso_flags = flags, claim_n = cn, claim_m = cm,
                        refund_n = rn, refund_m = rm,
                        agreement_hash = slice script 8 40,
                        claim_pubkeys = cpks, refund_pubkeys = rpks,
                        mpso_timeout_height = le_u64 (slice script pos (pos + 8)),
                        optional_hash = (if secret_gate then Some (slice script (pos + 8) (pos + 40))
                                         else None)\<rparr>))"

definition encode_htlc_btc_swap_v1_script :: "HtlcBtcSwapV1Output \<Rightarrow> bytes" where
  "encode_htlc_btc_swap_v1_script out =
     [HTLC_BTC_SWAP_V1_TAG, HTLC_BTC_SWAP_V1_VERSION, btc_confirmations_required out] @
     btc_swap_recipient_pkh out @ btc_swap_refund_pkh out @ btc_recipient_pkh out @
     u64_le (btc_amount_sats out) @ u64_le (btc_swap_timeout_height out) @ btc_funding_binding out"

definition parse_htlc_btc_swap_v1_script :: "bytes \<Rightarrow> HtlcBtcSwapV1Output option" where
  "parse_htlc_btc_swap_v1_script script =
     (if length script \<noteq> HTLC_BTC_SWAP_V1_SCRIPT_LEN then None
      else if script ! 0 \<noteq> HTLC_BTC_SWAP_V1_TAG then None
      else if script ! 1 \<noteq> HTLC_BTC_SWAP_V1_VERSION then None
      else Some \<lparr>btc_confirmations_required = script ! 2,
                 btc_swap_recipient_pkh = slice script 3 23,
                 btc_swap_refund_pkh = slice script 23 43,
                 btc_recipient_pkh = slice script 43 63,
                 btc_amount_sats = le_u64 (slice script 63 71),
                 btc_swap_timeout_height = le_u64 (slice script 71 79),
                 btc_funding_binding = slice script 79 87\<rparr>)"

text \<open>The binding between a swap output and its funding outpoint, over the hash \<open>sha256d\<close>.\<close>

definition compute_funding_binding :: "(bytes \<Rightarrow> bytes) \<Rightarrow> bytes \<Rightarrow> u32 \<Rightarrow> bytes" where
  "compute_funding_binding sha funding_txid vout =
     slice (sha256d sha (funding_txid @ u32_le vout)) 0 8"

definition encode_htlc_ltc_swap_v1_script :: "HtlcLtcSwapV1Output \<Rightarrow> bytes" where
  "encode_htlc_ltc_swap_v1_script out =
     [HTLC_LTC_SWAP_V1_TAG, HTLC_LTC_SWAP_V1_VERSION, ltc_confirmations_required out] @
     ltc_swap_recipient_pkh out @ ltc_swap_refund_pkh out @ ltc_recipient_pkh out @
     u64_le (ltc_amount_sats out) @ u64_le (ltc_swap_timeout_height out) @ ltc_funding_binding out"

definition parse_htlc_ltc_swap_v1_script :: "bytes \<Rightarrow> HtlcLtcSwapV1Output option" where
  "parse_htlc_ltc_swap_v1_script script =
     (if length script \<noteq> HTLC_LTC_SWAP_V1_SCRIPT_LEN then None
      else if script ! 0 \<noteq> HTLC_LTC_SWAP_V1_TAG then None
      else if script ! 1 \<noteq> HTLC_LTC_SWAP_V1_VERSION then None
      else Some \<lparr>ltc_confirmations_required = script ! 2,
                 ltc_swap_recipient_pkh = slice script 3 23,
                 ltc_swap_refund_pkh = slice script 23 43,
                 ltc_recipient_pkh = slice script 43 63,
                 ltc_amount_sats = le_u64 (slice script 63 71),
                 ltc_swap_timeout_height = le_u64 (slice script 71 79),
                 ltc_funding_binding = slice script 79 87\<rparr>)"

definition encode_swap_order_script :: "SwapOrderOutput \<Rightarrow> bytes" where
  "encode_swap_order_script out =
     [SWAP_ORDER_V1_TAG, SWAP_ORDER_V1_VERSION, so_direction out, so_confirmations_required out] @
     u64_le (so_irm_amount out) @ u64_le (so_btc_amount_sats out) @
     so_maker_iriumd_pkh out @ so_maker_btc_pkh out @ u64_le (so_expiry_height out) @ so_order_id out @
     (if so_direction out = SWAP_ORDER_DIRECTION_BUY
      then (case so_expected_hash out of Some h \<Rightarrow> h | None \<Rightarrow> []) else [])"

definition parse_swap_order_script :: "bytes \<Rightarrow> SwapOrderOutput option" where
  "parse_swap_order_script script =
     (if length script \<noteq> SWAP_ORDER_SELL_SCRIPT_LEN \<and> length script \<noteq> SWAP_ORDER_BUY_SCRIPT_LEN then None
      else if script ! 0 \<noteq> SWAP_ORDER_V1_TAG then None
      else if script ! 1 \<noteq> SWAP_ORDER_V1_VERSION then None
      else let direction = script ! 2 in
      if direction \<noteq> SWAP_ORDER_DIRECTION_SELL \<and> direction \<noteq> SWAP_ORDER_DIRECTION_BUY then None
      else let expects_hash = (direction = SWAP_ORDER_DIRECTION_BUY) in
      if expects_hash \<and> length script \<noteq> SWAP_ORDER_BUY_SCRIPT_LEN then None
      else if \<not> expects_hash \<and> length script \<noteq> SWAP_ORDER_SELL_SCRIPT_LEN then None
      else Some \<lparr>so_direction = direction, so_confirmations_required = script ! 3,
                 so_irm_amount = le_u64 (slice script 4 12),
                 so_btc_amount_sats = le_u64 (slice script 12 20),
                 so_maker_iriumd_pkh = slice script 20 40,
                 so_maker_btc_pkh = slice script 40 60,
                 so_expiry_height = le_u64 (slice script 60 68),
                 so_order_id = slice script 68 76,
                 so_expected_hash = (if expects_hash then Some (slice script 76 108) else None)\<rparr>)"

definition encode_ltc_swap_order_script :: "LtcSwapOrderOutput \<Rightarrow> bytes" where
  "encode_ltc_swap_order_script out =
     [LTC_SWAP_ORDER_V1_TAG, LTC_SWAP_ORDER_V1_VERSION, lo_direction out, lo_confirmations_required out] @
     u64_le (lo_irm_amount out) @ u64_le (lo_ltc_amount_sats out) @
     lo_maker_iriumd_pkh out @ lo_maker_ltc_pkh out @ u64_le (lo_expiry_height out) @ lo_order_id out @
     (if lo_direction out = LTC_SWAP_ORDER_DIRECTION_BUY
      then (case lo_expected_hash out of Some h \<Rightarrow> h | None \<Rightarrow> []) else [])"

definition parse_ltc_swap_order_script :: "bytes \<Rightarrow> LtcSwapOrderOutput option" where
  "parse_ltc_swap_order_script script =
     (if length script \<noteq> LTC_SWAP_ORDER_SELL_SCRIPT_LEN \<and>
         length script \<noteq> LTC_SWAP_ORDER_BUY_SCRIPT_LEN then None
      else if script ! 0 \<noteq> LTC_SWAP_ORDER_V1_TAG then None
      else if script ! 1 \<noteq> LTC_SWAP_ORDER_V1_VERSION then None
      else let direction = script ! 2 in
      if direction \<noteq> LTC_SWAP_ORDER_DIRECTION_SELL \<and> direction \<noteq> LTC_SWAP_ORDER_DIRECTION_BUY then None
      else let expects_hash = (direction = LTC_SWAP_ORDER_DIRECTION_BUY) in
      if expects_hash \<and> length script \<noteq> LTC_SWAP_ORDER_BUY_SCRIPT_LEN then None
      else if \<not> expects_hash \<and> length script \<noteq> LTC_SWAP_ORDER_SELL_SCRIPT_LEN then None
      else Some \<lparr>lo_direction = direction, lo_confirmations_required = script ! 3,
                 lo_irm_amount = le_u64 (slice script 4 12),
                 lo_ltc_amount_sats = le_u64 (slice script 12 20),
                 lo_maker_iriumd_pkh = slice script 20 40,
                 lo_maker_ltc_pkh = slice script 40 60,
                 lo_expiry_height = le_u64 (slice script 60 68),
                 lo_order_id = slice script 68 76,
                 lo_expected_hash = (if expects_hash then Some (slice script 76 108) else None)\<rparr>)"

definition parse_output_encumbrance :: "bytes \<Rightarrow> OutputEncumbrance" where
  "parse_output_encumbrance script =
     (case parse_p2pkh_script script of Some pkh \<Rightarrow> P2pkh pkh | None \<Rightarrow>
      case parse_htlcv1_script script of Some htlc \<Rightarrow> HtlcV1 htlc | None \<Rightarrow>
      case parse_mpso_script script of Some mpso \<Rightarrow> MpsoV1 mpso | None \<Rightarrow>
      case parse_htlc_btc_swap_v1_script script of Some swap \<Rightarrow> HtlcBtcSwapV1 swap | None \<Rightarrow>
      case parse_htlc_ltc_swap_v1_script script of Some swap \<Rightarrow> HtlcLtcSwapV1 swap | None \<Rightarrow>
      case parse_swap_order_script script of Some order \<Rightarrow> SwapOrder order | None \<Rightarrow>
      case parse_ltc_swap_order_script script of Some order \<Rightarrow> LtcSwapOrder order | None \<Rightarrow>
      Unknown)"

section \<open>Well-formed outputs\<close>

text \<open>
  What the Rust array types guarantee of an output value, plus the relations between fields that the
  scripts can carry (an order's hash lock is present exactly for buy orders; a settlement output's
  key lists have the announced sizes).
\<close>

definition wf_p2pkh :: "bytes \<Rightarrow> bool" where
  "wf_p2pkh pkh \<longleftrightarrow> length pkh = 20"

definition wf_htlcv1 :: "HtlcV1Output \<Rightarrow> bool" where
  "wf_htlcv1 out \<longleftrightarrow> length (htlc_expected_hash out) = 32 \<and> length (htlc_recipient_pkh out) = 20 \<and>
     length (htlc_refund_pkh out) = 20"

definition compressed_pubkey :: "bytes \<Rightarrow> bool" where
  "compressed_pubkey pk \<longleftrightarrow> length pk = 33 \<and> (hd pk = 0x02 \<or> hd pk = 0x03)"

definition wf_mpso :: "MpsoV1Output \<Rightarrow> bool" where
  "wf_mpso out \<longleftrightarrow> mpso_flags out AND 0xFE = 0 \<and>
     1 \<le> claim_m out \<and> claim_m out \<le> claim_n out \<and> claim_n out \<le> 8 \<and>
     1 \<le> refund_m out \<and> refund_m out \<le> refund_n out \<and> refund_n out \<le> 8 \<and>
     length (agreement_hash out) = 32 \<and>
     length (claim_pubkeys out) = unat (claim_n out) \<and> length (refund_pubkeys out) = unat (refund_n out) \<and>
     list_all compressed_pubkey (claim_pubkeys out) \<and> list_all compressed_pubkey (refund_pubkeys out) \<and>
     distinct (claim_pubkeys out) \<and> distinct (refund_pubkeys out) \<and>
     (case optional_hash out of None \<Rightarrow> mpso_flags out AND 1 = 0
      | Some h \<Rightarrow> mpso_flags out AND 1 \<noteq> 0 \<and> length h = 32)"

definition wf_btc_swap :: "HtlcBtcSwapV1Output \<Rightarrow> bool" where
  "wf_btc_swap out \<longleftrightarrow> length (btc_swap_recipient_pkh out) = 20 \<and> length (btc_swap_refund_pkh out) = 20 \<and>
     length (btc_recipient_pkh out) = 20 \<and> length (btc_funding_binding out) = 8"

definition wf_ltc_swap :: "HtlcLtcSwapV1Output \<Rightarrow> bool" where
  "wf_ltc_swap out \<longleftrightarrow> length (ltc_swap_recipient_pkh out) = 20 \<and> length (ltc_swap_refund_pkh out) = 20 \<and>
     length (ltc_recipient_pkh out) = 20 \<and> length (ltc_funding_binding out) = 8"

definition wf_swap_order :: "SwapOrderOutput \<Rightarrow> bool" where
  "wf_swap_order out \<longleftrightarrow>
     length (so_maker_iriumd_pkh out) = 20 \<and> length (so_maker_btc_pkh out) = 20 \<and> length (so_order_id out) = 8 \<and>
     (case so_expected_hash out of None \<Rightarrow> so_direction out = SWAP_ORDER_DIRECTION_SELL
      | Some h \<Rightarrow> so_direction out = SWAP_ORDER_DIRECTION_BUY \<and> length h = 32)"

definition wf_ltc_swap_order :: "LtcSwapOrderOutput \<Rightarrow> bool" where
  "wf_ltc_swap_order out \<longleftrightarrow>
     length (lo_maker_iriumd_pkh out) = 20 \<and> length (lo_maker_ltc_pkh out) = 20 \<and> length (lo_order_id out) = 8 \<and>
     (case lo_expected_hash out of None \<Rightarrow> lo_direction out = LTC_SWAP_ORDER_DIRECTION_SELL
      | Some h \<Rightarrow> lo_direction out = LTC_SWAP_ORDER_DIRECTION_BUY \<and> length h = 32)"

fun encode_encumbrance :: "OutputEncumbrance \<Rightarrow> bytes" where
  "encode_encumbrance (P2pkh pkh) = p2pkh_script pkh"
| "encode_encumbrance (HtlcV1 out) = encode_htlcv1_script out"
| "encode_encumbrance (MpsoV1 out) = encode_mpso_script out"
| "encode_encumbrance (HtlcBtcSwapV1 out) = encode_htlc_btc_swap_v1_script out"
| "encode_encumbrance (HtlcLtcSwapV1 out) = encode_htlc_ltc_swap_v1_script out"
| "encode_encumbrance (SwapOrder out) = encode_swap_order_script out"
| "encode_encumbrance (LtcSwapOrder out) = encode_ltc_swap_order_script out"
| "encode_encumbrance Unknown = []"

fun wf_encumbrance :: "OutputEncumbrance \<Rightarrow> bool" where
  "wf_encumbrance (P2pkh pkh) = wf_p2pkh pkh"
| "wf_encumbrance (HtlcV1 out) = wf_htlcv1 out"
| "wf_encumbrance (MpsoV1 out) = wf_mpso out"
| "wf_encumbrance (HtlcBtcSwapV1 out) = wf_btc_swap out"
| "wf_encumbrance (HtlcLtcSwapV1 out) = wf_ltc_swap out"
| "wf_encumbrance (SwapOrder out) = wf_swap_order out"
| "wf_encumbrance (LtcSwapOrder out) = wf_ltc_swap_order out"
| "wf_encumbrance Unknown = False"

section \<open>Fixed-layout scripts\<close>

interpretation p2pkh: script_codec p2pkh_script parse_p2pkh_script wf_p2pkh
proof
  fix a assume "wf_p2pkh a"
  then show "parse_p2pkh_script (p2pkh_script a) = Some a"
    by (simp add: wf_p2pkh_def p2pkh_script_def parse_p2pkh_script_def nth_append slice_def)
next
  fix s a assume *: "parse_p2pkh_script s = Some a"
  then have l: "length s = 25" by (simp add: parse_p2pkh_script_def split: if_splits)
  then have "s ! 0 # s ! 1 # s ! 2 # slice s 3 23 @ s ! 23 # [s ! 24] = s"
    by (simp add: slice_simps)
  with l * show "wf_p2pkh a \<and> p2pkh_script a = s"
    by (auto simp: wf_p2pkh_def p2pkh_script_def parse_p2pkh_script_def split: if_splits)
qed

interpretation htlcv1: script_codec encode_htlcv1_script parse_htlcv1_script wf_htlcv1
proof
  fix a assume "wf_htlcv1 a"
  then show "parse_htlcv1_script (encode_htlcv1_script a) = Some a"
    by (simp add: wf_htlcv1_def encode_htlcv1_script_def parse_htlcv1_script_def slice_def)
next
  fix s a assume *: "parse_htlcv1_script s = Some a"
  then have l: "length s = 83" by (simp add: parse_htlcv1_script_def split: if_splits)
  then have "s ! 0 # s ! 1 # s ! 2 # slice s 3 35 @ slice s 35 55 @ slice s 55 75 @ slice s 75 83 = s"
    by (simp add: slice_simps)
  with l * show "wf_htlcv1 a \<and> encode_htlcv1_script a = s"
    by (auto simp: wf_htlcv1_def encode_htlcv1_script_def parse_htlcv1_script_def u_le_slice
        split: if_splits)
qed

interpretation btc_swap: script_codec encode_htlc_btc_swap_v1_script parse_htlc_btc_swap_v1_script
  wf_btc_swap
proof
  fix a assume "wf_btc_swap a"
  then show "parse_htlc_btc_swap_v1_script (encode_htlc_btc_swap_v1_script a) = Some a"
    by (simp add: wf_btc_swap_def encode_htlc_btc_swap_v1_script_def
        parse_htlc_btc_swap_v1_script_def slice_def)
next
  fix s a assume *: "parse_htlc_btc_swap_v1_script s = Some a"
  then have l: "length s = 87" by (simp add: parse_htlc_btc_swap_v1_script_def split: if_splits)
  then have "s ! 0 # s ! 1 # s ! 2 # slice s 3 23 @ slice s 23 43 @ slice s 43 63 @ slice s 63 71 @
      slice s 71 79 @ slice s 79 87 = s"
    by (simp add: slice_simps)
  with l * show "wf_btc_swap a \<and> encode_htlc_btc_swap_v1_script a = s"
    by (auto simp: wf_btc_swap_def encode_htlc_btc_swap_v1_script_def
        parse_htlc_btc_swap_v1_script_def u_le_slice split: if_splits)
qed

interpretation ltc_swap: script_codec encode_htlc_ltc_swap_v1_script parse_htlc_ltc_swap_v1_script
  wf_ltc_swap
proof
  fix a assume "wf_ltc_swap a"
  then show "parse_htlc_ltc_swap_v1_script (encode_htlc_ltc_swap_v1_script a) = Some a"
    by (simp add: wf_ltc_swap_def encode_htlc_ltc_swap_v1_script_def
        parse_htlc_ltc_swap_v1_script_def slice_def)
next
  fix s a assume *: "parse_htlc_ltc_swap_v1_script s = Some a"
  then have l: "length s = 87" by (simp add: parse_htlc_ltc_swap_v1_script_def split: if_splits)
  then have "s ! 0 # s ! 1 # s ! 2 # slice s 3 23 @ slice s 23 43 @ slice s 43 63 @ slice s 63 71 @
      slice s 71 79 @ slice s 79 87 = s"
    by (simp add: slice_simps)
  with l * show "wf_ltc_swap a \<and> encode_htlc_ltc_swap_v1_script a = s"
    by (auto simp: wf_ltc_swap_def encode_htlc_ltc_swap_v1_script_def
        parse_htlc_ltc_swap_v1_script_def u_le_slice split: if_splits)
qed

lemma swap_order_layout:
  assumes "76 \<le> length s"
  shows "s ! 0 # s ! 1 # s ! 2 # s ! 3 # slice s 4 12 @ slice s 12 20 @ slice s 20 40 @
    slice s 40 60 @ slice s 60 68 @ slice s 68 76 @ xs = slice s 0 76 @ xs"
proof -
  have "s \<noteq> []" using assms by auto
  then show ?thesis using assms by (simp add: slice_simps)
qed

interpretation swap_order: script_codec encode_swap_order_script parse_swap_order_script wf_swap_order
proof
  fix a assume "wf_swap_order a"
  then show "parse_swap_order_script (encode_swap_order_script a) = Some a"
    by (auto simp: wf_swap_order_def encode_swap_order_script_def parse_swap_order_script_def
        slice_def split: option.splits)
next
  fix s a assume *: "parse_swap_order_script s = Some a"
  then have l: "length s = 76 \<and> s ! 2 = 1 \<or> length s = 108 \<and> s ! 2 = 2"
    by (auto simp: parse_swap_order_script_def Let_def split: if_splits)
  then have 76: "76 \<le> length s" by auto
  from l * show "wf_swap_order a \<and> encode_swap_order_script a = s"
    using swap_order_layout [OF 76, of "[]"] swap_order_layout [OF 76, of "slice s 76 108"]
    by (auto simp: wf_swap_order_def encode_swap_order_script_def parse_swap_order_script_def
        u_le_slice slice_join slice_full split: if_splits)
qed

interpretation ltc_swap_order: script_codec encode_ltc_swap_order_script parse_ltc_swap_order_script
  wf_ltc_swap_order
proof
  fix a assume "wf_ltc_swap_order a"
  then show "parse_ltc_swap_order_script (encode_ltc_swap_order_script a) = Some a"
    by (auto simp: wf_ltc_swap_order_def encode_ltc_swap_order_script_def
        parse_ltc_swap_order_script_def slice_def split: option.splits)
next
  fix s a assume *: "parse_ltc_swap_order_script s = Some a"
  then have l: "length s = 76 \<and> s ! 2 = 1 \<or> length s = 108 \<and> s ! 2 = 2"
    by (auto simp: parse_ltc_swap_order_script_def Let_def split: if_splits)
  then have 76: "76 \<le> length s" by auto
  from l * show "wf_ltc_swap_order a \<and> encode_ltc_swap_order_script a = s"
    using swap_order_layout [OF 76, of "[]"] swap_order_layout [OF 76, of "slice s 76 108"]
    by (auto simp: wf_ltc_swap_order_def encode_ltc_swap_order_script_def
        parse_ltc_swap_order_script_def u_le_slice slice_join slice_full split: if_splits)
qed

section \<open>Settlement scripts\<close>

lemma has_duplicate_pubkey_iff: "has_duplicate_pubkey pks \<longleftrightarrow> \<not> distinct pks"
proof -
  have "has_duplicate_pubkey pks \<longleftrightarrow> (\<exists>i<length pks. \<exists>j<length pks. i < j \<and> pks ! i = pks ! j)"
    by (auto simp: has_duplicate_pubkey_def list_ex_iff Suc_le_eq)
      (meson atLeastLessThan_iff less_trans Suc_leI zero_le)+
  then show ?thesis
    unfolding distinct_conv_nth by (metis nat_neq_iff)
qed

lemma length_concat_pubkeys:
  "list_all compressed_pubkey pks \<Longrightarrow> length (concat pks) = length pks * 33"
  by (induction pks) (auto simp: compressed_pubkey_def)

lemma mpso_read_pubkeys_concat:
  assumes "list_all compressed_pubkey pks" "drop pos script = concat pks @ rest"
  shows "mpso_read_pubkeys (length pks) script pos = Some (pks, pos + length pks * 33)"
  using assms
proof (induction pks arbitrary: pos)
  case Nil
  then show ?case by simp
next
  case (Cons pk pks)
  have pk: "length pk = 33" "hd pk = 2 \<or> hd pk = 3"
    using Cons.prems(1) by (auto simp: compressed_pubkey_def)
  have d: "drop pos script = pk @ concat pks @ rest" using Cons.prems(2) by simp
  have "script ! pos = hd pk"
    using drop_eq_append_length [OF d] d pk(1)
    by (metis hd_append2 hd_drop_conv_nth length_0_conv zero_neq_numeral add_leD1
        le_neq_implies_less drop_eq_Nil append_is_Nil_conv nle_le)
  moreover have "mpso_read_pubkeys (length pks) script (pos + 33) = Some (pks, pos + 33 + length pks * 33)"
    using Cons.IH [of "pos + 33"] Cons.prems(1) drop_eq_append_slice(2) [OF d] pk(1) by simp
  ultimately show ?case
    using pk drop_eq_append_slice(1) [OF d] by auto
qed

lemma mpso_read_pubkeys_Some:
  assumes "mpso_read_pubkeys n script pos = Some (pks, pos')" "pos + n * 33 \<le> length script"
  shows "length pks = n \<and> list_all compressed_pubkey pks \<and> pos' = pos + n * 33 \<and>
    concat pks = slice script pos pos'"
  using assms
proof (induction n arbitrary: pos pks)
  case 0
  then show ?case by (simp add: slice_def)
next
  case (Suc n)
  from Suc.prems obtain pk qs where
    q: "pks = pk # qs" "mpso_read_pubkeys n script (pos + 33) = Some (qs, pos')"
      "pk = slice script pos (pos + 33)" "compressed_pubkey pk"
    by (auto simp: compressed_pubkey_def slice_def hd_drop_conv_nth split: if_splits option.splits)
  from Suc.IH [OF q(2)] Suc.prems(2) q(1,3,4) show ?case by (auto simp: slice_join)
qed

lemma mpso_script_layout:
  assumes "wf_mpso a"
  defines "s \<equiv> encode_mpso_script a"
  defines "p \<equiv> 40 + unat (claim_n a) * 33"
  defines "q \<equiv> p + unat (refund_n a) * 33"
  shows "slice s 8 40 = agreement_hash a" 
    "mpso_read_pubkeys (unat (claim_n a)) s 40 = Some (claim_pubkeys a, p)"
    "mpso_read_pubkeys (unat (refund_n a)) s p = Some (refund_pubkeys a, q)"
    "slice s q (q + 8) = u64_le (mpso_timeout_height a)"
    "optional_hash a = Some h \<Longrightarrow> slice s (q + 8) (q + 40) = h"
    "length s = 48 + (unat (claim_n a) + unat (refund_n a)) * 33 +
       (if optional_hash a = None then 0 else 32)"
proof -
  have k: "list_all compressed_pubkey (claim_pubkeys a)" "list_all compressed_pubkey (refund_pubkeys a)"
    "length (claim_pubkeys a) = unat (claim_n a)" "length (refund_pubkeys a) = unat (refund_n a)"
    "length (agreement_hash a) = 32"
    using assms(1) by (auto simp: wf_mpso_def)
  have h: "optional_hash a = Some h \<Longrightarrow> length h = 32" for h
    using assms(1) by (auto simp: wf_mpso_def split: option.splits)
  have d40: "drop 40 s = concat (claim_pubkeys a) @ concat (refund_pubkeys a) @
      u64_le (mpso_timeout_height a) @ (case optional_hash a of Some h \<Rightarrow> h | None \<Rightarrow> [])"
    using k(5) by (simp add: s_def encode_mpso_script_def)
  note dp = drop_eq_append_slice(2) [OF d40, unfolded length_concat_pubkeys [OF k(1)] k(3),
      folded p_def]
  note dq = drop_eq_append_slice(2) [OF dp, unfolded length_concat_pubkeys [OF k(2)] k(4),
      folded q_def]
  show "slice s 8 40 = agreement_hash a"
    using k(5) by (simp add: s_def encode_mpso_script_def slice_def)
  show "mpso_read_pubkeys (unat (claim_n a)) s 40 = Some (claim_pubkeys a, p)"
    using mpso_read_pubkeys_concat [OF k(1) d40] k(3) by (simp add: p_def)
  show "mpso_read_pubkeys (unat (refund_n a)) s p = Some (refund_pubkeys a, q)"
    using mpso_read_pubkeys_concat [OF k(2) dp] k(4) by (simp add: q_def)
  show "slice s q (q + 8) = u64_le (mpso_timeout_height a)"
    using drop_eq_append_slice(1) [OF dq] by simp
  show "slice s (q + 8) (q + 40) = h" if "optional_hash a = Some h"
    using drop_eq_append_slice(2) [OF dq] h [OF that] that by (simp add: slice_def)
  show "length s = 48 + (unat (claim_n a) + unat (refund_n a)) * 33 +
       (if optional_hash a = None then 0 else 32)"
    using k h by (auto simp: s_def encode_mpso_script_def length_concat_pubkeys split: option.split)
qed

lemma parse_mpso_encode:
  assumes "wf_mpso a"
  shows "parse_mpso_script (encode_mpso_script a) = Some a"
proof -
  have n: "encode_mpso_script a ! 0 = 0xc1" "encode_mpso_script a ! 1 = 1"
    "encode_mpso_script a ! 2 = mpso_flags a" "encode_mpso_script a ! 3 = 0"
    "encode_mpso_script a ! 4 = claim_n a" "encode_mpso_script a ! 5 = claim_m a"
    "encode_mpso_script a ! 6 = refund_n a" "encode_mpso_script a ! 7 = refund_m a"
    by (simp_all add: encode_mpso_script_def)
  have w: "unat (claim_n a) \<le> 8" "unat (refund_n a) \<le> 8" "1 \<le> claim_n a" "1 \<le> refund_n a"
    "claim_m a \<noteq> 0" "refund_m a \<noteq> 0" "\<not> claim_n a < claim_m a" "\<not> refund_n a < refund_m a"
    using assms by (auto simp: wf_mpso_def unat_le_8 one_le_u8)
  have f: "mpso_flags a AND 1 = 0 \<longleftrightarrow> optional_hash a = None"
    using assms by (auto simp: wf_mpso_def split: option.splits)
  have d: "\<not> has_duplicate_pubkey (claim_pubkeys a)" "\<not> has_duplicate_pubkey (refund_pubkeys a)"
    "mpso_flags a AND 0xFE = 0" "claim_n a \<le> 8" "refund_n a \<le> 8"
    using assms by (auto simp: wf_mpso_def has_duplicate_pubkey_iff)
  note L = mpso_script_layout [OF assms]
  show ?thesis
  proof (cases "optional_hash a")
    case None
    have "length (encode_mpso_script a) = 48 + (unat (claim_n a) + unat (refund_n a)) * 33"
      using L(6) None by simp
    then show ?thesis
      using w(1,2) f None
      by (simp add: parse_mpso_script_def Let_def n n(2) [simplified] w(3-) d L(1-3)
          L(4) [simplified])
  next
    case (Some h)
    have "length (encode_mpso_script a) = 80 + (unat (claim_n a) + unat (refund_n a)) * 33"
      using L(6) Some by simp
    then show ?thesis
      using w(1,2) f Some
      by (simp add: parse_mpso_script_def Let_def n n(2) [simplified] w(3-) d L(1-3)
          L(4) [simplified] L(5) [OF Some, simplified])
  qed
qed

lemma parse_mpso_scriptE:
  assumes "parse_mpso_script s = Some a"
  obtains q where
    "s ! 0 = 0xc1" "s ! 1 = 1" "s ! 2 = mpso_flags a" "s ! 3 = 0" "s ! 4 = claim_n a"
    "s ! 5 = claim_m a" "s ! 6 = refund_n a" "s ! 7 = refund_m a"
    "mpso_flags a AND 0xFE = 0" "1 \<le> claim_m a" "claim_m a \<le> claim_n a" "claim_n a \<le> 8"
    "1 \<le> refund_m a" "refund_m a \<le> refund_n a" "refund_n a \<le> 8"
    "length s = 48 + (unat (claim_n a) + unat (refund_n a)) * 33 +
       (if mpso_flags a AND 1 \<noteq> 0 then 32 else 0)"
    "agreement_hash a = slice s 8 40"
    "length (claim_pubkeys a) = unat (claim_n a)" "length (refund_pubkeys a) = unat (refund_n a)"
    "list_all compressed_pubkey (claim_pubkeys a)" "list_all compressed_pubkey (refund_pubkeys a)"
    "distinct (claim_pubkeys a)" "distinct (refund_pubkeys a)"
    "q = 40 + unat (claim_n a) * 33 + unat (refund_n a) * 33"
    "concat (claim_pubkeys a) @ concat (refund_pubkeys a) = slice s 40 q"
    "mpso_timeout_height a = le_u64 (slice s q (q + 8))"
    "optional_hash a = (if mpso_flags a AND 1 \<noteq> 0 then Some (slice s (q + 8) (q + 40)) else None)"
proof -
  define n m where "n = unat (s ! 4)" and "m = unat (s ! 6)"
  obtain cpks p rpks q where r: "mpso_read_pubkeys n s 40 = Some (cpks, p)"
      "mpso_read_pubkeys m s p = Some (rpks, q)"
      "\<not> has_duplicate_pubkey cpks" "\<not> has_duplicate_pubkey rpks"
    and a: "a = \<lparr>mpso_flags = s ! 2, claim_n = s ! 4, claim_m = s ! 5, refund_n = s ! 6, refund_m = s ! 7,
        agreement_hash = slice s 8 40, claim_pubkeys = cpks, refund_pubkeys = rpks,
        mpso_timeout_height = le_u64 (slice s q (q + 8)),
        optional_hash = (if s ! 2 AND 1 \<noteq> 0 then Some (slice s (q + 8) (q + 40)) else None)\<rparr>"
    and l: "length s = 48 + (n + m) * 33 + (if s ! 2 AND 1 \<noteq> 0 then 32 else 0)"
    using assms
    by (simp add: parse_mpso_script_def Let_def n_def m_def split: if_split_asm option.split_asm prod.split_asm)
  have g: "s ! 0 = 0xc1" "s ! 1 = 1" "s ! 3 = 0" "s ! 2 AND 0xFE = 0" "1 \<le> s ! 5" "s ! 5 \<le> s ! 4"
    "s ! 4 \<le> 8" "1 \<le> s ! 7" "s ! 7 \<le> s ! 6" "s ! 6 \<le> 8"
    using assms by (auto simp: parse_mpso_script_def Let_def not_less one_le_u8 split: if_split_asm)
  from mpso_read_pubkeys_Some [OF r(1)] l
  have c: "length cpks = n" "list_all compressed_pubkey cpks" "p = 40 + n * 33" "concat cpks = slice s 40 p"
    by (simp_all split: if_splits)
  from mpso_read_pubkeys_Some [OF r(2)] l c(3)
  have d: "length rpks = m" "list_all compressed_pubkey rpks" "q = 40 + n * 33 + m * 33"
    "concat rpks = slice s p q"
    by (simp_all split: if_splits)
  have "concat cpks @ concat rpks = slice s 40 q"
    unfolding c(4) d(4) using c(3) d(3) by (intro slice_join) auto
  then show thesis
    using g r(3,4) l c(1,2) d(1-3)
    by (intro that [of q]) (simp_all add: a n_def m_def has_duplicate_pubkey_iff)
qed

lemma parse_mpso_sound:
  assumes "parse_mpso_script s = Some a"
  shows "wf_mpso a \<and> encode_mpso_script a = s"
  using assms
proof (rule parse_mpso_scriptE, goal_cases)
  case (1 q)
  note h = 1(1-8) and l = 1(16) and q = 1(24,25) and t = 1(26,27)
  have ne: "s \<noteq> []" "40 \<le> q" "q + 8 \<le> length s" using l q by (auto split: if_splits)
  have "encode_mpso_script a = [s ! 0, s ! 1, s ! 2, s ! 3, s ! 4, s ! 5, s ! 6, s ! 7] @ slice s 8 40 @
      (concat (claim_pubkeys a) @ concat (refund_pubkeys a)) @ slice s q (q + 8) @
      (case optional_hash a of Some h \<Rightarrow> h | None \<Rightarrow> [])"
    using ne(3) by (simp add: encode_mpso_script_def u_le_slice h h(2) [simplified] 1(17) t(1))
  also have "\<dots> = slice s 0 (q + 8) @ (case optional_hash a of Some h \<Rightarrow> h | None \<Rightarrow> [])"
    unfolding q(2) using ne by (simp add: slice_simps)
  also have "\<dots> = s"
    using l q(1) t(2) by (auto simp: slice_simps split: if_splits)
  finally show ?case using 1 by (simp add: wf_mpso_def)
qed

interpretation mpso: script_codec encode_mpso_script parse_mpso_script wf_mpso
  using parse_mpso_encode parse_mpso_sound by unfold_locales

section \<open>Classification\<close>

lemma parse_tag:
  "s ! 0 \<noteq> 0x76 \<Longrightarrow> parse_p2pkh_script s = None"
  "s ! 0 \<noteq> 0xc0 \<Longrightarrow> parse_htlcv1_script s = None"
  "s ! 0 \<noteq> 0xc1 \<Longrightarrow> parse_mpso_script s = None"
  "s ! 0 \<noteq> 0xc3 \<Longrightarrow> parse_htlc_btc_swap_v1_script s = None"
  "s ! 0 \<noteq> 0xc7 \<Longrightarrow> parse_htlc_ltc_swap_v1_script s = None"
  "s ! 0 \<noteq> 0xc5 \<Longrightarrow> parse_swap_order_script s = None"
  "s ! 0 \<noteq> 0xc8 \<Longrightarrow> parse_ltc_swap_order_script s = None"
  by (simp_all add: parse_p2pkh_script_def parse_htlcv1_script_def parse_mpso_script_def
      parse_htlc_btc_swap_v1_script_def parse_htlc_ltc_swap_v1_script_def
      parse_swap_order_script_def parse_ltc_swap_order_script_def)

lemma encode_tag:
  "p2pkh_script pkh ! 0 = 0x76"
  "encode_htlcv1_script h ! 0 = 0xc0"
  "encode_mpso_script m ! 0 = 0xc1"
  "encode_htlc_btc_swap_v1_script b ! 0 = 0xc3"
  "encode_htlc_ltc_swap_v1_script l ! 0 = 0xc7"
  "encode_swap_order_script x ! 0 = 0xc5"
  "encode_ltc_swap_order_script y ! 0 = 0xc8"
  by (simp_all add: p2pkh_script_def encode_htlcv1_script_def encode_mpso_script_def
      encode_htlc_btc_swap_v1_script_def encode_htlc_ltc_swap_v1_script_def
      encode_swap_order_script_def encode_ltc_swap_order_script_def)

lemma parse_output_encumbrance_encode:
  "wf_encumbrance e \<Longrightarrow> parse_output_encumbrance (encode_encumbrance e) = e"
  by (cases e) (simp_all add: parse_output_encumbrance_def parse_tag encode_tag p2pkh.parse_enc
      htlcv1.parse_enc mpso.parse_enc btc_swap.parse_enc ltc_swap.parse_enc swap_order.parse_enc
      ltc_swap_order.parse_enc)

lemma parse_output_encumbrance_sound:
  "parse_output_encumbrance s = e \<Longrightarrow> e \<noteq> Unknown \<Longrightarrow> wf_encumbrance e \<and> encode_encumbrance e = s"
  by (auto simp: parse_output_encumbrance_def split: option.splits
      dest: p2pkh.parse_sound htlcv1.parse_sound mpso.parse_sound btc_swap.parse_sound
        ltc_swap.parse_sound swap_order.parse_sound ltc_swap_order.parse_sound)

section \<open>Properties\<close>

text \<open>
  C36. The script classifier inverts the encoders exactly: a script is recognised as an
  encumbrance if and only if it is the encoding of that (well-formed) encumbrance, for every one of
  the seven formats, and it is Unknown if and only if no format encodes to it. Formats therefore
  never shadow one another, and no script has two spend conditions.
\<close>

theorem parse_output_encumbrance_exact:
  "parse_output_encumbrance s = e \<longleftrightarrow>
    (if e = Unknown then \<nexists>e'. wf_encumbrance e' \<and> encode_encumbrance e' = s
     else wf_encumbrance e \<and> encode_encumbrance e = s)"
  using parse_output_encumbrance_encode parse_output_encumbrance_sound
  by (metis wf_encumbrance.simps(8))

end
