(* ===== verification/Witness.thy ===== *)
theory Witness
  imports Scripts
begin

text \<open>
  The input witnesses of \<open>src/src/tx.rs\<close>: the encoders a wallet uses and the parsers the
  verifier uses, for legacy P2PKH, HTLCv1, settlement outputs, BTC and LTC swap locks and the two
  swap orders. The parsers of length-prefixed fields are characterised once
  (\<open>read_push\<close>, \<open>read_last_push\<close>); the order witnesses are exact codecs for each order
  direction, the HTLCv1 and swap witnesses round trip.
\<close>

section \<open>Length-prefixed fields\<close>

text \<open>
  The block every witness parser repeats: read a length byte, refuse an empty field or one that
  leaves the script, take the bytes. The last field of a witness must end with the script.
\<close>

definition read_push :: "bytes \<Rightarrow> nat \<Rightarrow> (bytes \<times> nat) option" where
  "read_push s off =
     (if off \<ge> length s then None
      else let n = unat (s ! off); off = off + 1
      in if n = 0 \<or> off + n > length s then None else Some (slice s off (off + n), off + n))"

definition read_last_push :: "bytes \<Rightarrow> nat \<Rightarrow> bytes option" where
  "read_last_push s off =
     (if off \<ge> length s then None
      else let n = unat (s ! off); off = off + 1
      in if n = 0 \<or> off + n \<noteq> length s then None else Some (slice s off (off + n)))"

definition push :: "bytes \<Rightarrow> bytes" where
  "push x = word_of_nat (length x) # x"

definition pushable :: "bytes \<Rightarrow> bool" where
  "pushable x \<longleftrightarrow> x \<noteq> [] \<and> length x \<le> 255"

section \<open>Swap-lock witnesses\<close>

datatype HtlcBtcSwapWitness =
    BtcClaim bytes bytes bytes "bytes list" u32 bytes
  | BtcRefund bytes bytes

definition encode_htlc_btc_swap_claim_witness ::
    "bytes \<Rightarrow> bytes \<Rightarrow> bytes \<Rightarrow> bytes list \<Rightarrow> u32 \<Rightarrow> bytes \<Rightarrow> bytes option" where
  "encode_htlc_btc_swap_claim_witness sig pubkey btc_block_hash btc_merkle_branch btc_merkle_index btc_tx_raw =
     (if sig = [] \<or> length sig > 255 then None
      else if pubkey = [] \<or> length pubkey > 255 then None
      else if length btc_merkle_branch > 0xffff then None
      else if btc_tx_raw = [] then None
      else Some ([1] @ push sig @ push pubkey @ btc_block_hash @
        u16_le (word_of_nat (length btc_merkle_branch)) @ concat btc_merkle_branch @
        u32_le btc_merkle_index @ write_varint (length btc_tx_raw) @ btc_tx_raw))"

definition encode_htlc_btc_swap_refund_witness :: "bytes \<Rightarrow> bytes \<Rightarrow> bytes option" where
  "encode_htlc_btc_swap_refund_witness sig pubkey =
     (if sig = [] \<or> length sig > 255 \<or> pubkey = [] \<or> length pubkey > 255 then None
      else Some ([2] @ push sig @ push pubkey))"

fun read_hashes :: "nat \<Rightarrow> bytes \<Rightarrow> nat \<Rightarrow> bytes list" where
  "read_hashes 0 s off = []"
| "read_hashes (Suc n) s off = slice s off (off + 32) # read_hashes n s (off + 32)"

definition parse_htlc_btc_swap_witness :: "bytes \<Rightarrow> HtlcBtcSwapWitness option" where
  "parse_htlc_btc_swap_witness script =
     (if script = [] then None
      else if script ! 0 = 1 then
        Option.bind (read_push script 1) (\<lambda>(sig, off).
        Option.bind (read_push script off) (\<lambda>(pubkey, off).
        if off + 32 > length script then None
        else let btc_block_hash = slice script off (off + 32); off = off + 32 in
        if off + 2 > length script then None
        else let branch_len = unat (le_u16 (slice script off (off + 2))); off = off + 2 in
        if branch_len > 32 then None
        else if off + branch_len * 32 > length script then None
        else let btc_merkle_branch = read_hashes branch_len script off; off = off + branch_len * 32 in
        if off + 4 > length script then None
        else let btc_merkle_index = le_u32 (slice script off (off + 4)); off = off + 4 in
        case read_varint_at script off of
          (None, off) \<Rightarrow> None
        | (Some tx_len, off) \<Rightarrow>
            if tx_len = 0 \<or> tx_len > 1000000 \<or> off + unat tx_len \<noteq> length script then None
            else Some (BtcClaim sig pubkey btc_block_hash btc_merkle_branch btc_merkle_index
                         (slice script off (off + unat tx_len)))))
      else if script ! 0 = 2 then
        Option.bind (read_push script 1) (\<lambda>(sig, off).
        Option.bind (read_last_push script off) (\<lambda>pubkey.
        Some (BtcRefund sig pubkey)))
      else None)"

datatype HtlcLtcSwapWitness =
    LtcClaim bytes bytes bytes "bytes list" u32 bytes
  | LtcRefund bytes bytes

definition encode_htlc_ltc_swap_claim_witness ::
    "bytes \<Rightarrow> bytes \<Rightarrow> bytes \<Rightarrow> bytes list \<Rightarrow> u32 \<Rightarrow> bytes \<Rightarrow> bytes option" where
  "encode_htlc_ltc_swap_claim_witness sig pubkey ltc_block_hash ltc_merkle_branch ltc_merkle_index ltc_tx_raw =
     (if sig = [] \<or> length sig > 255 then None
      else if pubkey = [] \<or> length pubkey > 255 then None
      else if length ltc_merkle_branch > 0xffff then None
      else if ltc_tx_raw = [] then None
      else Some ([1] @ push sig @ push pubkey @ ltc_block_hash @
        u16_le (word_of_nat (length ltc_merkle_branch)) @ concat ltc_merkle_branch @
        u32_le ltc_merkle_index @ write_varint (length ltc_tx_raw) @ ltc_tx_raw))"

definition encode_htlc_ltc_swap_refund_witness :: "bytes \<Rightarrow> bytes \<Rightarrow> bytes option" where
  "encode_htlc_ltc_swap_refund_witness sig pubkey =
     (if sig = [] \<or> length sig > 255 \<or> pubkey = [] \<or> length pubkey > 255 then None
      else Some ([2] @ push sig @ push pubkey))"

definition parse_htlc_ltc_swap_witness :: "bytes \<Rightarrow> HtlcLtcSwapWitness option" where
  "parse_htlc_ltc_swap_witness script =
     (if script = [] then None
      else if script ! 0 = 1 then
        Option.bind (read_push script 1) (\<lambda>(sig, off).
        Option.bind (read_push script off) (\<lambda>(pubkey, off).
        if off + 32 > length script then None
        else let ltc_block_hash = slice script off (off + 32); off = off + 32 in
        if off + 2 > length script then None
        else let branch_len = unat (le_u16 (slice script off (off + 2))); off = off + 2 in
        if branch_len > 32 then None
        else if off + branch_len * 32 > length script then None
        else let ltc_merkle_branch = read_hashes branch_len script off; off = off + branch_len * 32 in
        if off + 4 > length script then None
        else let ltc_merkle_index = le_u32 (slice script off (off + 4)); off = off + 4 in
        case read_varint_at script off of
          (None, off) \<Rightarrow> None
        | (Some tx_len, off) \<Rightarrow>
            if tx_len = 0 \<or> tx_len > 1000000 \<or> off + unat tx_len \<noteq> length script then None
            else Some (LtcClaim sig pubkey ltc_block_hash ltc_merkle_branch ltc_merkle_index
                         (slice script off (off + unat tx_len)))))
      else if script ! 0 = 2 then
        Option.bind (read_push script 1) (\<lambda>(sig, off).
        Option.bind (read_last_push script off) (\<lambda>pubkey.
        Some (LtcRefund sig pubkey)))
      else None)"

section \<open>Order witnesses\<close>

datatype SwapOrderWitness =
    FillSell bytes bytes bytes u64
  | FillBuy bytes bytes u64
  | Cancel bytes bytes
  | ExpireSweep

definition encode_swap_order_fill_sell_witness :: "bytes \<Rightarrow> bytes \<Rightarrow> bytes \<Rightarrow> u64 \<Rightarrow> bytes option" where
  "encode_swap_order_fill_sell_witness sig pubkey taker_iriumd_pkh timeout_height =
     (if sig = [] \<or> length sig > 255 \<or> pubkey = [] \<or> length pubkey > 255 then None
      else Some ([1] @ push sig @ push pubkey @ taker_iriumd_pkh @ u64_le timeout_height))"

definition encode_swap_order_fill_buy_witness :: "bytes \<Rightarrow> bytes \<Rightarrow> u64 \<Rightarrow> bytes option" where
  "encode_swap_order_fill_buy_witness sig pubkey irm_timeout_height =
     (if sig = [] \<or> length sig > 255 \<or> pubkey = [] \<or> length pubkey > 255 then None
      else Some ([1] @ push sig @ push pubkey @ u64_le irm_timeout_height))"

definition encode_swap_order_cancel_witness :: "bytes \<Rightarrow> bytes \<Rightarrow> bytes option" where
  "encode_swap_order_cancel_witness sig pubkey =
     (if sig = [] \<or> length sig > 255 \<or> pubkey = [] \<or> length pubkey > 255 then None
      else Some ([2] @ push sig @ push pubkey))"

definition encode_swap_order_expire_sweep_witness :: bytes where
  "encode_swap_order_expire_sweep_witness = [3]"

definition parse_swap_order_witness :: "bytes \<Rightarrow> u8 \<Rightarrow> SwapOrderWitness option" where
  "parse_swap_order_witness script direction =
     (if script = [] then None
      else if script ! 0 = 1 then
        Option.bind (read_push script 1) (\<lambda>(sig, off).
        Option.bind (read_push script off) (\<lambda>(pubkey, off).
        if direction = SWAP_ORDER_DIRECTION_SELL then
          (if off + 20 + 8 \<noteq> length script then None
           else Some (FillSell sig pubkey (slice script off (off + 20))
                        (le_u64 (slice script (off + 20) (off + 28)))))
        else if direction = SWAP_ORDER_DIRECTION_BUY then
          (if off + 8 \<noteq> length script then None
           else Some (FillBuy sig pubkey (le_u64 (slice script off (off + 8)))))
        else None))
      else if script ! 0 = 2 then
        Option.bind (read_push script 1) (\<lambda>(sig, off).
        Option.bind (read_last_push script off) (\<lambda>pubkey.
        Some (Cancel sig pubkey)))
      else if script ! 0 = 3 then (if length script \<noteq> 1 then None else Some ExpireSweep)
      else None)"

datatype LtcSwapOrderWitness =
    LtcFillSell bytes bytes bytes u64
  | LtcFillBuy bytes bytes u64
  | LtcCancel bytes bytes
  | LtcExpireSweep

definition encode_ltc_swap_order_fill_sell_witness :: "bytes \<Rightarrow> bytes \<Rightarrow> bytes \<Rightarrow> u64 \<Rightarrow> bytes option" where
  "encode_ltc_swap_order_fill_sell_witness sig pubkey taker_iriumd_pkh timeout_height =
     (if sig = [] \<or> length sig > 255 \<or> pubkey = [] \<or> length pubkey > 255 then None
      else Some ([1] @ push sig @ push pubkey @ taker_iriumd_pkh @ u64_le timeout_height))"

definition encode_ltc_swap_order_fill_buy_witness :: "bytes \<Rightarrow> bytes \<Rightarrow> u64 \<Rightarrow> bytes option" where
  "encode_ltc_swap_order_fill_buy_witness sig pubkey irm_timeout_height =
     (if sig = [] \<or> length sig > 255 \<or> pubkey = [] \<or> length pubkey > 255 then None
      else Some ([1] @ push sig @ push pubkey @ u64_le irm_timeout_height))"

definition encode_ltc_swap_order_cancel_witness :: "bytes \<Rightarrow> bytes \<Rightarrow> bytes option" where
  "encode_ltc_swap_order_cancel_witness sig pubkey =
     (if sig = [] \<or> length sig > 255 \<or> pubkey = [] \<or> length pubkey > 255 then None
      else Some ([2] @ push sig @ push pubkey))"

definition encode_ltc_swap_order_expire_sweep_witness :: bytes where
  "encode_ltc_swap_order_expire_sweep_witness = [3]"

definition parse_ltc_swap_order_witness :: "bytes \<Rightarrow> u8 \<Rightarrow> LtcSwapOrderWitness option" where
  "parse_ltc_swap_order_witness script direction =
     (if script = [] then None
      else if script ! 0 = 1 then
        Option.bind (read_push script 1) (\<lambda>(sig, off).
        Option.bind (read_push script off) (\<lambda>(pubkey, off).
        if direction = LTC_SWAP_ORDER_DIRECTION_SELL then
          (if off + 20 + 8 \<noteq> length script then None
           else Some (LtcFillSell sig pubkey (slice script off (off + 20))
                        (le_u64 (slice script (off + 20) (off + 28)))))
        else if direction = LTC_SWAP_ORDER_DIRECTION_BUY then
          (if off + 8 \<noteq> length script then None
           else Some (LtcFillBuy sig pubkey (le_u64 (slice script off (off + 8)))))
        else None))
      else if script ! 0 = 2 then
        Option.bind (read_push script 1) (\<lambda>(sig, off).
        Option.bind (read_last_push script off) (\<lambda>pubkey.
        Some (LtcCancel sig pubkey)))
      else if script ! 0 = 3 then (if length script \<noteq> 1 then None else Some LtcExpireSweep)
      else None)"

section \<open>P2PKH, HTLCv1 and settlement witnesses\<close>

datatype InputWitness =
    WP2pkh bytes bytes
  | WHtlcClaim bytes bytes bytes
  | WHtlcRefund bytes bytes
  | WUnknown

definition parse_legacy_p2pkh_witness :: "bytes \<Rightarrow> InputWitness option" where
  "parse_legacy_p2pkh_witness script =
     (if length script < 2 then None
      else let sig_len = unat (script ! 0) in
      if sig_len = 0 \<or> length script < 1 + sig_len + 1 then None
      else let sig = slice script 1 (1 + sig_len); pk_len = unat (script ! (1 + sig_len));
               pk_off = 1 + sig_len + 1 in
      if pk_len = 0 \<or> length script \<noteq> pk_off + pk_len then None
      else Some (WP2pkh sig (slice script pk_off (pk_off + pk_len))))"

definition encode_htlcv1_claim_witness :: "bytes \<Rightarrow> bytes \<Rightarrow> bytes \<Rightarrow> bytes option" where
  "encode_htlcv1_claim_witness sig pubkey preimage =
     (if sig = [] \<or> length sig > 255 \<or> pubkey = [] \<or> length pubkey > 255 \<or>
         preimage = [] \<or> length preimage > 255 then None
      else Some ([1] @ push sig @ push pubkey @ push preimage))"

definition encode_htlcv1_refund_witness :: "bytes \<Rightarrow> bytes \<Rightarrow> bytes option" where
  "encode_htlcv1_refund_witness sig pubkey =
     (if sig = [] \<or> length sig > 255 \<or> pubkey = [] \<or> length pubkey > 255 then None
      else Some ([2] @ push sig @ push pubkey))"

fun encode_mpso_sigs :: "bytes list \<Rightarrow> bytes option" where
  "encode_mpso_sigs [] = Some []"
| "encode_mpso_sigs (sig # sigs) =
     (if sig = [] \<or> length sig > 255 then None
      else map_option (\<lambda>out. push sig @ out) (encode_mpso_sigs sigs))"

definition encode_mpso_claim_witness :: "u8 \<Rightarrow> bytes list \<Rightarrow> bytes option \<Rightarrow> bytes option" where
  "encode_mpso_claim_witness bitmap sigs preimage =
     Option.bind (encode_mpso_sigs sigs) (\<lambda>out.
       case preimage of
         None \<Rightarrow> Some (0x01 # bitmap # out)
       | Some pre \<Rightarrow>
           if pre = [] \<or> length pre > 64 then None else Some (0x01 # bitmap # out @ push pre))"

definition encode_mpso_refund_witness :: "u8 \<Rightarrow> bytes list \<Rightarrow> bytes option" where
  "encode_mpso_refund_witness bitmap sigs =
     map_option (\<lambda>out. 0x02 # bitmap # out) (encode_mpso_sigs sigs)"

definition parse_input_witness :: "bytes \<Rightarrow> InputWitness" where
  "parse_input_witness script =
     (if script = [] then WUnknown
      else if script ! 0 = 1 then
        (if length script < 4 then WUnknown
         else let sig_len = unat (script ! 1); pk_len_off = 2 + sig_len in
         if sig_len = 0 \<or> pk_len_off \<ge> length script then WUnknown
         else let sig = slice script 2 pk_len_off; pk_len = unat (script ! pk_len_off);
                  pk_off = pk_len_off + 1; pre_len_off = pk_off + pk_len in
         if pk_len = 0 \<or> pre_len_off \<ge> length script then WUnknown
         else let pubkey = slice script pk_off pre_len_off;
                  pre_len = unat (script ! pre_len_off); pre_off = pre_len_off + 1 in
         if pre_len = 0 \<or> pre_off + pre_len \<noteq> length script then WUnknown
         else WHtlcClaim sig pubkey (slice script pre_off (pre_off + pre_len)))
      else if script ! 0 = 2 then
        (if length script < 3 then WUnknown
         else let sig_len = unat (script ! 1); pk_len_off = 2 + sig_len in
         if sig_len = 0 \<or> pk_len_off \<ge> length script then WUnknown
         else let sig = slice script 2 pk_len_off; pk_len = unat (script ! pk_len_off);
                  pk_off = pk_len_off + 1 in
         if pk_len = 0 \<or> pk_off + pk_len \<noteq> length script then WUnknown
         else WHtlcRefund sig (slice script pk_off (pk_off + pk_len)))
      else case parse_legacy_p2pkh_witness script of Some w \<Rightarrow> w | None \<Rightarrow> WUnknown)"

section \<open>Reading length-prefixed fields\<close>

lemma length_push [simp]: "length (push x) = Suc (length x)"
  by (simp add: push_def)

lemma unat_push_length: "pushable x \<Longrightarrow> unat (word_of_nat (length x) :: u8) = length x"
  by (intro unat_word_of_nat_small) (simp add: pushable_def)

lemma encode_guard_pushable:
  "(sig = [] \<or> length sig > 255 \<or> pubkey = [] \<or> length pubkey > 255) = (\<not> (pushable sig \<and> pushable pubkey))"
  by (auto simp: pushable_def)

lemma read_push_iff:
  "read_push s off = Some (x, off') \<longleftrightarrow>
    pushable x \<and> off' = off + Suc (length x) \<and> drop off s = push x @ drop off' s \<and> off' \<le> length s"
proof
  assume *: "read_push s off = Some (x, off')"
  then have r: "off < length s" "x = slice s (Suc off) (Suc off + unat (s ! off))" "unat (s ! off) \<noteq> 0"
    "off' = Suc off + unat (s ! off)" "off' \<le> length s"
    by (auto simp: read_push_def Let_def split: if_split_asm)
  then have l: "length x = unat (s ! off)" by simp
  then have "s ! off # x @ drop off' s = drop off s"
    using r Cons_nth_drop_Suc [OF r(1)] slice_append_drop [of "Suc off" off' s] by simp
  moreover have "word_of_nat (length x) = s ! off" using l by simp
  moreover have "pushable x" using r(3) l unat_u8_lt [of "s ! off"] by (auto simp: pushable_def)
  ultimately show "pushable x \<and> off' = off + Suc (length x) \<and> drop off s = push x @ drop off' s \<and> off' \<le> length s"
    using r(4,5) l by (simp add: push_def)
next
  assume *: "pushable x \<and> off' = off + Suc (length x) \<and> drop off s = push x @ drop off' s \<and> off' \<le> length s"
  then have d: "drop off s = word_of_nat (length x) # x @ drop off' s" by (simp add: push_def)
  note c = drop_eq_Cons [OF d]
  show "read_push s off = Some (x, off')"
    using c(1,2) unat_push_length [of x] * drop_eq_append_slice(1) [OF c(3)]
    by (auto simp: read_push_def pushable_def)
qed

lemma read_last_push_iff: "read_last_push s off = Some x \<longleftrightarrow> pushable x \<and> drop off s = push x"
proof -
  have "read_last_push s off = Some x \<longleftrightarrow> read_push s off = Some (x, length s)"
    by (auto simp: read_last_push_def read_push_def Let_def)
  also have "\<dots> \<longleftrightarrow> pushable x \<and> drop off s = push x"
  proof
    assume "pushable x \<and> drop off s = push x"
    moreover from this have "length s - off = Suc (length x)"
      by (metis length_drop length_push)
    ultimately show "read_push s off = Some (x, length s)"
      by (auto simp: read_push_iff)
  qed (auto simp: read_push_iff)
  finally show ?thesis .
qed

lemma read_push_at [wire_simps]:
  "drop off s = push x @ rest \<Longrightarrow> pushable x \<Longrightarrow> read_push s off = Some (x, off + Suc (length x))"
  using drop_eq_append_slice(2) [of off s "push x" rest] drop_eq_append_length [of off s "push x" rest]
  by (simp add: read_push_iff push_def)

section \<open>Order witnesses are exact\<close>

text \<open>
  The wallet's encoder for each branch, and the branches an order of a given direction admits.
\<close>

fun encode_swap_order_witness :: "SwapOrderWitness \<Rightarrow> bytes option" where
  "encode_swap_order_witness (FillSell sig pubkey taker t) =
     encode_swap_order_fill_sell_witness sig pubkey taker t"
| "encode_swap_order_witness (FillBuy sig pubkey t) = encode_swap_order_fill_buy_witness sig pubkey t"
| "encode_swap_order_witness (Cancel sig pubkey) = encode_swap_order_cancel_witness sig pubkey"
| "encode_swap_order_witness ExpireSweep = Some encode_swap_order_expire_sweep_witness"

fun fits_swap_order :: "u8 \<Rightarrow> SwapOrderWitness \<Rightarrow> bool" where
  "fits_swap_order d (FillSell sig pubkey taker t) \<longleftrightarrow> d = SWAP_ORDER_DIRECTION_SELL \<and> length taker = 20"
| "fits_swap_order d (FillBuy sig pubkey t) \<longleftrightarrow> d = SWAP_ORDER_DIRECTION_BUY"
| "fits_swap_order d (Cancel sig pubkey) \<longleftrightarrow> True"
| "fits_swap_order d ExpireSweep \<longleftrightarrow> True"

lemmas swap_order_encoders = encode_swap_order_fill_sell_witness_def
  encode_swap_order_fill_buy_witness_def encode_swap_order_cancel_witness_def
  encode_swap_order_expire_sweep_witness_def

lemma list_hd_drop: "s \<noteq> [] \<Longrightarrow> s ! 0 # drop 1 s = s"
  by (cases s) auto

lemma drop_all_slice: "off \<le> length s \<Longrightarrow> n = length s \<Longrightarrow> slice s off n = drop off s"
  by (simp add: slice_def)

lemma read_two_push:
  assumes "drop 1 s = push sig @ push pubkey @ rest" "pushable sig" "pushable pubkey"
  shows "read_push s 1 = Some (sig, 2 + length sig)"
    "read_push s (2 + length sig) = Some (pubkey, 3 + length sig + length pubkey)"
    "drop (3 + length sig + length pubkey) s = rest"
    "length s = 3 + length sig + length pubkey + length rest"
proof -
  have 1: "drop (2 + length sig) s = push pubkey @ rest"
    using drop_eq_append_slice(2) [OF assms(1)] by simp
  have 2: "drop (3 + length sig + length pubkey) s = rest"
    using drop_eq_append_slice(2) [OF 1] by (simp add: ac_simps numeral_3_eq_3)
  show "read_push s 1 = Some (sig, 2 + length sig)"
    using read_push_at [OF assms(1,2)] by simp
  show "read_push s (2 + length sig) = Some (pubkey, 3 + length sig + length pubkey)"
    using read_push_at [OF 1 assms(3)] by simp
  show "drop (3 + length sig + length pubkey) s = rest" by (rule 2)
  have "length (drop 1 s) = 2 + length sig + length pubkey + length rest"
    unfolding assms(1) by simp
  then show "length s = 3 + length sig + length pubkey + length rest" by simp
qed

lemma read_two_push_Some:
  assumes "read_push s 1 = Some (sig, o1)" "read_push s o1 = Some (pubkey, o2)"
  shows "pushable sig" "pushable pubkey" "drop 1 s = push sig @ push pubkey @ drop o2 s" "o2 \<le> length s"
  using assms by (auto simp: read_push_iff)

lemma parse_swap_order_witness_sound:
  assumes "parse_swap_order_witness s d = Some w"
  shows "encode_swap_order_witness w = Some s \<and> fits_swap_order d w"
proof -
  have "s \<noteq> []" using assms by (auto simp: parse_swap_order_witness_def)
  then have s: "s ! 0 # drop 1 s = s" by (rule list_hd_drop)
  consider (fill) sig o1 pubkey o2 where "s ! 0 = 1" "read_push s 1 = Some (sig, o1)"
      "read_push s o1 = Some (pubkey, o2)"
    | (cancel) sig o1 pubkey where "s ! 0 = 2" "read_push s 1 = Some (sig, o1)"
      "read_last_push s o1 = Some pubkey" "w = Cancel sig pubkey"
    | (sweep) "s = [3]" "w = ExpireSweep"
    using assms s
    by (auto simp: parse_swap_order_witness_def bind_eq_Some_conv length_Suc_conv split: if_splits)
  then show ?thesis
  proof cases
    case fill
    note r = read_two_push_Some [OF fill(2,3)]
    consider (sell) "d = 1" "length s = 28 + o2" "w = FillSell sig pubkey (slice s o2 (o2 + 20))
          (le_u64 (slice s (o2 + 20) (o2 + 28)))"
      | (buy) "d = 2" "length s = 8 + o2" "w = FillBuy sig pubkey (le_u64 (slice s o2 (o2 + 8)))"
      using assms fill by (auto simp: parse_swap_order_witness_def split: if_splits)
    then show ?thesis
    proof cases
      case sell
      have "slice s o2 (o2 + 20) @ slice s (o2 + 20) (o2 + 28) = drop o2 s"
        using sell(2) by (simp add: drop_all_slice slice_append_drop)
      then show ?thesis
        using r s sell fill(1)
        by (simp add: swap_order_encoders encode_guard_pushable u_le_slice)
    next
      case buy
      have "slice s o2 (o2 + 8) = drop o2 s" using buy(2) by (simp add: drop_all_slice)
      then show ?thesis
        using r s buy fill(1) u64_le_le_u64 [of "slice s o2 (o2 + 8)"]
        by (simp add: swap_order_encoders encode_guard_pushable)
    qed
  next
    case cancel
    then show ?thesis
      using s by (auto simp: read_push_iff read_last_push_iff swap_order_encoders encode_guard_pushable)
  next
    case sweep
    then show ?thesis by (simp add: swap_order_encoders)
  qed
qed

lemma parse_swap_order_witness_encode:
  assumes "encode_swap_order_witness w = Some s" "fits_swap_order d w"
  shows "parse_swap_order_witness s d = Some w"
proof (cases w)
  case (FillSell sig pubkey taker t)
  then have "pushable sig" "pushable pubkey" and s: "s = 1 # push sig @ push pubkey @ taker @ u64_le t"
    using assms by (auto simp: swap_order_encoders encode_guard_pushable split: if_splits)
  then have "drop 1 s = push sig @ push pubkey @ taker @ u64_le t" by simp
  note r = read_two_push [OF this \<open>pushable sig\<close> \<open>pushable pubkey\<close>]
  show ?thesis
    using r assms(2) s FillSell drop_eq_append_slice [OF r(3)]
    by (simp add: parse_swap_order_witness_def slice_def)
next
  case (FillBuy sig pubkey t)
  then have "pushable sig" "pushable pubkey" and s: "s = 1 # push sig @ push pubkey @ u64_le t"
    using assms by (auto simp: swap_order_encoders encode_guard_pushable split: if_splits)
  then have "drop 1 s = push sig @ push pubkey @ u64_le t" by simp
  note r = read_two_push [OF this \<open>pushable sig\<close> \<open>pushable pubkey\<close>]
  show ?thesis
    using r assms(2) s FillBuy by (simp add: parse_swap_order_witness_def slice_def)
next
  case (Cancel sig pubkey)
  then have p: "pushable sig" "pushable pubkey" and s: "s = 2 # push sig @ push pubkey"
    using assms by (auto simp: swap_order_encoders encode_guard_pushable split: if_splits)
  then have d: "drop 1 s = push sig @ push pubkey" by simp
  have "read_last_push s (2 + length sig) = Some pubkey"
    using drop_eq_append_slice(2) [OF d] p by (simp add: read_last_push_iff)
  then show ?thesis
    using read_push_at [OF d p(1)] s Cancel by (simp add: parse_swap_order_witness_def)
next
  case ExpireSweep
  then show ?thesis using assms by (auto simp: swap_order_encoders parse_swap_order_witness_def)
qed

fun encode_ltc_swap_order_witness :: "LtcSwapOrderWitness \<Rightarrow> bytes option" where
  "encode_ltc_swap_order_witness (LtcFillSell sig pubkey taker t) =
     encode_ltc_swap_order_fill_sell_witness sig pubkey taker t"
| "encode_ltc_swap_order_witness (LtcFillBuy sig pubkey t) = encode_ltc_swap_order_fill_buy_witness sig pubkey t"
| "encode_ltc_swap_order_witness (LtcCancel sig pubkey) = encode_ltc_swap_order_cancel_witness sig pubkey"
| "encode_ltc_swap_order_witness LtcExpireSweep = Some encode_ltc_swap_order_expire_sweep_witness"

fun fits_ltc_swap_order :: "u8 \<Rightarrow> LtcSwapOrderWitness \<Rightarrow> bool" where
  "fits_ltc_swap_order d (LtcFillSell sig pubkey taker t) \<longleftrightarrow> d = LTC_SWAP_ORDER_DIRECTION_SELL \<and> length taker = 20"
| "fits_ltc_swap_order d (LtcFillBuy sig pubkey t) \<longleftrightarrow> d = LTC_SWAP_ORDER_DIRECTION_BUY"
| "fits_ltc_swap_order d (LtcCancel sig pubkey) \<longleftrightarrow> True"
| "fits_ltc_swap_order d LtcExpireSweep \<longleftrightarrow> True"

lemmas ltc_swap_order_encoders = encode_ltc_swap_order_fill_sell_witness_def
  encode_ltc_swap_order_fill_buy_witness_def encode_ltc_swap_order_cancel_witness_def
  encode_ltc_swap_order_expire_sweep_witness_def

lemma parse_ltc_swap_order_witness_sound:
  assumes "parse_ltc_swap_order_witness s d = Some w"
  shows "encode_ltc_swap_order_witness w = Some s \<and> fits_ltc_swap_order d w"
proof -
  have "s \<noteq> []" using assms by (auto simp: parse_ltc_swap_order_witness_def)
  then have s: "s ! 0 # drop 1 s = s" by (rule list_hd_drop)
  consider (fill) sig o1 pubkey o2 where "s ! 0 = 1" "read_push s 1 = Some (sig, o1)"
      "read_push s o1 = Some (pubkey, o2)"
    | (cancel) sig o1 pubkey where "s ! 0 = 2" "read_push s 1 = Some (sig, o1)"
      "read_last_push s o1 = Some pubkey" "w = LtcCancel sig pubkey"
    | (sweep) "s = [3]" "w = LtcExpireSweep"
    using assms s
    by (auto simp: parse_ltc_swap_order_witness_def bind_eq_Some_conv length_Suc_conv split: if_splits)
  then show ?thesis
  proof cases
    case fill
    note r = read_two_push_Some [OF fill(2,3)]
    consider (sell) "d = 1" "length s = 28 + o2" "w = LtcFillSell sig pubkey (slice s o2 (o2 + 20))
          (le_u64 (slice s (o2 + 20) (o2 + 28)))"
      | (buy) "d = 2" "length s = 8 + o2" "w = LtcFillBuy sig pubkey (le_u64 (slice s o2 (o2 + 8)))"
      using assms fill by (auto simp: parse_ltc_swap_order_witness_def split: if_splits)
    then show ?thesis
    proof cases
      case sell
      have "slice s o2 (o2 + 20) @ slice s (o2 + 20) (o2 + 28) = drop o2 s"
        using sell(2) by (simp add: drop_all_slice slice_append_drop)
      then show ?thesis
        using r s sell fill(1)
        by (simp add: ltc_swap_order_encoders encode_guard_pushable u_le_slice)
    next
      case buy
      have "slice s o2 (o2 + 8) = drop o2 s" using buy(2) by (simp add: drop_all_slice)
      then show ?thesis
        using r s buy fill(1) u64_le_le_u64 [of "slice s o2 (o2 + 8)"]
        by (simp add: ltc_swap_order_encoders encode_guard_pushable)
    qed
  next
    case cancel
    then show ?thesis
      using s by (auto simp: read_push_iff read_last_push_iff ltc_swap_order_encoders encode_guard_pushable)
  next
    case sweep
    then show ?thesis by (simp add: ltc_swap_order_encoders)
  qed
qed

lemma parse_ltc_swap_order_witness_encode:
  assumes "encode_ltc_swap_order_witness w = Some s" "fits_ltc_swap_order d w"
  shows "parse_ltc_swap_order_witness s d = Some w"
proof (cases w)
  case (LtcFillSell sig pubkey taker t)
  then have "pushable sig" "pushable pubkey" and s: "s = 1 # push sig @ push pubkey @ taker @ u64_le t"
    using assms by (auto simp: ltc_swap_order_encoders encode_guard_pushable split: if_splits)
  then have "drop 1 s = push sig @ push pubkey @ taker @ u64_le t" by simp
  note r = read_two_push [OF this \<open>pushable sig\<close> \<open>pushable pubkey\<close>]
  show ?thesis
    using r assms(2) s LtcFillSell drop_eq_append_slice [OF r(3)]
    by (simp add: parse_ltc_swap_order_witness_def slice_def)
next
  case (LtcFillBuy sig pubkey t)
  then have "pushable sig" "pushable pubkey" and s: "s = 1 # push sig @ push pubkey @ u64_le t"
    using assms by (auto simp: ltc_swap_order_encoders encode_guard_pushable split: if_splits)
  then have "drop 1 s = push sig @ push pubkey @ u64_le t" by simp
  note r = read_two_push [OF this \<open>pushable sig\<close> \<open>pushable pubkey\<close>]
  show ?thesis
    using r assms(2) s LtcFillBuy by (simp add: parse_ltc_swap_order_witness_def slice_def)
next
  case (LtcCancel sig pubkey)
  then have p: "pushable sig" "pushable pubkey" and s: "s = 2 # push sig @ push pubkey"
    using assms by (auto simp: ltc_swap_order_encoders encode_guard_pushable split: if_splits)
  then have d: "drop 1 s = push sig @ push pubkey" by simp
  have "read_last_push s (2 + length sig) = Some pubkey"
    using drop_eq_append_slice(2) [OF d] p by (simp add: read_last_push_iff)
  then show ?thesis
    using read_push_at [OF d p(1)] s LtcCancel by (simp add: parse_ltc_swap_order_witness_def)
next
  case LtcExpireSweep
  then show ?thesis using assms by (auto simp: ltc_swap_order_encoders parse_ltc_swap_order_witness_def)
qed


section \<open>Swap-lock witnesses round trip\<close>

lemma read_hashes_concat:
  assumes "list_all (\<lambda>h. length h = 32) hs" "drop off s = concat hs @ rest"
  shows "read_hashes (length hs) s off = hs" "length (concat hs) = length hs * 32"
  using assms
proof (induction hs arbitrary: off)
  case (Cons h hs)
  { case 1
    then have d: "drop off s = h @ concat hs @ rest" "length h = 32" by auto
    show ?case
      using Cons.IH(1) [of "off + 32"] 1(1) d drop_eq_append_slice [OF d(1)] by simp
  next
    case 2
    then have d: "drop off s = h @ concat hs @ rest" "length h = 32" by auto
    show ?case
      using Cons.IH(2) [of "off + 32"] 2(1) d drop_eq_append_slice(2) [OF d(1)] by simp }
qed simp_all

definition claim_fields :: "bytes \<Rightarrow> bytes \<Rightarrow> bytes \<Rightarrow> bytes list \<Rightarrow> bytes \<Rightarrow> bool" where
  "claim_fields sig pubkey block_hash branch tx_raw \<longleftrightarrow>
     pushable sig \<and> pushable pubkey \<and> length block_hash = 32 \<and> length branch \<le> 32 \<and>
     list_all (\<lambda>h. length h = 32) branch \<and> tx_raw \<noteq> [] \<and> length tx_raw \<le> 1000000"

lemma parse_htlc_btc_swap_claim:
  assumes "claim_fields sig pubkey h branch raw"
    and s: "s = 1 # push sig @ push pubkey @ h @ u16_le (word_of_nat (length branch)) @ concat branch @
      u32_le idx @ write_varint (length raw) @ raw"
  shows "parse_htlc_btc_swap_witness s = Some (BtcClaim sig pubkey h branch idx raw)"
proof -
  have f: "pushable sig" "pushable pubkey" "length h = 32" "length branch \<le> 32"
    "list_all (\<lambda>h. length h = 32) branch" "raw \<noteq> []" "length raw \<le> 1000000"
    using assms(1) by (auto simp: claim_fields_def)
  have d: "drop 1 s = push sig @ push pubkey @ h @ u16_le (word_of_nat (length branch)) @ concat branch @
      u32_le idx @ write_varint (length raw) @ raw"
    using s by simp
  define o2 where "o2 = 3 + length sig + length pubkey"
  note r = read_two_push [OF d f(1,2), folded o2_def]
  note d3 = drop_eq_append_slice [OF r(3), unfolded f(3)]
  note d4 = drop_eq_append_slice [OF d3(2), unfolded length_u_le]
  note hs = read_hashes_concat [OF f(5) d4(2)]
  note d5 = drop_eq_append_slice [OF d4(2), unfolded hs(2)]
  note d6 = drop_eq_append_slice [OF d5(2), unfolded length_u_le]
  have v: "read_varint_at s (o2 + 32 + 2 + length branch * 32 + 4) = (Some (word_of_nat (length raw)),
      o2 + 32 + 2 + length branch * 32 + 4 + length (write_varint (length raw)))"
    using d6(2) f(7) by (intro read_varint_write_varint) auto
  note d7 = drop_eq_append_slice(2) [OF d6(2)]
  have n: "unat (word_of_nat (length branch) :: u16) = length branch"
    "unat (word_of_nat (length raw) :: u64) = length raw"
    using f(4,7) by (auto intro!: unat_word_of_nat_small)
  have g: "word_of_nat (length raw) \<noteq> (0 :: u64)" "\<not> (1000000 :: u64) < word_of_nat (length raw)"
    using f(6,7) n(2) by (auto simp: word_less_nat_alt word_unat_eq_iff)
  have l: "length s = o2 + 32 + 2 + length branch * 32 + 4 + length (write_varint (length raw)) + length raw"
    using r(4) f(3) hs(2) by simp
  show ?thesis
    using s r(1,2) l f(4) n g v hs(1) d3(1) d4(1) d6(1) d7
    by (simp add: parse_htlc_btc_swap_witness_def slice_def o2_def add.assoc)
qed

lemma parse_htlc_ltc_swap_claim:
  assumes "claim_fields sig pubkey h branch raw"
    and s: "s = 1 # push sig @ push pubkey @ h @ u16_le (word_of_nat (length branch)) @ concat branch @
      u32_le idx @ write_varint (length raw) @ raw"
  shows "parse_htlc_ltc_swap_witness s = Some (LtcClaim sig pubkey h branch idx raw)"
proof -
  have f: "pushable sig" "pushable pubkey" "length h = 32" "length branch \<le> 32"
    "list_all (\<lambda>h. length h = 32) branch" "raw \<noteq> []" "length raw \<le> 1000000"
    using assms(1) by (auto simp: claim_fields_def)
  have d: "drop 1 s = push sig @ push pubkey @ h @ u16_le (word_of_nat (length branch)) @ concat branch @
      u32_le idx @ write_varint (length raw) @ raw"
    using s by simp
  define o2 where "o2 = 3 + length sig + length pubkey"
  note r = read_two_push [OF d f(1,2), folded o2_def]
  note d3 = drop_eq_append_slice [OF r(3), unfolded f(3)]
  note d4 = drop_eq_append_slice [OF d3(2), unfolded length_u_le]
  note hs = read_hashes_concat [OF f(5) d4(2)]
  note d5 = drop_eq_append_slice [OF d4(2), unfolded hs(2)]
  note d6 = drop_eq_append_slice [OF d5(2), unfolded length_u_le]
  have v: "read_varint_at s (o2 + 32 + 2 + length branch * 32 + 4) = (Some (word_of_nat (length raw)),
      o2 + 32 + 2 + length branch * 32 + 4 + length (write_varint (length raw)))"
    using d6(2) f(7) by (intro read_varint_write_varint) auto
  note d7 = drop_eq_append_slice(2) [OF d6(2)]
  have n: "unat (word_of_nat (length branch) :: u16) = length branch"
    "unat (word_of_nat (length raw) :: u64) = length raw"
    using f(4,7) by (auto intro!: unat_word_of_nat_small)
  have g: "word_of_nat (length raw) \<noteq> (0 :: u64)" "\<not> (1000000 :: u64) < word_of_nat (length raw)"
    using f(6,7) n(2) by (auto simp: word_less_nat_alt word_unat_eq_iff)
  have l: "length s = o2 + 32 + 2 + length branch * 32 + 4 + length (write_varint (length raw)) + length raw"
    using r(4) f(3) hs(2) by simp
  show ?thesis
    using s r(1,2) l f(4) n g v hs(1) d3(1) d4(1) d6(1) d7
    by (simp add: parse_htlc_ltc_swap_witness_def slice_def o2_def add.assoc)
qed


lemma parse_htlc_swap_refund:
  assumes "pushable sig" "pushable pubkey" "s = 2 # push sig @ push pubkey"
  shows "parse_htlc_btc_swap_witness s = Some (BtcRefund sig pubkey)"
    "parse_htlc_ltc_swap_witness s = Some (LtcRefund sig pubkey)"
proof -
  have d: "drop 1 s = push sig @ push pubkey" using assms(3) by simp
  have "read_last_push s (1 + Suc (length sig)) = Some pubkey"
    using drop_eq_append_slice(2) [OF d] assms(2) by (simp add: read_last_push_iff)
  then show "parse_htlc_btc_swap_witness s = Some (BtcRefund sig pubkey)"
    "parse_htlc_ltc_swap_witness s = Some (LtcRefund sig pubkey)"
    using read_push_at [OF d assms(1)] assms(3)
    by (simp_all add: parse_htlc_btc_swap_witness_def parse_htlc_ltc_swap_witness_def)
qed

section \<open>HTLCv1 and legacy witnesses\<close>

lemma nth_push_head: "drop off s = push x @ rest \<Longrightarrow> pushable x \<Longrightarrow>
    off < length s \<and> unat (s ! off) = length x \<and> slice s (Suc off) (Suc (off + length x)) = x \<and>
    drop (Suc (off + length x)) s = rest"
  using drop_eq_Cons [of off s "word_of_nat (length x)" "x @ rest"]
    drop_eq_append_slice [of "Suc off" s x rest] unat_push_length [of x]
  by (simp add: push_def)

lemma parse_input_witness_claim:
  assumes p: "pushable sig" "pushable pubkey" "pushable preimage"
    and s: "s = 1 # push sig @ push pubkey @ push preimage"
  shows "parse_input_witness s = WHtlcClaim sig pubkey preimage"
proof -
  have d1: "drop 1 s = push sig @ push pubkey @ push preimage" using s by simp
  note h1 = nth_push_head [OF d1 p(1)]
  then have d2: "drop (Suc (1 + length sig)) s = push pubkey @ push preimage" by simp
  note h2 = nth_push_head [OF d2 p(2)]
  then have d3: "drop (Suc (Suc (1 + length sig) + length pubkey)) s = push preimage @ []" by simp
  note h3 = nth_push_head [OF d3 p(3)]
  have l: "length s = 4 + length sig + length pubkey + length preimage" using s by simp
  show ?thesis
    using s h1 h2 h3 l p by (simp add: parse_input_witness_def pushable_def numeral_2_eq_2)
qed

lemma parse_input_witness_refund:
  assumes p: "pushable sig" "pushable pubkey" and s: "s = 2 # push sig @ push pubkey"
  shows "parse_input_witness s = WHtlcRefund sig pubkey"
proof -
  have d1: "drop 1 s = push sig @ push pubkey" using s by simp
  note h1 = nth_push_head [OF d1 p(1)]
  then have d2: "drop (Suc (1 + length sig)) s = push pubkey @ []" by simp
  note h2 = nth_push_head [OF d2 p(2)]
  have l: "length s = 3 + length sig + length pubkey" using s by simp
  show ?thesis
    using s h1 h2 l p by (simp add: parse_input_witness_def pushable_def numeral_2_eq_2)
qed

lemma parse_legacy_push:
  assumes p: "pushable sig" "pushable pubkey" and s: "s = push sig @ push pubkey"
  shows "parse_legacy_p2pkh_witness s = Some (WP2pkh sig pubkey)"
proof -
  have d1: "drop 0 s = push sig @ push pubkey" using s by simp
  note h1 = nth_push_head [OF d1 p(1)]
  then have d2: "drop (Suc (length sig)) s = push pubkey @ []" by simp
  note h2 = nth_push_head [OF d2 p(2)]
  have l: "length s = 2 + length sig + length pubkey" using s by simp
  show ?thesis
    using h1 h2 l p by (simp add: parse_legacy_p2pkh_witness_def pushable_def)
qed

lemma length_read_hashes [simp]: "length (read_hashes n s off) = n"
  by (induction n arbitrary: off) auto

lemma parse_swap_claim_bounds:
  "parse_htlc_btc_swap_witness s = Some (BtcClaim sig pubkey h branch idx raw) \<Longrightarrow>
    length branch \<le> 32 \<and> length raw \<le> 1000000"
  "parse_htlc_ltc_swap_witness s = Some (LtcClaim sig pubkey h branch idx raw) \<Longrightarrow>
    length branch \<le> 32 \<and> length raw \<le> 1000000"
  by (auto simp: parse_htlc_btc_swap_witness_def parse_htlc_ltc_swap_witness_def bind_eq_Some_conv
      Let_def word_less_nat_alt not_less split: if_split_asm prod.split_asm option.split_asm)

section \<open>Properties\<close>

text \<open>
  C37. Swap-order witnesses, BTC and LTC: a script parses to a witness for an order of direction
  \<open>d\<close> exactly when the wallet's encoder for that branch produces that script and the branch
  is one the direction admits (sell fills for sell orders with a 20-byte taker hash, buy fills for
  buy orders, cancel and sweep for both). Witnesses of orders are therefore not malleable.
\<close>

theorem parse_swap_order_witness_exact:
  "(parse_swap_order_witness s d = Some w \<longleftrightarrow>
      encode_swap_order_witness w = Some s \<and> fits_swap_order d w) \<and>
   (parse_ltc_swap_order_witness s d = Some lw \<longleftrightarrow>
      encode_ltc_swap_order_witness lw = Some s \<and> fits_ltc_swap_order d lw)"
  using parse_swap_order_witness_sound parse_swap_order_witness_encode
    parse_ltc_swap_order_witness_sound parse_ltc_swap_order_witness_encode by blast

text \<open>
  A BTC swap claim witness built by the wallet's encoder is read back by the verifier with all
  its fields exactly when the Merkle branch has at most 32 hashes and the raw BTC transaction at most
  1,000,000 bytes, although the encoder itself accepts branches of up to 65,535 hashes and
  transactions of any size.
\<close>

lemma htlc_btc_swap_claim_roundtrip:
  assumes "encode_htlc_btc_swap_claim_witness sig pubkey h branch idx raw = Some s"
    and "length h = 32" "list_all (\<lambda>x. length x = 32) branch"
  shows "parse_htlc_btc_swap_witness s = Some (BtcClaim sig pubkey h branch idx raw) \<longleftrightarrow>
    length branch \<le> 32 \<and> length raw \<le> 1000000"
proof
  assume b: "length branch \<le> 32 \<and> length raw \<le> 1000000"
  have "claim_fields sig pubkey h branch raw"
    using assms b
    by (auto simp: encode_htlc_btc_swap_claim_witness_def claim_fields_def pushable_def split: if_splits)
  then show "parse_htlc_btc_swap_witness s = Some (BtcClaim sig pubkey h branch idx raw)"
    using assms(1)
    by (intro parse_htlc_btc_swap_claim)
      (auto simp: encode_htlc_btc_swap_claim_witness_def split: if_splits)
qed (rule parse_swap_claim_bounds(1))

text \<open>
  Input witnesses of the plain outputs: HTLCv1 claims and refunds built by the wallet parse back
  to their fields, and a legacy signature/public-key pair parses as P2PKH exactly when its signature
  is not one or two bytes long, since those length bytes select the HTLC branches.
\<close>

lemma parse_input_witness_roundtrip:
  assumes "encode_htlcv1_claim_witness sig pubkey preimage = Some c"
    and "encode_htlcv1_refund_witness sig pubkey = Some r"
  shows "parse_input_witness c = WHtlcClaim sig pubkey preimage \<and>
    parse_input_witness r = WHtlcRefund sig pubkey \<and>
    (parse_input_witness (push sig @ push pubkey) = WP2pkh sig pubkey \<longleftrightarrow>
      length sig \<noteq> 1 \<and> length sig \<noteq> 2)"
proof -
  have p: "pushable sig" "pushable pubkey" "pushable preimage"
    "c = 1 # push sig @ push pubkey @ push preimage" "r = 2 # push sig @ push pubkey"
    using assms by (auto simp: encode_htlcv1_claim_witness_def encode_htlcv1_refund_witness_def
        pushable_def split: if_splits)
  have h: "(push sig @ push pubkey) ! 0 = k \<longleftrightarrow> length sig = unat k" for k
    using unat_push_length [OF p(1)] by (auto simp: push_def word_unat_eq_iff)
  have "parse_input_witness (push sig @ push pubkey) = WP2pkh sig pubkey" 
    if "length sig \<noteq> 1" "length sig \<noteq> 2"
    using that parse_legacy_push [OF p(1,2) refl] h [of 1] h [of 2]
    by (auto simp: parse_input_witness_def push_def)
  moreover have "parse_input_witness (push sig @ push pubkey) \<noteq> WP2pkh sig pubkey"
    if "length sig = 1 \<or> length sig = 2"
    using that h [of 1] h [of 2] by (auto simp: parse_input_witness_def Let_def)
  ultimately show ?thesis
    using parse_input_witness_claim [OF p(1-4)] parse_input_witness_refund [OF p(1,2,5)] by blast
qed

end
