(* ===== verification/BtcTx.thy ===== *)
theory BtcTx
  imports TxWire
begin

text \<open>
  The light parser of Bitcoin and Litecoin transactions that the swap claims rely on
  (\<open>src/src/btc_tx_parse.rs\<close>): classification of output scripts, the walk over the legacy and the
  SegWit wire format that returns the outputs, and the transaction id, which leaves out the SegWit
  marker, flag and witness. A reference serializer states what the parser is meant to read.
\<close>

section \<open>Definitions\<close>

abbreviation (input) BTC_TX_MAX_LEN :: nat where
  "BTC_TX_MAX_LEN \<equiv> 4000000"

datatype BtcOutputScript = BtcP2pkh bytes | BtcP2wpkh bytes | BtcOpReturn bytes | BtcOther

record BtcTxOutputView =
  bo_value :: u64
  bo_script :: BtcOutputScript
  bo_vout :: u32

definition btc_read_varint :: "bytes \<Rightarrow> nat \<Rightarrow> err + u64 \<times> nat" where
  "btc_read_varint data off =
     (if off \<ge> length data then Inl (Err ''btc tx: EOF reading varint'')
      else
        let first = data ! off; off = off + 1
        in if first = 0xff then
             (if off + 8 > length data then Inl (Err ''btc tx: EOF reading 8-byte varint'')
              else Inr (le_u64 (slice data off (off + 8)), off + 8))
           else if first = 0xfe then
             (if off + 4 > length data then Inl (Err ''btc tx: EOF reading 4-byte varint'')
              else Inr (ucast (le_u32 (slice data off (off + 4))), off + 4))
           else if first = 0xfd then
             (if off + 2 > length data then Inl (Err ''btc tx: EOF reading 2-byte varint'')
              else Inr (ucast (le_u16 (slice data off (off + 2))), off + 2))
           else Inr (ucast first, off))"

definition skip_bytes :: "nat \<Rightarrow> bytes \<Rightarrow> nat \<Rightarrow> err + unit \<times> nat" where
  "skip_bytes len data off =
     (if off + len \<ge> 2 ^ 64 then Inl (Err ''btc tx: offset overflow'')
      else if off + len > length data then Inl (Err ''btc tx: truncated'')
      else Inr ((), off + len))"

definition parse_output_script :: "bytes \<Rightarrow> BtcOutputScript" where
  "parse_output_script script =
     (if length script = 25 \<and> script ! 0 = 0x76 \<and> script ! 1 = 0xa9 \<and> script ! 2 = 0x14 \<and>
         script ! 23 = 0x88 \<and> script ! 24 = 0xac
      then BtcP2pkh (slice script 3 23)
      else if length script = 22 \<and> script ! 0 = 0x00 \<and> script ! 1 = 0x14
      then BtcP2wpkh (slice script 2 22)
      else if length script \<ge> 2 \<and> script ! 0 = 0x6a \<and> 1 \<le> script ! 1 \<and> script ! 1 \<le> 75 \<and>
         unat (script ! 1) + 2 = length script
      then BtcOpReturn (drop 2 script)
      else BtcOther)"

text \<open>The bodies of the loops over inputs, outputs and witness stacks.\<close>

definition skip_input :: "bytes \<Rightarrow> nat \<Rightarrow> err + unit \<times> nat" where
  "skip_input raw off =
     bindE (skip_bytes 36 raw off) (\<lambda>(_, off).
     bindE (btc_read_varint raw off) (\<lambda>(script_len, off).
     bindE (skip_bytes (unat script_len) raw off) (\<lambda>(_, off).
       skip_bytes 4 raw off)))"

definition skip_output :: "bytes \<Rightarrow> nat \<Rightarrow> err + unit \<times> nat" where
  "skip_output raw off =
     bindE (skip_bytes 8 raw off) (\<lambda>(_, off).
     bindE (btc_read_varint raw off) (\<lambda>(script_len, off).
       skip_bytes (unat script_len) raw off))"

definition skip_witness_item :: "bytes \<Rightarrow> nat \<Rightarrow> err + unit \<times> nat" where
  "skip_witness_item raw off =
     bindE (btc_read_varint raw off) (\<lambda>(item_len, off). skip_bytes (unat item_len) raw off)"

definition skip_witness :: "bytes \<Rightarrow> nat \<Rightarrow> err + unit \<times> nat" where
  "skip_witness raw off =
     bindE (btc_read_varint raw off) (\<lambda>(stack_count, off).
     if stack_count > 100000 then Inl (Err ''btc tx: absurd witness stack size'')
     else bindE (read_many (unat stack_count) skip_witness_item raw off) (\<lambda>(_, off). Inr ((), off)))"

text \<open>
  The output reader adds the script length to the offset without a check: the sum wraps around,
  and slicing the buffer backwards panics.
\<close>

definition read_btc_output :: "u32 \<Rightarrow> bytes \<Rightarrow> nat \<Rightarrow> err + BtcTxOutputView \<times> nat" where
  "read_btc_output vout raw off =
     (if off + 8 > length raw then Inl (Err ''btc tx: truncated output value'')
      else
        let v = le_u64 (slice raw off (off + 8))
        in bindE (btc_read_varint raw (off + 8)) (\<lambda>(script_len, off).
           let stop = (off + unat script_len) mod 2 ^ 64
           in if stop > length raw then Inl (Err ''btc tx: truncated output script'')
              else if off > stop then Inl Panic
              else Inr (\<lparr>bo_value = v, bo_script = parse_output_script (slice raw off stop),
                         bo_vout = vout\<rparr>, stop)))"

fun read_btc_outputs :: "nat \<Rightarrow> u32 \<Rightarrow> bytes \<Rightarrow> nat \<Rightarrow> err + BtcTxOutputView list \<times> nat" where
  "read_btc_outputs 0 vout raw off = Inr ([], off)"
| "read_btc_outputs (Suc n) vout raw off =
     bindE (read_btc_output vout raw off) (\<lambda>(x, off).
     bindE (read_btc_outputs n (vout + 1) raw off) (\<lambda>(xs, off). Inr (x # xs, off)))"

text \<open>The count of inputs or outputs, with the bounds the parser puts on it.\<close>

definition read_count :: "string \<Rightarrow> string \<Rightarrow> bytes \<Rightarrow> nat \<Rightarrow> err + u64 \<times> nat" where
  "read_count zero absurd raw off =
     bindE (btc_read_varint raw off) (\<lambda>(n, off).
     if n = 0 then Inl (Err zero) else if n > 100000 then Inl (Err absurd) else Inr (n, off))"

abbreviation (input) read_in_count :: "bytes \<Rightarrow> nat \<Rightarrow> err + u64 \<times> nat" where
  "read_in_count \<equiv> read_count ''btc tx: zero inputs'' ''btc tx: absurd input count''"

abbreviation (input) read_out_count :: "bytes \<Rightarrow> nat \<Rightarrow> err + u64 \<times> nat" where
  "read_out_count \<equiv> read_count ''btc tx: zero outputs'' ''btc tx: absurd output count''"

definition parse_btc_tx_outputs :: "bytes \<Rightarrow> err + BtcTxOutputView list" where
  "parse_btc_tx_outputs raw =
     (if raw = [] then Inl (Err ''btc tx: empty'')
      else if length raw > BTC_TX_MAX_LEN then Inl (Err ''btc tx: too large'')
      else
        bindE (skip_bytes 4 raw 0) (\<lambda>(_, off).
        if off \<ge> length raw then Inl (Err ''btc tx: truncated after version'')
        else
          let segwit = (raw ! off = 0x00)
          in if segwit \<and> off + 2 > length raw then Inl (Err ''btc tx: truncated segwit marker'')
             else if segwit \<and> raw ! (off + 1) = 0x00 then
               Inl (Err ''btc tx: segwit flag cannot be zero'')
             else
               bindE (read_in_count raw (if segwit then off + 2 else off)) (\<lambda>(in_count, off).
               bindE (read_many (unat in_count) skip_input raw off) (\<lambda>(_, off).
               bindE (read_out_count raw off) (\<lambda>(out_count, off).
               bindE (read_btc_outputs (unat out_count) 0 raw off) (\<lambda>(outs, off).
               bindE (if segwit then read_many (unat in_count) skip_witness raw off
                      else Inr ([], off)) (\<lambda>(_, off).
               if off + 4 \<noteq> length raw then
                 Inl (Err ''btc tx: trailing bytes or truncated locktime'')
               else Inr outs)))))))"

definition btc_txid :: "(bytes \<Rightarrow> bytes) \<Rightarrow> bytes \<Rightarrow> err + bytes" where
  "btc_txid sha raw =
     (if length raw < 10 \<or> length raw > BTC_TX_MAX_LEN then Inl (Err ''btc tx: length out of range'')
      else if raw ! 4 \<noteq> 0x00 then Inr (sha256d sha raw)
      else if length raw < 6 then Inl (Err ''btc tx: truncated segwit marker'')
      else if raw ! 5 = 0x00 then Inl (Err ''btc tx: segwit flag cannot be zero'')
      else
        let inputs_start = 6
        in bindE (read_in_count raw inputs_start) (\<lambda>(in_count, off).
           bindE (read_many (unat in_count) skip_input raw off) (\<lambda>(_, off).
           bindE (read_out_count raw off) (\<lambda>(out_count, off).
           bindE (read_many (unat out_count) skip_output raw off) (\<lambda>(_, outputs_end).
           bindE (read_many (unat in_count) skip_witness raw outputs_end) (\<lambda>(_, locktime_off).
           if locktime_off + 4 > length raw then Inl (Err ''btc tx: truncated locktime'')
           else Inr (sha256d sha
             (slice raw 0 4 @ slice raw inputs_start outputs_end @
              slice raw locktime_off (locktime_off + 4)))))))))"

text \<open>
  The reference: a Bitcoin transaction as data, with its legacy serialization and its SegWit
  serialization (BIP 141).
\<close>

record BtcTxIn =
  bi_outpoint :: bytes
  bi_script :: bytes
  bi_sequence :: bytes

record BtcTxData =
  bt_version :: bytes
  bt_ins :: "BtcTxIn list"
  bt_outs :: "(u64 \<times> bytes) list"
  bt_stacks :: "bytes list list"
  bt_locktime :: bytes

definition var_bytes :: "bytes \<Rightarrow> bytes" where
  "var_bytes bs = write_varint (length bs) @ bs"

definition ser_in :: "BtcTxIn \<Rightarrow> bytes" where
  "ser_in i = bi_outpoint i @ var_bytes (bi_script i) @ bi_sequence i"

definition ser_out :: "u64 \<times> bytes \<Rightarrow> bytes" where
  "ser_out x = u64_le (fst x) @ var_bytes (snd x)"

definition ser_stack :: "bytes list \<Rightarrow> bytes" where
  "ser_stack st = write_varint (length st) @ concat (map var_bytes st)"

definition ser_body :: "BtcTxData \<Rightarrow> bytes" where
  "ser_body t =
     write_varint (length (bt_ins t)) @ concat (map ser_in (bt_ins t)) @
     write_varint (length (bt_outs t)) @ concat (map ser_out (bt_outs t))"

definition ser_legacy :: "BtcTxData \<Rightarrow> bytes" where
  "ser_legacy t = bt_version t @ ser_body t @ bt_locktime t"

definition ser_segwit :: "u8 \<Rightarrow> BtcTxData \<Rightarrow> bytes" where
  "ser_segwit flag t =
     bt_version t @ [0, flag] @ ser_body t @ concat (map ser_stack (bt_stacks t)) @ bt_locktime t"

definition wf_btc_tx :: "BtcTxData \<Rightarrow> bool" where
  "wf_btc_tx t \<longleftrightarrow> length (bt_version t) = 4 \<and> length (bt_locktime t) = 4 \<and>
     1 \<le> length (bt_ins t) \<and> length (bt_ins t) \<le> 100000 \<and>
     1 \<le> length (bt_outs t) \<and> length (bt_outs t) \<le> 100000 \<and>
     list_all (\<lambda>i. length (bi_outpoint i) = 36 \<and> length (bi_sequence i) = 4) (bt_ins t) \<and>
     length (bt_stacks t) = length (bt_ins t) \<and>
     list_all (\<lambda>st. length st \<le> 100000) (bt_stacks t)"

definition output_views :: "(u64 \<times> bytes) list \<Rightarrow> BtcTxOutputView list" where
  "output_views outs =
     map (\<lambda>(k, v, s). \<lparr>bo_value = v, bo_script = parse_output_script s, bo_vout = word_of_nat k\<rparr>)
       (enumerate 0 outs)"

section \<open>Readers\<close>

lemma btc_read_varint_conv:
  "btc_read_varint data off = Inr (v, off') \<longleftrightarrow> read_varint_at data off = (Some v, off')"
  by (auto simp: btc_read_varint_def read_varint_at_def Let_def)

lemma btc_read_varint_at:
  assumes "n < 2 ^ 64" "drop off data = write_varint n @ rest"
  shows "btc_read_varint data off = Inr (word_of_nat n, off + length (write_varint n))"
  using read_varint_write_varint [OF assms] by (simp add: btc_read_varint_conv)

lemma skip_bytes_at:
  assumes "buffer_ok buf" "off \<le> length buf" "drop off buf = xs @ rest" "n = length xs"
  shows "skip_bytes n buf off = Inr ((), off + length xs)"
  using drop_append_le [OF assms(2,3)] assms(1,4) by (simp add: skip_bytes_def)

lemma drop_append_length_ge: "drop off buf = xs @ rest \<Longrightarrow> length xs \<le> length buf"
  by (metis add_leD1 diff_le_self dual_order.trans length_append length_drop le_add1)

lemma skip_var_bytes:
  assumes "buffer_ok buf" "off \<le> length buf" "drop off buf = var_bytes xs @ rest"
  shows "bindE (btc_read_varint buf off) (\<lambda>(n, off). skip_bytes (unat n) buf off)
    = Inr ((), off + length (var_bytes xs))"
proof -
  have d: "drop off buf = write_varint (length xs) @ xs @ rest"
    using assms(3) by (simp add: var_bytes_def)
  note d2 = drop_eq_append_slice(2) [OF d]
  have b: "length xs < 2 ^ 64" using drop_append_length_ge [OF d2] assms(1) by simp
  have "off + length (write_varint (length xs)) \<le> length buf"
    by (rule drop_append_le [OF assms(2) d])
  then show ?thesis
    using btc_read_varint_at [OF b d] skip_bytes_at [OF assms(1) _ d2 refl] b
    by (simp add: unat_word_of_nat_small var_bytes_def)
qed

lemma skip_input_at:
  assumes "buffer_ok buf" "off \<le> length buf" "drop off buf = ser_in i @ rest"
    and "length (bi_outpoint i) = 36" "length (bi_sequence i) = 4"
  shows "skip_input buf off = Inr ((), off + length (ser_in i))"
proof -
  have d: "drop off buf = bi_outpoint i @ var_bytes (bi_script i) @ bi_sequence i @ rest"
    using assms(3) by (simp add: ser_in_def)
  note d1 = drop_eq_append_slice(2) [OF d]
  note d2 = drop_eq_append_slice(2) [OF d1]
  note b1 = drop_append_le [OF assms(2) d]
  note b2 = drop_append_le [OF b1 d1]
  obtain n o1 where v: "btc_read_varint buf (off + length (bi_outpoint i)) = Inr (n, o1)"
    "skip_bytes (unat n) buf o1 = Inr ((), off + length (bi_outpoint i) + length (var_bytes (bi_script i)))"
    using skip_var_bytes [OF assms(1) b1 d1] by (auto simp: bindE_eq_Inr)
  show ?thesis
    using skip_bytes_at [OF assms(1,2) d, of 36] skip_bytes_at [OF assms(1) b2 d2, of 4] assms(4,5) v
    by (simp add: skip_input_def ser_in_def)
qed

lemma skip_output_at:
  assumes "buffer_ok buf" "off \<le> length buf" "drop off buf = ser_out x @ rest"
  shows "skip_output buf off = Inr ((), off + length (ser_out x))"
proof -
  have d: "drop off buf = u64_le (fst x) @ var_bytes (snd x) @ rest"
    using assms(3) by (simp add: ser_out_def)
  note d1 = drop_eq_append_slice(2) [OF d]
  note b1 = drop_append_le [OF assms(2) d]
  show ?thesis
    using skip_bytes_at [OF assms(1,2) d, of 8] skip_var_bytes [OF assms(1) b1 d1]
    by (simp add: skip_output_def ser_out_def)
qed

lemma read_btc_output_at:
  assumes "buffer_ok buf" "off \<le> length buf" "drop off buf = ser_out x @ rest"
  shows "read_btc_output k buf off =
    Inr (\<lparr>bo_value = fst x, bo_script = parse_output_script (snd x), bo_vout = k\<rparr>,
      off + length (ser_out x))"
proof -
  have d: "drop off buf = u64_le (fst x) @ write_varint (length (snd x)) @ snd x @ rest"
    using assms(3) by (simp add: ser_out_def var_bytes_def)
  note d1 = drop_eq_append_slice [OF d]
  note b1 = drop_append_le [OF assms(2) d]
  note d2 = drop_eq_append_slice(2) [OF d1(2)]
  note b2 = drop_append_le [OF b1 d1(2)]
  note b3 = drop_append_le [OF b2 d2]
  have b: "length (snd x) < 2 ^ 64" using drop_append_length_ge [OF d2] assms(1) by simp
  show ?thesis
    using btc_read_varint_at [OF b d1(2)] b1 b3 b d1(1) drop_eq_append_slice(1) [OF d2] assms(1)
    by (simp add: read_btc_output_def ser_out_def var_bytes_def unat_word_of_nat_small Let_def)
qed

lemma read_btc_outputs_at:
  assumes "buffer_ok buf" "off \<le> length buf" "drop off buf = concat (map ser_out xs) @ rest"
  shows "read_btc_outputs (length xs) (word_of_nat k) buf off =
    Inr (map (\<lambda>(k, v, s). \<lparr>bo_value = v, bo_script = parse_output_script s, bo_vout = word_of_nat k\<rparr>)
           (enumerate k xs), off + length (concat (map ser_out xs)))"
  using assms(2,3)
proof (induction xs arbitrary: k off)
  case Nil
  then show ?case by simp
next
  case (Cons x xs)
  have d: "drop off buf = ser_out x @ concat (map ser_out xs) @ rest" using Cons.prems(2) by simp
  note b = drop_append_le [OF Cons.prems(1) d]
  show ?case
    using read_btc_output_at [OF assms(1) Cons.prems(1) d, of "word_of_nat k"]
      Cons.IH [OF b drop_eq_append_slice(2) [OF d], of "Suc k"]
    by (simp add: case_prod_unfold add.commute)
qed

lemma skip_witness_at:
  assumes "buffer_ok buf" "off \<le> length buf" "drop off buf = ser_stack st @ rest"
    and "length st \<le> 100000"
  shows "skip_witness buf off = Inr ((), off + length (ser_stack st))"
proof -
  have d: "drop off buf = write_varint (length st) @ concat (map var_bytes st) @ rest"
    using assms(3) by (simp add: ser_stack_def)
  note d1 = drop_eq_append_slice(2) [OF d]
  note b1 = drop_append_le [OF assms(2) d]
  have n: "unat (word_of_nat (length st) :: u64) = length st"
    using assms(4) by (intro unat_word_of_nat_small) simp
  have "read_many (length st) skip_witness_item buf (off + length (write_varint (length st)))
    = Inr (map (\<lambda>_. ()) st, off + length (write_varint (length st)) + length (concat (map var_bytes st)))"
    by (rule read_many_map [OF _ b1 d1])
      (simp add: skip_witness_item_def skip_var_bytes [OF assms(1)])
  then show ?thesis
    using btc_read_varint_at [OF _ d] n assms(4)
    by (simp add: skip_witness_def ser_stack_def word_less_nat_alt)
qed

lemma read_count_at:
  assumes "drop off buf = write_varint n @ rest" "1 \<le> n" "n \<le> 100000"
  shows "read_count z a buf off = Inr (word_of_nat n, off + length (write_varint n))"
proof -
  have n: "unat (word_of_nat n :: u64) = n"
    using assms(3) by (intro unat_word_of_nat_small) simp
  then have "(word_of_nat n :: u64) \<noteq> 0" using assms(2) by (auto simp: word_unat_eq_iff)
  then show ?thesis
    using btc_read_varint_at [OF _ assms(1)] assms(3) n
    by (simp add: read_count_def word_less_nat_alt)
qed

text \<open>The common part of the two formats: inputs and outputs, from the input count on.\<close>

lemma read_ins_at:
  assumes "wf_btc_tx t" "buffer_ok buf" "off \<le> length buf" "drop off buf = ser_body t @ rest"
  obtains p q where
    "read_in_count buf off = Inr (word_of_nat (length (bt_ins t)), p)"
    "read_many (length (bt_ins t)) skip_input buf p = Inr (map (\<lambda>_. ()) (bt_ins t), q)"
    "q \<le> length buf" 
    "drop q buf = write_varint (length (bt_outs t)) @ concat (map ser_out (bt_outs t)) @ rest"
    "q + length (write_varint (length (bt_outs t)) @ concat (map ser_out (bt_outs t))) = off + length (ser_body t)"
proof -
  have d: "drop off buf = write_varint (length (bt_ins t)) @ concat (map ser_in (bt_ins t)) @
      write_varint (length (bt_outs t)) @ concat (map ser_out (bt_outs t)) @ rest"
    using assms(4) by (simp add: ser_body_def)
  note d1 = drop_eq_append_slice(2) [OF d]
  note b1 = drop_append_le [OF assms(3) d]
  note d2 = drop_eq_append_slice(2) [OF d1]
  note b2 = drop_append_le [OF b1 d1]
  have "read_many (length (bt_ins t)) skip_input buf (off + length (write_varint (length (bt_ins t))))
    = Inr (map (\<lambda>_. ()) (bt_ins t),
        off + length (write_varint (length (bt_ins t))) + length (concat (map ser_in (bt_ins t))))"
    by (rule read_many_map [OF _ b1 d1])
      (use assms(1) in \<open>auto simp: wf_btc_tx_def list_all_iff intro: skip_input_at [OF assms(2)]\<close>)
  then show thesis
    using that [OF read_count_at [OF d] _ b2 d2] assms(1) by (auto simp: wf_btc_tx_def ser_body_def)
qed

lemma read_outs_at:
  assumes "wf_btc_tx t" "buffer_ok buf" "q \<le> length buf"
    "drop q buf = write_varint (length (bt_outs t)) @ concat (map ser_out (bt_outs t)) @ rest"
  obtains p where
    "read_out_count buf q = Inr (word_of_nat (length (bt_outs t)), p)"
    "read_btc_outputs (length (bt_outs t)) 0 buf p = Inr (output_views (bt_outs t),
       q + length (write_varint (length (bt_outs t)) @ concat (map ser_out (bt_outs t))))"
    "read_many (length (bt_outs t)) skip_output buf p = Inr (map (\<lambda>_. ()) (bt_outs t),
       q + length (write_varint (length (bt_outs t)) @ concat (map ser_out (bt_outs t))))"
proof -
  note d1 = drop_eq_append_slice(2) [OF assms(4)]
  note b1 = drop_append_le [OF assms(3,4)]
  have "read_many (length (bt_outs t)) skip_output buf (q + length (write_varint (length (bt_outs t))))
    = Inr (map (\<lambda>_. ()) (bt_outs t),
        q + length (write_varint (length (bt_outs t))) + length (concat (map ser_out (bt_outs t))))"
    by (rule read_many_map [OF _ b1 d1]) (rule skip_output_at [OF assms(2)])
  then show thesis
    using that [OF read_count_at [OF assms(4)]] read_btc_outputs_at [OF assms(2) b1 d1, of 0] assms(1)
    by (simp add: wf_btc_tx_def output_views_def add.assoc)
qed

lemma read_stacks_at:
  assumes "wf_btc_tx t" "buffer_ok buf" "off \<le> length buf"
    "drop off buf = concat (map ser_stack (bt_stacks t)) @ rest"
  shows "read_many (length (bt_ins t)) skip_witness buf off =
    Inr (map (\<lambda>_. ()) (bt_stacks t), off + length (concat (map ser_stack (bt_stacks t))))"
proof -
  have "read_many (length (bt_stacks t)) skip_witness buf off =
    Inr (map (\<lambda>_. ()) (bt_stacks t), off + length (concat (map ser_stack (bt_stacks t))))"
    by (rule read_many_map [OF _ assms(3,4)])
      (use assms(1) in \<open>auto simp: wf_btc_tx_def list_all_iff intro: skip_witness_at [OF assms(2)]\<close>)
  then show ?thesis using assms(1) by (simp add: wf_btc_tx_def)
qed

lemma unat_count: "n \<le> 100000 \<Longrightarrow> unat (word_of_nat n :: u64) = n"
  by (intro unat_word_of_nat_small) simp

lemma wf_btc_txD:
  assumes "wf_btc_tx t"
  shows "length (bt_version t) = 4" "length (bt_locktime t) = 4"
    "unat (word_of_nat (length (bt_ins t)) :: u64) = length (bt_ins t)"
    "unat (word_of_nat (length (bt_outs t)) :: u64) = length (bt_outs t)"
    "1 \<le> length (bt_ins t)" "length (bt_ins t) \<le> 100000"
  using assms by (auto simp: wf_btc_tx_def unat_count)

lemma parse_ser_segwit:
  assumes "wf_btc_tx t" "flag \<noteq> 0" "length (ser_segwit flag t) \<le> BTC_TX_MAX_LEN"
  shows "parse_btc_tx_outputs (ser_segwit flag t) = Inr (output_views (bt_outs t))"
    and "btc_txid sha (ser_segwit flag t) = Inr (sha256d sha (ser_legacy t))"
proof -
  let ?raw = "ser_segwit flag t"
  note w = wf_btc_txD [OF assms(1)]
  have ok: "buffer_ok ?raw" using assms(3) by simp
  have len: "6 \<le> length ?raw" "10 \<le> length ?raw" using w by (simp_all add: ser_segwit_def)
  have d0: "drop 4 ?raw = 0 # flag # ser_body t @ concat (map ser_stack (bt_stacks t)) @ bt_locktime t"
    using w by (simp add: ser_segwit_def)
  have d: "drop 6 ?raw = ser_body t @ concat (map ser_stack (bt_stacks t)) @ bt_locktime t"
    using drop_eq_Cons(3) [OF drop_eq_Cons(3) [OF d0]] by simp
  have hd: "?raw ! 4 = 0" "?raw ! 5 = flag"
    using drop_eq_Cons(2) [OF d0] drop_eq_Cons(2) [OF drop_eq_Cons(3) [OF d0]] by simp_all
  obtain p q where i: "read_in_count ?raw 6 = Inr (word_of_nat (length (bt_ins t)), p)"
    "read_many (length (bt_ins t)) skip_input ?raw p = Inr (map (\<lambda>_. ()) (bt_ins t), q)"
    and q: "q \<le> length ?raw" "drop q ?raw = write_varint (length (bt_outs t)) @
      concat (map ser_out (bt_outs t)) @ concat (map ser_stack (bt_stacks t)) @ bt_locktime t"
    and e: "q + length (write_varint (length (bt_outs t)) @ concat (map ser_out (bt_outs t)))
      = 6 + length (ser_body t)"
    by (rule read_ins_at [OF assms(1) ok len(1) d])
  obtain r where o: "read_out_count ?raw q = Inr (word_of_nat (length (bt_outs t)), r)"
    "read_btc_outputs (length (bt_outs t)) 0 ?raw r = Inr (output_views (bt_outs t), 6 + length (ser_body t))"
    "read_many (length (bt_outs t)) skip_output ?raw r = Inr (map (\<lambda>_. ()) (bt_outs t), 6 + length (ser_body t))"
    by (rule read_outs_at [OF assms(1) ok q, unfolded e])
  note b1 = drop_append_le [OF len(1) d]
  note d1 = drop_eq_append_slice(2) [OF d]
  note s = read_stacks_at [OF assms(1) ok b1 d1]
  have l: "6 + length (ser_body t) + length (concat (map ser_stack (bt_stacks t))) + 4 = length ?raw"
    using w by (simp add: ser_segwit_def)
  have sl: "slice ?raw 0 4 = bt_version t" "slice ?raw 6 (6 + length (ser_body t)) = ser_body t"
    "slice ?raw (6 + length (ser_body t) + length (concat (map ser_stack (bt_stacks t))))
      (6 + length (ser_body t) + length (concat (map ser_stack (bt_stacks t))) + 4) = bt_locktime t"
    using w drop_eq_append_slice(1) [OF d] drop_eq_append_slice(1) [of _ ?raw "bt_locktime t" "[]"] 
      drop_eq_append_slice(2) [OF d1]
    by (simp_all add: ser_segwit_def slice_def)
  show "parse_btc_tx_outputs ?raw = Inr (output_views (bt_outs t))"
    using i o s l len hd w assms(2,3)
    by (simp add: parse_btc_tx_outputs_def skip_bytes_def Let_def length_0_conv [symmetric] del: length_0_conv)
  show "btc_txid sha ?raw = Inr (sha256d sha (ser_legacy t))"
    using i o s l len hd w assms(2,3) sl
    by (simp add: btc_txid_def Let_def ser_legacy_def)
qed

lemma write_varint_hd: "1 \<le> n \<Longrightarrow> n < 2 ^ 64 \<Longrightarrow> hd (write_varint n) \<noteq> 0"
  by (auto simp: write_varint_def word_unat_eq_iff unat_word_of_nat_small)

lemma parse_ser_legacy:
  assumes "wf_btc_tx t" "length (ser_legacy t) \<le> BTC_TX_MAX_LEN"
  shows "parse_btc_tx_outputs (ser_legacy t) = Inr (output_views (bt_outs t))"
    and "btc_txid sha (ser_legacy t) = Inr (sha256d sha (ser_legacy t))"
proof -
  let ?raw = "ser_legacy t"
  note w = wf_btc_txD [OF assms(1)]
  have ok: "buffer_ok ?raw" using assms(2) by simp
  have body: "ser_body t \<noteq> []" "hd (ser_body t) \<noteq> 0"
    using w(5,6) write_varint_hd [of "length (bt_ins t)"] by (simp_all add: ser_body_def)
  have len: "4 \<le> length ?raw" using w by (simp add: ser_legacy_def)
  have d: "drop 4 ?raw = ser_body t @ bt_locktime t"
    using w by (simp add: ser_legacy_def)
  have hd: "?raw ! 4 \<noteq> 0" "4 < length ?raw"
    using body w by (simp_all add: ser_legacy_def nth_append hd_conv_nth)
  obtain p q where i: "read_in_count ?raw 4 = Inr (word_of_nat (length (bt_ins t)), p)"
    "read_many (length (bt_ins t)) skip_input ?raw p = Inr (map (\<lambda>_. ()) (bt_ins t), q)"
    and q: "q \<le> length ?raw" "drop q ?raw = write_varint (length (bt_outs t)) @
      concat (map ser_out (bt_outs t)) @ bt_locktime t"
    and e: "q + length (write_varint (length (bt_outs t)) @ concat (map ser_out (bt_outs t)))
      = 4 + length (ser_body t)"
    by (rule read_ins_at [OF assms(1) ok len(1) d])
  obtain r where o: "read_out_count ?raw q = Inr (word_of_nat (length (bt_outs t)), r)"
    "read_btc_outputs (length (bt_outs t)) 0 ?raw r = Inr (output_views (bt_outs t), 4 + length (ser_body t))"
    by (rule read_outs_at [OF assms(1) ok q, unfolded e])
  have l: "4 + length (ser_body t) + 4 = length ?raw" using w by (simp add: ser_legacy_def)
  have "2 \<le> length (ser_body t)"
  proof -
    have "write_varint (length (bt_ins t)) \<noteq> []" "write_varint (length (bt_outs t)) \<noteq> []" by simp_all
    then show ?thesis
      by (cases "write_varint (length (bt_ins t))"; cases "write_varint (length (bt_outs t))")
        (simp_all add: ser_body_def)
  qed
  then show "btc_txid sha ?raw = Inr (sha256d sha ?raw)"
    using hd(1) l assms(2) by (simp add: btc_txid_def)
  show "parse_btc_tx_outputs ?raw = Inr (output_views (bt_outs t))"
    using i o l len hd w assms(2)
    by (auto simp add: parse_btc_tx_outputs_def skip_bytes_def Let_def)
qed

section \<open>Properties\<close>

text \<open>
  C38. A Bitcoin transaction has one id and one list of outputs whichever format carries it: on the
  SegWit serialization (any non-zero flag byte) the id is the double hash of the legacy
  serialization, with marker, flag and witness left out, and the outputs are returned in wire order
  with their values, classified scripts and indices, as they are on the legacy serialization.
\<close>

theorem btc_txid_strips_witness:
  assumes "wf_btc_tx t" "flag \<noteq> 0" "length (ser_segwit flag t) \<le> BTC_TX_MAX_LEN"
  shows "btc_txid sha (ser_segwit flag t) = Inr (sha256d sha (ser_legacy t)) \<and>
    btc_txid sha (ser_legacy t) = Inr (sha256d sha (ser_legacy t)) \<and>
    parse_btc_tx_outputs (ser_segwit flag t) = Inr (output_views (bt_outs t)) \<and>
    parse_btc_tx_outputs (ser_legacy t) = Inr (output_views (bt_outs t))"
proof -
  have "length (ser_legacy t) \<le> BTC_TX_MAX_LEN"
    using assms(3) by (simp add: ser_segwit_def ser_legacy_def)
  then show ?thesis
    using parse_ser_segwit [OF assms] parse_ser_legacy [OF assms(1)] by simp
qed

definition sample_btc_tx :: BtcTxData where
  "sample_btc_tx = \<lparr>bt_version = [2, 0, 0, 0],
     bt_ins = [\<lparr>bi_outpoint = replicate 36 7, bi_script = [], bi_sequence = [0, 0, 0, 0]\<rparr>],
     bt_outs = [(5000, [0x76, 0xa9, 0x14] @ replicate 20 9 @ [0x88, 0xac]), (0, [0x6a, 2, 1, 1])],
     bt_stacks = [[[1, 2, 3]]], bt_locktime = [0, 0, 0, 0]\<rparr>"

theorem btc_txid_strips_witness_witness:
  "parse_btc_tx_outputs (ser_segwit 1 sample_btc_tx) =
     Inr [\<lparr>bo_value = 5000, bo_script = BtcP2pkh (replicate 20 9), bo_vout = 0\<rparr>,
          \<lparr>bo_value = 0, bo_script = BtcOpReturn [1, 1], bo_vout = 1\<rparr>] \<and>
   btc_txid (\<lambda>bs. take 32 bs) (ser_segwit 1 sample_btc_tx)
     = Inr (sha256d (\<lambda>bs. take 32 bs) (ser_legacy sample_btc_tx))"
proof -
  have "wf_btc_tx sample_btc_tx" by code_simp
  moreover have "length (ser_segwit 1 sample_btc_tx) \<le> BTC_TX_MAX_LEN" by code_simp
  moreover have "output_views (bt_outs sample_btc_tx) =
     [\<lparr>bo_value = 5000, bo_script = BtcP2pkh (replicate 20 9), bo_vout = 0\<rparr>,
      \<lparr>bo_value = 0, bo_script = BtcOpReturn [1, 1], bo_vout = 1\<rparr>]" by code_simp
  ultimately show ?thesis
    using btc_txid_strips_witness [of sample_btc_tx 1 "\<lambda>bs. take 32 bs"] by simp
qed

text \<open>
  Output scripts are classified exactly: a payment to a public-key hash is recognised if and
  only if the script is the canonical P2PKH or P2WPKH script of that 20-byte hash, and a data
  output if and only if the script is \<open>OP_RETURN\<close> with one direct push of 1 to 75 bytes.
\<close>

lemma parse_output_script_exact:
  "(parse_output_script s = BtcP2pkh h \<longleftrightarrow>
      length h = 20 \<and> s = [0x76, 0xa9, 0x14] @ h @ [0x88, 0xac]) \<and>
   (parse_output_script s = BtcP2wpkh h \<longleftrightarrow> length h = 20 \<and> s = [0x00, 0x14] @ h) \<and>
   (parse_output_script s = BtcOpReturn h \<longleftrightarrow>
      1 \<le> length h \<and> length h \<le> 75 \<and> s = [0x6a, word_of_nat (length h)] @ h)"
proof (intro conjI)
  have p: "s = [s ! 0, s ! 1, s ! 2] @ slice s 3 23 @ [s ! 23, s ! 24]" if "length s = 25"
    using that by (intro nth_equalityI) (auto simp: slice_def nth_append nth_Cons' intro!: arg_cong [where f = "(!) s"])
  have w: "s = [s ! 0, s ! 1] @ drop 2 s" if "2 \<le> length s"
    using that by (metis append_Cons append_Nil Cons_nth_drop_Suc One_nat_def Suc_1 Suc_le_lessD Suc_lessD drop0)
  have u: "(word_of_nat (length h) :: u8) = b" if "unat b = length h" for b
    using that by (metis word_of_nat_unat)
  show "parse_output_script s = BtcP2pkh h \<longleftrightarrow>
      length h = 20 \<and> s = [0x76, 0xa9, 0x14] @ h @ [0x88, 0xac]"
  proof
    assume "parse_output_script s = BtcP2pkh h"
    then show "length h = 20 \<and> s = [0x76, 0xa9, 0x14] @ h @ [0x88, 0xac]"
      using p by (auto simp: parse_output_script_def split: if_splits)
  qed (auto simp: parse_output_script_def slice_def nth_append)
  show "parse_output_script s = BtcP2wpkh h \<longleftrightarrow> length h = 20 \<and> s = [0x00, 0x14] @ h"
  proof
    assume "parse_output_script s = BtcP2wpkh h"
    then show "length h = 20 \<and> s = [0x00, 0x14] @ h"
      using w by (auto simp: parse_output_script_def slice_def split: if_splits)
  qed (auto simp: parse_output_script_def slice_def)
  show "parse_output_script s = BtcOpReturn h \<longleftrightarrow>
      1 \<le> length h \<and> length h \<le> 75 \<and> s = [0x6a, word_of_nat (length h)] @ h"
  proof
    assume "parse_output_script s = BtcOpReturn h"
    then have "2 \<le> length s" "s ! 0 = 0x6a" "1 \<le> unat (s ! 1)" "unat (s ! 1) \<le> 75"
      "unat (s ! 1) = length h" "h = drop 2 s"
      by (auto simp: parse_output_script_def word_le_nat_alt split: if_splits)
    with w u [of "s ! 1"] show "1 \<le> length h \<and> length h \<le> 75 \<and> s = [0x6a, word_of_nat (length h)] @ h"
      by metis
  next
    assume h: "1 \<le> length h \<and> length h \<le> 75 \<and> s = [0x6a, word_of_nat (length h)] @ h"
    then have "unat (word_of_nat (length h) :: u8) = length h"
      by (intro unat_word_of_nat_small) simp
    with h show "parse_output_script s = BtcOpReturn h"
      by (auto simp: parse_output_script_def word_le_nat_alt)
  qed
qed

text \<open>
  C39. The parser of outputs adds an output's script length to the offset without an overflow
  check. A 64-byte buffer, the size of two concatenated Merkle nodes, with one input and an output
  whose length field is all ones has a transaction id but makes the parser panic, whatever outpoint,
  sequence number and value it carries.
\<close>

theorem parse_btc_tx_outputs_wraps:
  assumes "length ver = 4" "length outpoint = 36" "length sq = 4" "length val = 8"
    and "raw = ver @ [1] @ outpoint @ [0] @ sq @ [1] @ val @ [0xff] @ replicate 8 0xff"
  shows "length raw = 64 \<and> btc_txid sha raw = Inr (sha256d sha raw) \<and>
    parse_btc_tx_outputs raw = Inl Panic"
proof -
  have len: "length raw = 64" using assms by simp
  have n: "raw ! 4 = 1" "raw ! 41 = 0" "raw ! 46 = 1" "raw ! 55 = 0xff"
    using assms by (simp_all add: nth_append)
  have sl: "slice raw 56 64 = replicate 8 0xff" using assms by (simp add: slice_def)
  have l: "unat (le_u64 (replicate 8 0xff)) = 18446744073709551615" by code_simp
  have "read_in_count raw 4 = Inr (1, 5)"
    using len n by (simp add: read_count_def btc_read_varint_def)
  moreover have "skip_input raw 5 = Inr ((), 46)"
    using len n by (simp add: skip_input_def btc_read_varint_def skip_bytes_def)
  moreover have "read_out_count raw 46 = Inr (1, 47)"
    using len n by (simp add: read_count_def btc_read_varint_def)
  moreover have "read_btc_output 0 raw 47 = Inl Panic"
    using len n sl l by (simp add: read_btc_output_def btc_read_varint_def Let_def)
  ultimately show ?thesis
    using len n by (simp add: btc_txid_def parse_btc_tx_outputs_def skip_bytes_def Let_def length_0_conv [symmetric] del: length_0_conv)
qed

theorem parse_btc_tx_outputs_wraps_witness:
  "parse_btc_tx_outputs (replicate 4 2 @ [1] @ replicate 36 3 @ [0] @ replicate 4 0 @ [1] @
     replicate 8 0 @ [0xff] @ replicate 8 0xff) = Inl Panic"
  using parse_btc_tx_outputs_wraps [of "replicate 4 2" "replicate 36 3" "replicate 4 0" "replicate 8 0", OF _ _ _ _ refl]
  by simp

end
