(* ===== verification/Verify.thy ===== *)
theory Verify
  imports Witness LtcSpv BtcTx Auxpow
begin

text \<open>
  Output rules and spending conditions (\<open>src/src/chain.rs\<close>, \<open>validate_output\<close> to
  \<open>verify_transaction_signature\<close>): one definition per arm of the source's matches. Digests,
  signature decoding and signature verification are packages outside the repository and form the
  parameter record \<open>crypto\<close>. A check returns \<open>Inr None\<close> where the source returns
  false and \<open>Inr (Some c)\<close> where it returns true, \<open>c\<close> being the outpoints of other chains consumed so
  far in the block; it returns \<open>Inl Panic\<close> where the source panics.
\<close>

section \<open>Parameters\<close>

record crypto =
  cr_sha :: "bytes \<Rightarrow> bytes"
  cr_ripemd :: "bytes \<Rightarrow> bytes"
  cr_der_ok :: "bytes \<Rightarrow> bool"
  cr_high_s :: "bytes \<Rightarrow> bool"
  cr_pubkey_ok :: "bytes \<Rightarrow> bool"
  cr_verify_prehash :: "bytes \<Rightarrow> bytes \<Rightarrow> bytes \<Rightarrow> bool"

text \<open>Which output types and spending paths are active at the height of the block.\<close>

record gates =
  g_htlcv1 :: bool
  g_mpsov1 :: bool
  g_btc_relay :: bool
  g_ltc_relay :: bool
  g_htlc_btc_swap :: bool
  g_btc_bech32 :: bool
  g_htlc_ltc_swap :: bool
  g_swap_order :: bool
  g_ltc_swap_order :: bool

type_synonym ext_outpoint = "bytes \<times> u32"

record ConsensusView =
  cv_btc_headers :: "bytes \<rightharpoonup> BtcHeaderEntry"
  cv_btc_heights :: "bytes \<rightharpoonup> u64"
  cv_btc_tip_height :: u64
  cv_claimed_btc :: "ext_outpoint set"
  cv_ltc_headers :: "bytes \<rightharpoonup> LtcHeaderEntry"
  cv_ltc_heights :: "bytes \<rightharpoonup> u64"
  cv_ltc_tip_height :: u64
  cv_claimed_ltc :: "ext_outpoint set"

record consumed =
  cs_btc :: "ext_outpoint list"
  cs_ltc :: "ext_outpoint list"

type_synonym verdict = "err + consumed option"

abbreviation (input) reject :: verdict where "reject \<equiv> Inr None"

abbreviation (input) SWAP_ORDER_MIN_LOCKED_VALUE :: u64 where "SWAP_ORDER_MIN_LOCKED_VALUE \<equiv> 1100"
abbreviation (input) SWAP_ORDER_MAX_SWEEP_FEE :: u64 where "SWAP_ORDER_MAX_SWEEP_FEE \<equiv> 1000"
abbreviation (input) LTC_SWAP_ORDER_MIN_LOCKED_VALUE :: u64 where
  "LTC_SWAP_ORDER_MIN_LOCKED_VALUE \<equiv> 1100"
abbreviation (input) LTC_SWAP_ORDER_MAX_SWEEP_FEE :: u64 where
  "LTC_SWAP_ORDER_MAX_SWEEP_FEE \<equiv> 1000"
abbreviation (input) MAX_BTC_HEADER_BATCH_BYTES :: nat where
  "MAX_BTC_HEADER_BATCH_BYTES \<equiv> 4 + 80 * 2016"
abbreviation (input) MAX_LTC_HEADER_BATCH_BYTES :: nat where
  "MAX_LTC_HEADER_BATCH_BYTES \<equiv> 4 + 80 * 144"

text \<open>The magic bytes \<open>irmswp\<close> and \<open>irmlsw\<close>.\<close>

abbreviation (input) BTC_OP_RETURN_BINDING_MAGIC :: bytes where
  "BTC_OP_RETURN_BINDING_MAGIC \<equiv> [0x69, 0x72, 0x6d, 0x73, 0x77, 0x70]"
abbreviation (input) LTC_OP_RETURN_BINDING_MAGIC :: bytes where
  "LTC_OP_RETURN_BINDING_MAGIC \<equiv> [0x69, 0x72, 0x6d, 0x6c, 0x73, 0x77]"

section \<open>Outputs\<close>

definition is_coinbase :: "Transaction \<Rightarrow> bool" where
  "is_coinbase tx =
     (if length (inputs tx) \<noteq> 1 then False
      else let i = inputs tx ! 0 in prev_txid i = replicate 32 0 \<and> prev_index i = 0xffffffff)"

definition validate_mpso_pubkeys_on_curve :: "crypto \<Rightarrow> MpsoV1Output \<Rightarrow> err + unit" where
  "validate_mpso_pubkeys_on_curve cr mpso =
     ensure (list_all (cr_pubkey_ok cr) (claim_pubkeys mpso @ refund_pubkeys mpso))
       (Err ''MPSOv1 output contains invalid secp256k1 pubkey'')"

text \<open>The first byte of a script, if it has one, is \<open>t\<close>.\<close>

definition has_tag :: "bytes \<Rightarrow> u8 \<Rightarrow> bool" where
  "has_tag script t \<longleftrightarrow> script \<noteq> [] \<and> hd script = t"

definition validate_mpso_output :: "crypto \<Rightarrow> gates \<Rightarrow> u64 \<Rightarrow> TxOutput \<Rightarrow> err + unit" where
  "validate_mpso_output cr g height out =
     bindE (ensure (g_mpsov1 g) (Err ''MPSOv1 output before activation'')) (\<lambda>_.
     bindE (ensure (length (script_pubkey out) \<le> 640) (Err ''MPSOv1 script_pubkey too large'')) (\<lambda>_.
     case parse_mpso_script (script_pubkey out) of
       None \<Rightarrow> Inl (Err ''Malformed MPSOv1 output'')
     | Some mpso \<Rightarrow>
         bindE (validate_mpso_pubkeys_on_curve cr mpso) (\<lambda>_.
           ensure (\<not> mpso_timeout_height mpso \<le> height)
             (Err ''MPSOv1 timeout_height must be greater than current height''))))"

definition validate_btc_batch_output :: "gates \<Rightarrow> TxOutput \<Rightarrow> err + unit" where
  "validate_btc_batch_output g out =
     bindE (ensure (g_btc_relay g) (Err ''BtcHeaderBatch output before SPV relay activation'')) (\<lambda>_.
     bindE (ensure (out_value out = 0) (Err ''BtcHeaderBatch output must have value 0'')) (\<lambda>_.
     bindE (ensure (length (script_pubkey out) \<le> MAX_BTC_HEADER_BATCH_BYTES)
       (Err ''BtcHeaderBatch script_pubkey too large'')) (\<lambda>_.
     case parse_btc_header_batch (script_pubkey out) of
       Inl e \<Rightarrow> Inl (Err ''Malformed BtcHeaderBatch'') | Inr hs \<Rightarrow> Inr ())))"

definition validate_ltc_batch_output :: "gates \<Rightarrow> TxOutput \<Rightarrow> err + unit" where
  "validate_ltc_batch_output g out =
     bindE (ensure (g_ltc_relay g) (Err ''LtcHeaderBatch output before SPV relay activation'')) (\<lambda>_.
     bindE (ensure (out_value out = 0) (Err ''LtcHeaderBatch output must have value 0'')) (\<lambda>_.
     bindE (ensure (length (script_pubkey out) \<le> MAX_LTC_HEADER_BATCH_BYTES)
       (Err ''LtcHeaderBatch script_pubkey too large'')) (\<lambda>_.
     case parse_ltc_header_batch (script_pubkey out) of
       Inl e \<Rightarrow> Inl (Err ''Malformed LtcHeaderBatch'') | Inr hs \<Rightarrow> Inr ())))"

definition validate_htlcv1_output :: "gates \<Rightarrow> TxOutput \<Rightarrow> err + unit" where
  "validate_htlcv1_output g out =
     bindE (ensure (g_htlcv1 g) (Err ''HTLCv1 output before activation'')) (\<lambda>_.
       ensure (parse_htlcv1_script (script_pubkey out) \<noteq> None) (Err ''Malformed HTLCv1 output''))"

definition validate_btc_swap_output :: "gates \<Rightarrow> u64 \<Rightarrow> TxOutput \<Rightarrow> err + unit" where
  "validate_btc_swap_output g height out =
     bindE (ensure (g_htlc_btc_swap g) (Err ''HtlcBtcSwapV1 output before activation'')) (\<lambda>_.
     bindE (ensure (length (script_pubkey out) = HTLC_BTC_SWAP_V1_SCRIPT_LEN)
       (Err ''HtlcBtcSwapV1 script wrong size'')) (\<lambda>_.
     case parse_htlc_btc_swap_v1_script (script_pubkey out) of
       None \<Rightarrow> Inl (Err ''Malformed HtlcBtcSwapV1 output'')
     | Some swap \<Rightarrow>
         bindE (ensure (\<not> (btc_confirmations_required swap < 1 \<or> btc_confirmations_required swap > 144))
           (Err ''HtlcBtcSwapV1 confirmations_required out of allowed range'')) (\<lambda>_.
           ensure (\<not> btc_swap_timeout_height swap \<le> height)
             (Err ''HtlcBtcSwapV1 timeout_height must exceed current height''))))"

definition validate_ltc_swap_output :: "gates \<Rightarrow> u64 \<Rightarrow> TxOutput \<Rightarrow> err + unit" where
  "validate_ltc_swap_output g height out =
     bindE (ensure (g_htlc_ltc_swap g) (Err ''HtlcLtcSwapV1 output before activation'')) (\<lambda>_.
     bindE (ensure (length (script_pubkey out) = HTLC_LTC_SWAP_V1_SCRIPT_LEN)
       (Err ''HtlcLtcSwapV1 script wrong size'')) (\<lambda>_.
     case parse_htlc_ltc_swap_v1_script (script_pubkey out) of
       None \<Rightarrow> Inl (Err ''Malformed HtlcLtcSwapV1 output'')
     | Some swap \<Rightarrow>
         bindE (ensure (\<not> (ltc_confirmations_required swap < 1 \<or> ltc_confirmations_required swap > 144))
           (Err ''HtlcLtcSwapV1 confirmations_required out of allowed range'')) (\<lambda>_.
           ensure (\<not> ltc_swap_timeout_height swap \<le> height)
             (Err ''HtlcLtcSwapV1 timeout_height must exceed current height''))))"

definition validate_swap_order_output :: "gates \<Rightarrow> u64 \<Rightarrow> TxOutput \<Rightarrow> err + unit" where
  "validate_swap_order_output g height out =
     bindE (ensure (g_swap_order g) (Err ''SwapOrder output before activation'')) (\<lambda>_.
     bindE (ensure (length (script_pubkey out) = SWAP_ORDER_SELL_SCRIPT_LEN \<or>
         length (script_pubkey out) = SWAP_ORDER_BUY_SCRIPT_LEN) (Err ''SwapOrder script wrong size'')) (\<lambda>_.
     case parse_swap_order_script (script_pubkey out) of
       None \<Rightarrow> Inl (Err ''Malformed SwapOrder output'')
     | Some order \<Rightarrow>
         bindE (ensure (\<not> so_expiry_height order \<le> height)
           (Err ''SwapOrder expiry_height must exceed current height'')) (\<lambda>_.
         bindE (ensure (\<not> out_value out < SWAP_ORDER_MIN_LOCKED_VALUE)
           (Err ''SwapOrder locked value below minimum'')) (\<lambda>_.
         if so_direction order = SWAP_ORDER_DIRECTION_SELL then
           bindE (ensure (out_value out = so_irm_amount order)
             (Err ''Sell-IRM SwapOrder output value must equal irm_amount'')) (\<lambda>_.
             ensure (\<not> (so_confirmations_required order < 1 \<or> so_confirmations_required order > 144))
               (Err ''SwapOrder confirmations_required out of range''))
         else Inr ()))))"

definition validate_ltc_swap_order_output :: "gates \<Rightarrow> u64 \<Rightarrow> TxOutput \<Rightarrow> err + unit" where
  "validate_ltc_swap_order_output g height out =
     bindE (ensure (g_ltc_swap_order g) (Err ''LtcSwapOrder output before activation'')) (\<lambda>_.
     bindE (ensure (length (script_pubkey out) = LTC_SWAP_ORDER_SELL_SCRIPT_LEN \<or>
         length (script_pubkey out) = LTC_SWAP_ORDER_BUY_SCRIPT_LEN)
       (Err ''LtcSwapOrder script wrong size'')) (\<lambda>_.
     case parse_ltc_swap_order_script (script_pubkey out) of
       None \<Rightarrow> Inl (Err ''Malformed LtcSwapOrder output'')
     | Some order \<Rightarrow>
         bindE (ensure (\<not> lo_expiry_height order \<le> height)
           (Err ''LtcSwapOrder expiry_height must exceed current height'')) (\<lambda>_.
         bindE (ensure (\<not> out_value out < LTC_SWAP_ORDER_MIN_LOCKED_VALUE)
           (Err ''LtcSwapOrder locked value below minimum'')) (\<lambda>_.
         if lo_direction order = LTC_SWAP_ORDER_DIRECTION_SELL then
           bindE (ensure (out_value out = lo_irm_amount order)
             (Err ''Sell-IRM LtcSwapOrder output value must equal irm_amount'')) (\<lambda>_.
             ensure (\<not> (lo_confirmations_required order < 1 \<or> lo_confirmations_required order > 144))
               (Err ''LtcSwapOrder confirmations_required out of range''))
         else Inr ()))))"

definition validate_output :: "crypto \<Rightarrow> gates \<Rightarrow> u64 \<Rightarrow> TxOutput \<Rightarrow> err + unit" where
  "validate_output cr g height out =
     bindE (ensure (\<not> out_value out > MAX_MONEY) (Err ''Output value out of range'')) (\<lambda>_.
     let tag = has_tag (script_pubkey out)
     in if tag MPSO_V1_TAG then validate_mpso_output cr g height out
        else if tag BTC_HEADER_BATCH_TAG then validate_btc_batch_output g out
        else if tag LTC_HEADER_BATCH_TAG then validate_ltc_batch_output g out
        else if length (script_pubkey out) > 0xff then Inl (Err ''script_pubkey too large'')
        else if tag HTLC_V1_SCRIPT_TAG then validate_htlcv1_output g out
        else if tag HTLC_BTC_SWAP_V1_TAG then validate_btc_swap_output g height out
        else if tag HTLC_LTC_SWAP_V1_TAG then validate_ltc_swap_output g height out
        else if tag SWAP_ORDER_V1_TAG then validate_swap_order_output g height out
        else if tag LTC_SWAP_ORDER_V1_TAG then validate_ltc_swap_order_output g height out
        else Inr ())"

section \<open>Signatures\<close>

definition hash160 :: "crypto \<Rightarrow> bytes \<Rightarrow> bytes" where
  "hash160 cr data = cr_ripemd cr (cr_sha cr data)"

definition signature_digest :: "crypto \<Rightarrow> Transaction \<Rightarrow> nat \<Rightarrow> bytes \<Rightarrow> bytes" where
  "signature_digest cr tx input_index script =
     (let tx_copy = tx\<lparr>inputs := map (\<lambda>(idx, i). i\<lparr>script_sig := (if idx = input_index then script else [])\<rparr>)
                         (enumerate 0 (inputs tx))\<rparr>
      in sha256d (cr_sha cr) (serialize_tx tx_copy @ u32_le 1))"

definition verify_sig_with_pubkey ::
  "crypto \<Rightarrow> Transaction \<Rightarrow> nat \<Rightarrow> bytes \<Rightarrow> bytes \<Rightarrow> bytes \<Rightarrow> bool" where
  "verify_sig_with_pubkey cr tx input_index script sig pubkey =
     (if length sig < 2 \<or> last sig \<noteq> 0x01 then False
      else if \<not> (length pubkey = 33 \<or> length pubkey = 65) then False
      else if input_index \<ge> length (inputs tx) then False
      else
        let der = butlast sig
        in if \<not> cr_der_ok cr der then False
           else if cr_high_s cr der then False
           else if \<not> cr_pubkey_ok cr pubkey then False
           else cr_verify_prehash cr pubkey (signature_digest cr tx input_index script) der)"

section \<open>Spending conditions\<close>

text \<open>The verdict of a check that consumes nothing.\<close>

definition verdict :: "consumed \<Rightarrow> bool \<Rightarrow> verdict" where
  "verdict c b = (if b then Inr (Some c) else reject)"

definition verify_p2pkh ::
  "crypto \<Rightarrow> Transaction \<Rightarrow> nat \<Rightarrow> TxInput \<Rightarrow> TxOutput \<Rightarrow> bytes \<Rightarrow> consumed \<Rightarrow> verdict" where
  "verify_p2pkh cr tx input_index txin utxo expected_pkh c =
     (case parse_input_witness (script_sig txin) of
        WP2pkh sig pubkey \<Rightarrow>
          if hash160 cr pubkey \<noteq> expected_pkh then reject
          else verdict c (verify_sig_with_pubkey cr tx input_index (script_pubkey utxo) sig pubkey)
      | _ \<Rightarrow> reject)"

definition verify_htlcv1 ::
  "crypto \<Rightarrow> gates \<Rightarrow> Transaction \<Rightarrow> nat \<Rightarrow> TxInput \<Rightarrow> u64 \<Rightarrow> HtlcV1Output \<Rightarrow> consumed \<Rightarrow> verdict" where
  "verify_htlcv1 cr g tx input_index txin spend_height htlc c =
     (if \<not> g_htlcv1 g then reject
      else case parse_input_witness (script_sig txin) of
        WHtlcClaim sig pubkey preimage \<Rightarrow>
          if preimage = [] \<or> length preimage > 64 then reject
          else if cr_sha cr preimage \<noteq> htlc_expected_hash htlc then reject
          else if hash160 cr pubkey \<noteq> htlc_recipient_pkh htlc then reject
          else verdict c (verify_sig_with_pubkey cr tx input_index (encode_htlcv1_script htlc) sig pubkey)
      | WHtlcRefund sig pubkey \<Rightarrow>
          if spend_height < htlc_timeout_height htlc then reject
          else if hash160 cr pubkey \<noteq> htlc_refund_pkh htlc then reject
          else verdict c (verify_sig_with_pubkey cr tx input_index (encode_htlcv1_script htlc) sig pubkey)
      | _ \<Rightarrow> reject)"

definition count_ones :: "u8 \<Rightarrow> nat" where
  "count_ones w = length (filter (bit w) [0..<8])"

definition valid_mask :: "u8 \<Rightarrow> u8" where
  "valid_mask n = (if n = 8 then 0xff else push_bit (unat n mod 8) 1 - 1)"

text \<open>
  The signatures of a multi-party witness: for every participant \<open>i\<close> whose bit is set the next
  length-prefixed signature must verify. The position after the signatures is returned, or \<open>None\<close>
  where the source rejects.
\<close>

fun mpso_check_sigs ::
  "crypto \<Rightarrow> Transaction \<Rightarrow> nat \<Rightarrow> bytes \<Rightarrow> bytes \<Rightarrow> u8 \<Rightarrow> bytes list \<Rightarrow> nat list \<Rightarrow> nat \<Rightarrow>
    err + nat option" where
  "mpso_check_sigs cr tx input_index scriptcode script bitmap pubkeys [] pos = Inr (Some pos)"
| "mpso_check_sigs cr tx input_index scriptcode script bitmap pubkeys (i # rest) pos =
     (if bitmap AND push_bit i 1 = 0 then
        mpso_check_sigs cr tx input_index scriptcode script bitmap pubkeys rest pos
      else if pos \<ge> length script then Inr None
      else
        let sig_len = unat (script ! pos); pos = pos + 1
        in if sig_len = 0 \<or> pos + sig_len > length script then Inr None
           else if i \<ge> length pubkeys then Inl Panic
           else if \<not> verify_sig_with_pubkey cr tx input_index scriptcode
                       (slice script pos (pos + sig_len)) (pubkeys ! i) then Inr None
           else mpso_check_sigs cr tx input_index scriptcode script bitmap pubkeys rest (pos + sig_len))"

text \<open>The preimage at the end of a claim whose output commits to a hash.\<close>

definition mpso_check_preimage :: "crypto \<Rightarrow> bytes \<Rightarrow> MpsoV1Output \<Rightarrow> nat \<Rightarrow> err + nat option" where
  "mpso_check_preimage cr script mpso pos =
     (if mpso_flags mpso AND 0x01 = 0 then Inr (Some pos)
      else if pos \<ge> length script then Inr None
      else
        let pre_len = unat (script ! pos); pos = pos + 1
        in if pre_len = 0 \<or> pre_len > 64 then Inr None
           else if pos + pre_len > length script then Inr None
           else case optional_hash mpso of
                  None \<Rightarrow> Inl Panic
                | Some expected \<Rightarrow>
                    if cr_sha cr (slice script pos (pos + pre_len)) \<noteq> expected then Inr None
                    else Inr (Some (pos + pre_len)))"

definition verify_mpso_claim ::
  "crypto \<Rightarrow> Transaction \<Rightarrow> nat \<Rightarrow> bytes \<Rightarrow> u64 \<Rightarrow> MpsoV1Output \<Rightarrow> consumed \<Rightarrow> verdict" where
  "verify_mpso_claim cr tx input_index script spend_height mpso c =
     (if spend_height \<ge> mpso_timeout_height mpso then reject
      else if length script < 2 then reject
      else
        let bitmap = script ! 1
        in if bitmap AND NOT (valid_mask (claim_n mpso)) \<noteq> 0 then reject
           else if count_ones bitmap \<noteq> unat (claim_m mpso) then reject
           else
             bindE (mpso_check_sigs cr tx input_index (encode_mpso_script mpso) script bitmap
                      (claim_pubkeys mpso) [0..<unat (claim_n mpso)] 2) (\<lambda>r.
             case r of
               None \<Rightarrow> reject
             | Some pos \<Rightarrow>
                 bindE (mpso_check_preimage cr script mpso pos) (\<lambda>r.
                 case r of
                   None \<Rightarrow> reject
                 | Some pos \<Rightarrow> verdict c (pos = length script))))"

definition verify_mpso_refund ::
  "crypto \<Rightarrow> Transaction \<Rightarrow> nat \<Rightarrow> bytes \<Rightarrow> u64 \<Rightarrow> MpsoV1Output \<Rightarrow> consumed \<Rightarrow> verdict" where
  "verify_mpso_refund cr tx input_index script spend_height mpso c =
     (if spend_height < mpso_timeout_height mpso then reject
      else if length script < 2 then reject
      else
        let bitmap = script ! 1
        in if bitmap AND NOT (valid_mask (refund_n mpso)) \<noteq> 0 then reject
           else if count_ones bitmap \<noteq> unat (refund_m mpso) then reject
           else
             bindE (mpso_check_sigs cr tx input_index (encode_mpso_script mpso) script bitmap
                      (refund_pubkeys mpso) [0..<unat (refund_n mpso)] 2) (\<lambda>r.
             case r of
               None \<Rightarrow> reject
             | Some pos \<Rightarrow> verdict c (pos = length script)))"

definition verify_mpso ::
  "crypto \<Rightarrow> gates \<Rightarrow> Transaction \<Rightarrow> nat \<Rightarrow> TxInput \<Rightarrow> u64 \<Rightarrow> MpsoV1Output \<Rightarrow> consumed \<Rightarrow> verdict" where
  "verify_mpso cr g tx input_index txin spend_height mpso c =
     (let script = script_sig txin
      in if \<not> g_mpsov1 g then reject
         else if length script > MPSO_V1_MAX_WITNESS_SIZE then reject
         else if script = [] then reject
         else if script ! 0 = 0x01 then verify_mpso_claim cr tx input_index script spend_height mpso c
         else if script ! 0 = 0x02 then verify_mpso_refund cr tx input_index script spend_height mpso c
         else reject)"

text \<open>
  The payment a swap claim proves: over the outputs of the foreign transaction, whether one of them
  pays the recipient enough, and the index of the one data output that carries the binding. A second
  such data output rejects the claim.
\<close>

fun scan_swap_outputs ::
  "bool \<Rightarrow> bytes \<Rightarrow> u64 \<Rightarrow> bytes \<Rightarrow> BtcTxOutputView list \<Rightarrow> bool \<Rightarrow> u32 option \<Rightarrow> (bool \<times> u32 option) option" where
  "scan_swap_outputs wpkh pkh amount payload [] pays vout = Some (pays, vout)"
| "scan_swap_outputs wpkh pkh amount payload (x # xs) pays vout =
     (case bo_script x of
        BtcP2pkh h \<Rightarrow>
          scan_swap_outputs wpkh pkh amount payload xs (pays \<or> h = pkh \<and> bo_value x \<ge> amount) vout
      | BtcP2wpkh h \<Rightarrow>
          scan_swap_outputs wpkh pkh amount payload xs
            (pays \<or> wpkh \<and> h = pkh \<and> bo_value x \<ge> amount) vout
      | BtcOpReturn data \<Rightarrow>
          if data = payload then
            (if vout \<noteq> None then None
             else scan_swap_outputs wpkh pkh amount payload xs pays (Some (bo_vout x)))
          else scan_swap_outputs wpkh pkh amount payload xs pays vout
      | BtcOther \<Rightarrow> scan_swap_outputs wpkh pkh amount payload xs pays vout)"

definition verify_btc_swap_claim ::
  "crypto \<Rightarrow> gates \<Rightarrow> ConsensusView \<Rightarrow> Transaction \<Rightarrow> nat \<Rightarrow> HtlcBtcSwapV1Output \<Rightarrow>
    bytes \<Rightarrow> bytes \<Rightarrow> bytes \<Rightarrow> bytes list \<Rightarrow> u32 \<Rightarrow> bytes \<Rightarrow> consumed \<Rightarrow> verdict" where
  "verify_btc_swap_claim cr g view tx input_index swap sig pubkey block_hash branch index raw c =
     (case cv_btc_heights view block_hash of
        None \<Rightarrow> reject
      | Some proof_height \<Rightarrow>
          let confs = sat_sub (sat_add (cv_btc_tip_height view) 1) proof_height
          in if confs < ucast (btc_confirmations_required swap) then reject
             else case cv_btc_headers view block_hash of
               None \<Rightarrow> reject
             | Some header_entry \<Rightarrow>
                 (case btc_txid (cr_sha cr) raw of
                    Inl e \<Rightarrow> if e = Panic then Inl Panic else reject
                  | Inr btc_txid_val \<Rightarrow>
                      if compute_merkle_root (cr_sha cr) btc_txid_val branch index
                           \<noteq> bh_merkle_root (be_header header_entry) then reject
                      else case parse_btc_tx_outputs raw of
                        Inl e \<Rightarrow> if e = Panic then Inl Panic else reject
                      | Inr outs \<Rightarrow>
                          (case scan_swap_outputs (g_btc_bech32 g) (btc_recipient_pkh swap)
                                  (btc_amount_sats swap)
                                  (BTC_OP_RETURN_BINDING_MAGIC @ btc_funding_binding swap) outs False None of
                             Some (True, Some vout) \<Rightarrow>
                               if (btc_txid_val, vout) \<in> cv_claimed_btc view then reject
                               else if (btc_txid_val, vout) \<in> set (cs_btc c) then reject
                               else if hash160 cr pubkey \<noteq> btc_swap_recipient_pkh swap then reject
                               else if \<not> verify_sig_with_pubkey cr tx input_index
                                           (encode_htlc_btc_swap_v1_script swap) sig pubkey then reject
                               else Inr (Some (c\<lparr>cs_btc := cs_btc c @ [(btc_txid_val, vout)]\<rparr>))
                           | _ \<Rightarrow> reject)))"

definition verify_btc_swap ::
  "crypto \<Rightarrow> gates \<Rightarrow> ConsensusView \<Rightarrow> Transaction \<Rightarrow> nat \<Rightarrow> TxInput \<Rightarrow> u64 \<Rightarrow> HtlcBtcSwapV1Output \<Rightarrow>
    consumed \<Rightarrow> verdict" where
  "verify_btc_swap cr g view tx input_index txin spend_height swap c =
     (if \<not> g_htlc_btc_swap g then reject
      else case parse_htlc_btc_swap_witness (script_sig txin) of
        None \<Rightarrow> reject
      | Some (BtcClaim sig pubkey block_hash branch index raw) \<Rightarrow>
          verify_btc_swap_claim cr g view tx input_index swap sig pubkey block_hash branch index raw c
      | Some (BtcRefund sig pubkey) \<Rightarrow>
          if spend_height < btc_swap_timeout_height swap then reject
          else if hash160 cr pubkey \<noteq> btc_swap_refund_pkh swap then reject
          else verdict c
            (verify_sig_with_pubkey cr tx input_index (encode_htlc_btc_swap_v1_script swap) sig pubkey))"

definition verify_ltc_swap_claim ::
  "crypto \<Rightarrow> gates \<Rightarrow> ConsensusView \<Rightarrow> Transaction \<Rightarrow> nat \<Rightarrow> HtlcLtcSwapV1Output \<Rightarrow>
    bytes \<Rightarrow> bytes \<Rightarrow> bytes \<Rightarrow> bytes list \<Rightarrow> u32 \<Rightarrow> bytes \<Rightarrow> consumed \<Rightarrow> verdict" where
  "verify_ltc_swap_claim cr g view tx input_index swap sig pubkey block_hash branch index raw c =
     (case cv_ltc_heights view block_hash of
        None \<Rightarrow> reject
      | Some proof_height \<Rightarrow>
          let confs = sat_sub (sat_add (cv_ltc_tip_height view) 1) proof_height
          in if confs < ucast (ltc_confirmations_required swap) then reject
             else case cv_ltc_headers view block_hash of
               None \<Rightarrow> reject
             | Some header_entry \<Rightarrow>
                 (case btc_txid (cr_sha cr) raw of
                    Inl e \<Rightarrow> if e = Panic then Inl Panic else reject
                  | Inr ltc_txid_val \<Rightarrow>
                      if compute_merkle_root (cr_sha cr) ltc_txid_val branch index
                           \<noteq> bh_merkle_root (be_header header_entry) then reject
                      else case parse_btc_tx_outputs raw of
                        Inl e \<Rightarrow> if e = Panic then Inl Panic else reject
                      | Inr outs \<Rightarrow>
                          (case scan_swap_outputs True (ltc_recipient_pkh swap)
                                  (ltc_amount_sats swap)
                                  (LTC_OP_RETURN_BINDING_MAGIC @ ltc_funding_binding swap) outs False None of
                             Some (True, Some vout) \<Rightarrow>
                               if (ltc_txid_val, vout) \<in> cv_claimed_ltc view then reject
                               else if (ltc_txid_val, vout) \<in> set (cs_ltc c) then reject
                               else if hash160 cr pubkey \<noteq> ltc_swap_recipient_pkh swap then reject
                               else if \<not> verify_sig_with_pubkey cr tx input_index
                                           (encode_htlc_ltc_swap_v1_script swap) sig pubkey then reject
                               else Inr (Some (c\<lparr>cs_ltc := cs_ltc c @ [(ltc_txid_val, vout)]\<rparr>))
                           | _ \<Rightarrow> reject)))"

definition verify_ltc_swap ::
  "crypto \<Rightarrow> gates \<Rightarrow> ConsensusView \<Rightarrow> Transaction \<Rightarrow> nat \<Rightarrow> TxInput \<Rightarrow> u64 \<Rightarrow> HtlcLtcSwapV1Output \<Rightarrow>
    consumed \<Rightarrow> verdict" where
  "verify_ltc_swap cr g view tx input_index txin spend_height swap c =
     (if \<not> g_htlc_ltc_swap g then reject
      else case parse_htlc_ltc_swap_witness (script_sig txin) of
        None \<Rightarrow> reject
      | Some (LtcClaim sig pubkey block_hash branch index raw) \<Rightarrow>
          verify_ltc_swap_claim cr g view tx input_index swap sig pubkey block_hash branch index raw c
      | Some (LtcRefund sig pubkey) \<Rightarrow>
          if spend_height < ltc_swap_timeout_height swap then reject
          else if hash160 cr pubkey \<noteq> ltc_swap_refund_pkh swap then reject
          else verdict c
            (verify_sig_with_pubkey cr tx input_index (encode_htlc_ltc_swap_v1_script swap) sig pubkey))"

definition verify_swap_order ::
  "crypto \<Rightarrow> gates \<Rightarrow> Transaction \<Rightarrow> nat \<Rightarrow> TxInput \<Rightarrow> TxOutput \<Rightarrow> u64 \<Rightarrow> SwapOrderOutput \<Rightarrow>
    consumed \<Rightarrow> verdict" where
  "verify_swap_order cr g tx input_index txin utxo spend_height order c =
     (if \<not> g_swap_order g then reject
      else case parse_swap_order_witness (script_sig txin) (so_direction order) of
        None \<Rightarrow> reject
      | Some (FillSell sig pubkey taker_iriumd_pkh timeout_height) \<Rightarrow>
          if so_direction order \<noteq> SWAP_ORDER_DIRECTION_SELL then reject
          else if spend_height > so_expiry_height order then reject
          else if timeout_height \<le> spend_height then reject
          else if outputs tx = [] then reject
          else
            let expected = \<lparr>btc_confirmations_required = so_confirmations_required order,
                  btc_swap_recipient_pkh = taker_iriumd_pkh,
                  btc_swap_refund_pkh = so_maker_iriumd_pkh order,
                  btc_recipient_pkh = so_maker_btc_pkh order,
                  btc_amount_sats = so_btc_amount_sats order,
                  btc_swap_timeout_height = timeout_height,
                  btc_funding_binding =
                    compute_funding_binding (cr_sha cr) (prev_txid txin) (prev_index txin)\<rparr>
            in if script_pubkey (outputs tx ! 0) \<noteq> encode_htlc_btc_swap_v1_script expected then reject
               else if out_value (outputs tx ! 0) \<noteq> so_irm_amount order then reject
               else verdict c
                 (verify_sig_with_pubkey cr tx input_index (encode_swap_order_script order) sig pubkey)
      | Some (FillBuy sig pubkey irm_timeout_height) \<Rightarrow>
          if so_direction order \<noteq> SWAP_ORDER_DIRECTION_BUY then reject
          else if spend_height > so_expiry_height order then reject
          else if irm_timeout_height \<le> spend_height then reject
          else if outputs tx = [] then reject
          else
            (case so_expected_hash order of
               None \<Rightarrow> reject
             | Some expected_hash \<Rightarrow>
                 let expected_htlc = \<lparr>htlc_expected_hash = expected_hash,
                       htlc_recipient_pkh = so_maker_iriumd_pkh order,
                       htlc_refund_pkh = hash160 cr pubkey,
                       htlc_timeout_height = irm_timeout_height\<rparr>
                 in if script_pubkey (outputs tx ! 0) \<noteq> encode_htlcv1_script expected_htlc then reject
                    else if out_value (outputs tx ! 0) \<noteq> so_irm_amount order then reject
                    else verdict c
                      (verify_sig_with_pubkey cr tx input_index (encode_swap_order_script order) sig pubkey))
      | Some (Cancel sig pubkey) \<Rightarrow>
          if spend_height \<ge> so_expiry_height order then reject
          else if hash160 cr pubkey \<noteq> so_maker_iriumd_pkh order then reject
          else verdict c
            (verify_sig_with_pubkey cr tx input_index (encode_swap_order_script order) sig pubkey)
      | Some ExpireSweep \<Rightarrow>
          if spend_height < so_expiry_height order then reject
          else if outputs tx = [] then reject
          else if script_pubkey (outputs tx ! 0) \<noteq> p2pkh_script (so_maker_iriumd_pkh order) then reject
          else if out_value (outputs tx ! 0) < sat_sub (out_value utxo) SWAP_ORDER_MAX_SWEEP_FEE then reject
          else Inr (Some c))"

definition verify_ltc_swap_order ::
  "crypto \<Rightarrow> gates \<Rightarrow> Transaction \<Rightarrow> nat \<Rightarrow> TxInput \<Rightarrow> TxOutput \<Rightarrow> u64 \<Rightarrow> LtcSwapOrderOutput \<Rightarrow>
    consumed \<Rightarrow> verdict" where
  "verify_ltc_swap_order cr g tx input_index txin utxo spend_height order c =
     (if \<not> g_ltc_swap_order g then reject
      else case parse_ltc_swap_order_witness (script_sig txin) (lo_direction order) of
        None \<Rightarrow> reject
      | Some (LtcFillSell sig pubkey taker_iriumd_pkh timeout_height) \<Rightarrow>
          if lo_direction order \<noteq> LTC_SWAP_ORDER_DIRECTION_SELL then reject
          else if spend_height > lo_expiry_height order then reject
          else if timeout_height \<le> spend_height then reject
          else if outputs tx = [] then reject
          else
            let expected = \<lparr>ltc_confirmations_required = lo_confirmations_required order,
                  ltc_swap_recipient_pkh = taker_iriumd_pkh,
                  ltc_swap_refund_pkh = lo_maker_iriumd_pkh order,
                  ltc_recipient_pkh = lo_maker_ltc_pkh order,
                  ltc_amount_sats = lo_ltc_amount_sats order,
                  ltc_swap_timeout_height = timeout_height,
                  ltc_funding_binding =
                    compute_funding_binding (cr_sha cr) (prev_txid txin) (prev_index txin)\<rparr>
            in if script_pubkey (outputs tx ! 0) \<noteq> encode_htlc_ltc_swap_v1_script expected then reject
               else if out_value (outputs tx ! 0) \<noteq> lo_irm_amount order then reject
               else verdict c
                 (verify_sig_with_pubkey cr tx input_index (encode_ltc_swap_order_script order) sig pubkey)
      | Some (LtcFillBuy sig pubkey irm_timeout_height) \<Rightarrow>
          if lo_direction order \<noteq> LTC_SWAP_ORDER_DIRECTION_BUY then reject
          else if spend_height > lo_expiry_height order then reject
          else if irm_timeout_height \<le> spend_height then reject
          else if outputs tx = [] then reject
          else
            (case lo_expected_hash order of
               None \<Rightarrow> reject
             | Some expected_hash \<Rightarrow>
                 let expected_htlc = \<lparr>htlc_expected_hash = expected_hash,
                       htlc_recipient_pkh = lo_maker_iriumd_pkh order,
                       htlc_refund_pkh = hash160 cr pubkey,
                       htlc_timeout_height = irm_timeout_height\<rparr>
                 in if script_pubkey (outputs tx ! 0) \<noteq> encode_htlcv1_script expected_htlc then reject
                    else if out_value (outputs tx ! 0) \<noteq> lo_irm_amount order then reject
                    else verdict c
                      (verify_sig_with_pubkey cr tx input_index (encode_ltc_swap_order_script order) sig pubkey))
      | Some (LtcCancel sig pubkey) \<Rightarrow>
          if spend_height \<ge> lo_expiry_height order then reject
          else if hash160 cr pubkey \<noteq> lo_maker_iriumd_pkh order then reject
          else verdict c
            (verify_sig_with_pubkey cr tx input_index (encode_ltc_swap_order_script order) sig pubkey)
      | Some LtcExpireSweep \<Rightarrow>
          if spend_height < lo_expiry_height order then reject
          else if outputs tx = [] then reject
          else if script_pubkey (outputs tx ! 0) \<noteq> p2pkh_script (lo_maker_iriumd_pkh order) then reject
          else if out_value (outputs tx ! 0) < sat_sub (out_value utxo) LTC_SWAP_ORDER_MAX_SWEEP_FEE then reject
          else Inr (Some c))"

definition verify_transaction_signature ::
  "crypto \<Rightarrow> gates \<Rightarrow> ConsensusView \<Rightarrow> Transaction \<Rightarrow> nat \<Rightarrow> TxInput \<Rightarrow> TxOutput \<Rightarrow> u64 \<Rightarrow> consumed \<Rightarrow>
    verdict" where
  "verify_transaction_signature cr g view tx input_index txin utxo spend_height c =
     (case parse_output_encumbrance (script_pubkey utxo) of
        P2pkh expected_pkh \<Rightarrow> verify_p2pkh cr tx input_index txin utxo expected_pkh c
      | HtlcV1 htlc \<Rightarrow> verify_htlcv1 cr g tx input_index txin spend_height htlc c
      | MpsoV1 mpso \<Rightarrow> verify_mpso cr g tx input_index txin spend_height mpso c
      | HtlcBtcSwapV1 swap \<Rightarrow> verify_btc_swap cr g view tx input_index txin spend_height swap c
      | HtlcLtcSwapV1 swap \<Rightarrow> verify_ltc_swap cr g view tx input_index txin spend_height swap c
      | SwapOrder order \<Rightarrow> verify_swap_order cr g tx input_index txin utxo spend_height order c
      | LtcSwapOrder order \<Rightarrow> verify_ltc_swap_order cr g tx input_index txin utxo spend_height order c
      | Unknown \<Rightarrow> reject)"

section \<open>Swap claims\<close>

text \<open>What the scan of the outputs looks for, without its accumulators.\<close>

definition pays_recipient :: "bool \<Rightarrow> bytes \<Rightarrow> u64 \<Rightarrow> BtcTxOutputView \<Rightarrow> bool" where
  "pays_recipient wpkh pkh amount x \<longleftrightarrow> bo_value x \<ge> amount \<and>
     (bo_script x = BtcP2pkh pkh \<or> wpkh \<and> bo_script x = BtcP2wpkh pkh)"

definition bindings :: "bytes \<Rightarrow> BtcTxOutputView list \<Rightarrow> BtcTxOutputView list" where
  "bindings payload outs = filter (\<lambda>x. bo_script x = BtcOpReturn payload) outs"

lemma scan_swap_outputs_char:
  "scan_swap_outputs wpkh pkh amount payload outs pays vout =
     (if length (bindings payload outs) + (if vout = None then 0 else 1) > 1 then None
      else Some (pays \<or> (\<exists>x \<in> set outs. pays_recipient wpkh pkh amount x),
             if bindings payload outs = [] then vout else Some (bo_vout (hd (bindings payload outs)))))"
proof (induction outs arbitrary: pays vout)
  case Nil
  then show ?case by (auto simp: bindings_def)
next
  case (Cons x outs)
  then show ?case
    by (cases "bo_script x") (auto simp: bindings_def pays_recipient_def)
qed

lemma scan_swap_outputs_start:
  "scan_swap_outputs wpkh pkh amount payload outs False None = Some (True, Some vout) \<longleftrightarrow>
     (\<exists>x \<in> set outs. pays_recipient wpkh pkh amount x) \<and> (\<exists>y. bindings payload outs = [y] \<and> vout = bo_vout y)"
  by (cases "bindings payload outs" rule: list.exhaust; cases "tl (bindings payload outs)")
    (auto simp: scan_swap_outputs_char)

lemma verify_btc_swap_claim_iff:
  "verify_btc_swap_claim cr g view tx i swap sig pubkey block_hash branch idx raw c = Inr (Some c') \<longleftrightarrow>
    (\<exists>ht e t outs y.
       cv_btc_heights view block_hash = Some ht \<and> cv_btc_headers view block_hash = Some e \<and>
       \<not> sat_sub (sat_add (cv_btc_tip_height view) 1) ht < ucast (btc_confirmations_required swap) \<and>
       btc_txid (cr_sha cr) raw = Inr t \<and> parse_btc_tx_outputs raw = Inr outs \<and>
       compute_merkle_root (cr_sha cr) t branch idx = bh_merkle_root (be_header e) \<and>
       (\<exists>x \<in> set outs. pays_recipient (g_btc_bech32 g) (btc_recipient_pkh swap) (btc_amount_sats swap) x) \<and>
       bindings (BTC_OP_RETURN_BINDING_MAGIC @ btc_funding_binding swap) outs = [y] \<and>
       (t, bo_vout y) \<notin> cv_claimed_btc view \<and> (t, bo_vout y) \<notin> set (cs_btc c) \<and>
       hash160 cr pubkey = btc_swap_recipient_pkh swap \<and>
       verify_sig_with_pubkey cr tx i (encode_htlc_btc_swap_v1_script swap) sig pubkey \<and>
       c' = c\<lparr>cs_btc := cs_btc c @ [(t, bo_vout y)]\<rparr>)"
proof (cases "cv_btc_heights view block_hash")
  case None
  then show ?thesis by (simp add: verify_btc_swap_claim_def)
next
  case (Some ht)
  note h = Some
  show ?thesis
  proof (cases "cv_btc_headers view block_hash")
    case None
    then show ?thesis using h by (simp add: verify_btc_swap_claim_def Let_def)
  next
    case (Some e)
    show ?thesis
    proof (cases "btc_txid (cr_sha cr) raw")
      case (Inl a)
      then show ?thesis using h Some by (simp add: verify_btc_swap_claim_def Let_def)
    next
      case (Inr t)
      note t = Inr
      show ?thesis
      proof (cases "parse_btc_tx_outputs raw")
        case (Inl a)
        then show ?thesis using h Some t by (simp add: verify_btc_swap_claim_def Let_def)
      next
        case (Inr outs)
        let ?s = "scan_swap_outputs (g_btc_bech32 g) (btc_recipient_pkh swap) (btc_amount_sats swap)
          (BTC_OP_RETURN_BINDING_MAGIC @ btc_funding_binding swap) outs False None"
        show ?thesis
        proof (cases "\<exists>vout. ?s = Some (True, Some vout)")
          case True
          then obtain vout where s: "?s = Some (True, Some vout)" by blast
          with scan_swap_outputs_start [THEN iffD1, OF s] h Some t Inr show ?thesis
            by (auto simp: verify_btc_swap_claim_def Let_def)
        next
          case False
          then have "\<not> ((\<exists>x \<in> set outs. pays_recipient (g_btc_bech32 g) (btc_recipient_pkh swap) (btc_amount_sats swap) x) \<and>
             (\<exists>y. bindings (BTC_OP_RETURN_BINDING_MAGIC @ btc_funding_binding swap) outs = [y]))"
            using scan_swap_outputs_start by blast
          moreover have "(case ?s of Some (True, Some vout) \<Rightarrow> k vout | _ \<Rightarrow> reject) = reject" for k
            using False by (auto split: option.splits bool.splits)
          ultimately show ?thesis using h Some t Inr
            by (auto simp: verify_btc_swap_claim_def Let_def)
        qed
      qed
    qed
  qed
qed

section \<open>Multi-party outputs\<close>

lemma valid_mask_eq: "n \<le> 8 \<Longrightarrow> valid_mask n = mask (unat n)"
proof -
  assume n: "n \<le> 8"
  show ?thesis
  proof (cases "n = 8")
    case True
    then show ?thesis by (simp add: valid_mask_def mask_eq_exp_minus_1)
  next
    case False
    then have "unat n < 8" using n by (auto simp: word_le_nat_alt word_unat_eq_iff)
    then show ?thesis using False by (simp add: valid_mask_def mask_eq_exp_minus_1 push_bit_of_1)
  qed
qed

lemma bitmap_within:
  fixes b :: u8
  assumes "b AND NOT (valid_mask n) = 0" "n \<le> 8" "bit b i"
  shows "i < unat n"
proof (rule ccontr)
  assume "\<not> i < unat n"
  moreover have "i < 8" using assms(3) bit_imp_le_length [of b i] by simp
  ultimately have "bit (b AND NOT (valid_mask n)) i"
    using assms(2,3) by (simp add: valid_mask_eq bit_simps)
  then show False using assms(1) by simp
qed

lemma count_ones_card: "count_ones b = card {i. bit b i}"
proof -
  have "{i. bit b i} = set (filter (bit b) [0..<8])"
    using bit_imp_le_length [of b] by auto
  then show ?thesis using distinct_card [of "filter (bit b) [0..<8]"] by (simp add: count_ones_def)
qed

lemma bit_test: "(b :: u8) AND push_bit i 1 = 0 \<longleftrightarrow> \<not> bit b i"
proof -
  have "push_bit i (1 :: u8) = 2 ^ i" by (simp add: push_bit_eq_mult)
  then show ?thesis by (simp add: and_exp_eq_0_iff_not_bit)
qed

lemma mpso_check_sigs_verified:
  assumes "mpso_check_sigs cr tx idx code script b pks is pos = Inr (Some p)" "i \<in> set is" "bit b i"
  shows "\<exists>sig. verify_sig_with_pubkey cr tx idx code sig (pks ! i) \<and> i < length pks"
  using assms
  by (induction cr tx idx code script b pks "is" pos rule: mpso_check_sigs.induct)
    (auto simp: bit_test and_exp_eq_0_iff_not_bit Let_def split: if_split_asm)

text \<open>\<open>k\<close> participants out of a list of keys signed the spending transaction.\<close>

definition signed_by :: "crypto \<Rightarrow> Transaction \<Rightarrow> nat \<Rightarrow> bytes \<Rightarrow> bytes list \<Rightarrow> nat \<Rightarrow> bool" where
  "signed_by cr tx idx code pks k \<longleftrightarrow>
     (\<exists>S. S \<subseteq> {..<length pks} \<and> card S = k \<and>
        (\<forall>i \<in> S. \<exists>sig. verify_sig_with_pubkey cr tx idx code sig (pks ! i)))"

lemma mpso_threshold:
  assumes "mpso_check_sigs cr tx idx code script b pks [0..<unat n] 2 = Inr (Some p)"
    and "b AND NOT (valid_mask n) = 0" "n \<le> 8" "count_ones b = k"
  shows "signed_by cr tx idx code pks k"
proof -
  have "\<exists>sig. verify_sig_with_pubkey cr tx idx code sig (pks ! i) \<and> i < length pks" if "bit b i" for i
    using mpso_check_sigs_verified [OF assms(1) _ that] bitmap_within [OF assms(2,3) that] by simp
  then show ?thesis
    using assms(4) unfolding signed_by_def count_ones_card by (intro exI [of _ "{i. bit b i}"]) auto
qed

text \<open>
  C9. A multi-party output is spent either by its claimants before the timeout height or by its
  refunders from that height on, never by both at one height, and each path needs its full threshold:
  as many different positions of the path's key list as its threshold says have a key that verifies a
  signature over the transaction; a claim of an output that commits to a hash also reveals a preimage of 1 to 64 bytes.
\<close>

theorem mpso_spend_exclusive_threshold:
  assumes "verify_mpso cr g tx idx txin h mpso c = Inr (Some c')" "claim_n mpso \<le> 8" "refund_n mpso \<le> 8"
  shows "g_mpsov1 g \<and> c' = c \<and>
    (if h < mpso_timeout_height mpso
     then signed_by cr tx idx (encode_mpso_script mpso) (claim_pubkeys mpso) (unat (claim_m mpso)) \<and>
       (mpso_flags mpso AND 1 \<noteq> 0 \<longrightarrow>
          (\<exists>pre. 1 \<le> length pre \<and> length pre \<le> 64 \<and> optional_hash mpso = Some (cr_sha cr pre)))
     else signed_by cr tx idx (encode_mpso_script mpso) (refund_pubkeys mpso) (unat (refund_m mpso)))"
proof -
  have g: "g_mpsov1 g" using assms(1) by (auto simp: verify_mpso_def Let_def split: if_split_asm)
  consider (claim) "verify_mpso_claim cr tx idx (script_sig txin) h mpso c = Inr (Some c')"
    | (refund) "verify_mpso_refund cr tx idx (script_sig txin) h mpso c = Inr (Some c')"
    using assms(1) by (auto simp: verify_mpso_def Let_def split: if_split_asm)
  then show ?thesis
  proof cases
    case claim
    then obtain p q where
      f: "h < mpso_timeout_height mpso" "script_sig txin ! 1 AND NOT (valid_mask (claim_n mpso)) = 0"
        "count_ones (script_sig txin ! 1) = unat (claim_m mpso)"
      and s: "mpso_check_sigs cr tx idx (encode_mpso_script mpso) (script_sig txin) (script_sig txin ! 1)
          (claim_pubkeys mpso) [0..<unat (claim_n mpso)] 2 = Inr (Some p)"
      and pre: "mpso_check_preimage cr (script_sig txin) mpso p = Inr (Some q)" and c: "c' = c"
      by (auto simp: verify_mpso_claim_def Let_def bindE_eq_Inr verdict_def split: if_split_asm option.split_asm)
    have "signed_by cr tx idx (encode_mpso_script mpso) (claim_pubkeys mpso) (unat (claim_m mpso))"
      by (rule mpso_threshold [OF s f(2) assms(2) f(3)])
    moreover have "\<exists>pre. 1 \<le> length pre \<and> length pre \<le> 64 \<and> optional_hash mpso = Some (cr_sha cr pre)"
      if "mpso_flags mpso AND 1 \<noteq> 0"
    proof -
      let ?pre = "slice (script_sig txin) (p + 1) (p + 1 + unat (script_sig txin ! p))"
      have "1 \<le> length ?pre \<and> length ?pre \<le> 64 \<and> optional_hash mpso = Some (cr_sha cr ?pre)"
        using pre that
        by (auto simp: mpso_check_preimage_def Let_def split: if_split_asm option.split_asm)
      then show ?thesis by blast
    qed
    ultimately show ?thesis using f(1) g c by simp
  next
    case refund
    then obtain p where
      f: "\<not> h < mpso_timeout_height mpso" "script_sig txin ! 1 AND NOT (valid_mask (refund_n mpso)) = 0"
        "count_ones (script_sig txin ! 1) = unat (refund_m mpso)"
      and s: "mpso_check_sigs cr tx idx (encode_mpso_script mpso) (script_sig txin) (script_sig txin ! 1)
          (refund_pubkeys mpso) [0..<unat (refund_n mpso)] 2 = Inr (Some p)" and c: "c' = c"
      by (auto simp: verify_mpso_refund_def Let_def bindE_eq_Inr verdict_def split: if_split_asm option.split_asm)
    then show ?thesis
      using mpso_threshold [OF s f(2) assms(3) f(3)] g by simp
  qed
qed

section \<open>Litecoin claims and consumed outpoints\<close>

lemma verify_ltc_swap_claim_iff:
  "verify_ltc_swap_claim cr g view tx i swap sig pubkey block_hash branch idx raw c = Inr (Some c') \<longleftrightarrow>
    (\<exists>ht e t outs y.
       cv_ltc_heights view block_hash = Some ht \<and> cv_ltc_headers view block_hash = Some e \<and>
       \<not> sat_sub (sat_add (cv_ltc_tip_height view) 1) ht < ucast (ltc_confirmations_required swap) \<and>
       btc_txid (cr_sha cr) raw = Inr t \<and> parse_btc_tx_outputs raw = Inr outs \<and>
       compute_merkle_root (cr_sha cr) t branch idx = bh_merkle_root (be_header e) \<and>
       (\<exists>x \<in> set outs. pays_recipient True (ltc_recipient_pkh swap) (ltc_amount_sats swap) x) \<and>
       bindings (LTC_OP_RETURN_BINDING_MAGIC @ ltc_funding_binding swap) outs = [y] \<and>
       (t, bo_vout y) \<notin> cv_claimed_ltc view \<and> (t, bo_vout y) \<notin> set (cs_ltc c) \<and>
       hash160 cr pubkey = ltc_swap_recipient_pkh swap \<and>
       verify_sig_with_pubkey cr tx i (encode_htlc_ltc_swap_v1_script swap) sig pubkey \<and>
       c' = c\<lparr>cs_ltc := cs_ltc c @ [(t, bo_vout y)]\<rparr>)"
proof (cases "cv_ltc_heights view block_hash")
  case None
  then show ?thesis by (simp add: verify_ltc_swap_claim_def)
next
  case (Some ht)
  note h = Some
  show ?thesis
  proof (cases "cv_ltc_headers view block_hash")
    case None
    then show ?thesis using h by (simp add: verify_ltc_swap_claim_def Let_def)
  next
    case (Some e)
    show ?thesis
    proof (cases "btc_txid (cr_sha cr) raw")
      case (Inl a)
      then show ?thesis using h Some by (simp add: verify_ltc_swap_claim_def Let_def)
    next
      case (Inr t)
      note t = Inr
      show ?thesis
      proof (cases "parse_btc_tx_outputs raw")
        case (Inl a)
        then show ?thesis using h Some t by (simp add: verify_ltc_swap_claim_def Let_def)
      next
        case (Inr outs)
        let ?s = "scan_swap_outputs True (ltc_recipient_pkh swap) (ltc_amount_sats swap)
          (LTC_OP_RETURN_BINDING_MAGIC @ ltc_funding_binding swap) outs False None"
        show ?thesis
        proof (cases "\<exists>vout. ?s = Some (True, Some vout)")
          case True
          then obtain vout where s: "?s = Some (True, Some vout)" by blast
          with scan_swap_outputs_start [THEN iffD1, OF s] h Some t Inr show ?thesis
            by (auto simp: verify_ltc_swap_claim_def Let_def)
        next
          case False
          then have "\<not> ((\<exists>x \<in> set outs. pays_recipient True (ltc_recipient_pkh swap) (ltc_amount_sats swap) x) \<and>
             (\<exists>y. bindings (LTC_OP_RETURN_BINDING_MAGIC @ ltc_funding_binding swap) outs = [y]))"
            using scan_swap_outputs_start by blast
          moreover have "(case ?s of Some (True, Some vout) \<Rightarrow> k vout | _ \<Rightarrow> reject) = reject" for k
            using False by (auto split: option.splits bool.splits)
          ultimately show ?thesis using h Some t Inr
            by (auto simp: verify_ltc_swap_claim_def Let_def)
        qed
      qed
    qed
  qed
qed

lemma verify_btc_swap_cases:
  assumes "verify_btc_swap cr g view tx i txin h s c = Inr (Some c')"
  obtains (claim) sig pk bh br ix raw where
      "verify_btc_swap_claim cr g view tx i s sig pk bh br ix raw c = Inr (Some c')"
  | (refund) "c' = c"
proof (cases "parse_htlc_btc_swap_witness (script_sig txin)")
  case None
  then show ?thesis using assms by (simp add: verify_btc_swap_def split: if_split_asm)
next
  case (Some w)
  show ?thesis
  proof (cases w)
    case (BtcClaim sig pk bh br ix raw)
    then show ?thesis using assms Some claim [of sig pk bh br ix raw]
      by (simp add: verify_btc_swap_def split: if_split_asm)
  next
    case (BtcRefund sig pk)
    then show ?thesis using assms Some refund
      by (simp add: verify_btc_swap_def verdict_def split: if_split_asm)
  qed
qed

lemma verify_ltc_swap_cases:
  assumes "verify_ltc_swap cr g view tx i txin h s c = Inr (Some c')"
  obtains (claim) sig pk bh br ix raw where
      "verify_ltc_swap_claim cr g view tx i s sig pk bh br ix raw c = Inr (Some c')"
  | (refund) "c' = c"
proof (cases "parse_htlc_ltc_swap_witness (script_sig txin)")
  case None
  then show ?thesis using assms by (simp add: verify_ltc_swap_def split: if_split_asm)
next
  case (Some w)
  show ?thesis
  proof (cases w)
    case (LtcClaim sig pk bh br ix raw)
    then show ?thesis using assms Some claim [of sig pk bh br ix raw]
      by (simp add: verify_ltc_swap_def split: if_split_asm)
  next
    case (LtcRefund sig pk)
    then show ?thesis using assms Some refund
      by (simp add: verify_ltc_swap_def verdict_def split: if_split_asm)
  qed
qed

text \<open>
  What an accepted input adds to the outpoints consumed in the block: nothing, or one outpoint of one
  of the two foreign chains that no earlier block and no earlier input consumed.
\<close>

lemma verify_consumes:
  assumes "verify_transaction_signature cr g view tx i txin utxo h c = Inr (Some c')"
  obtains "c' = c"
  | op where "op \<notin> cv_claimed_btc view" "op \<notin> set (cs_btc c)" "c' = c\<lparr>cs_btc := cs_btc c @ [op]\<rparr>"
  | op where "op \<notin> cv_claimed_ltc view" "op \<notin> set (cs_ltc c)" "c' = c\<lparr>cs_ltc := cs_ltc c @ [op]\<rparr>"
proof (cases "parse_output_encumbrance (script_pubkey utxo)")
  case (P2pkh p)
  then have "c' = c" using assms
    by (auto simp: verify_transaction_signature_def verify_p2pkh_def verdict_def
        split: InputWitness.split_asm if_split_asm)
  then show ?thesis by (rule that(1))
next
  case (HtlcV1 o1)
  then have "c' = c" using assms
    by (auto simp: verify_transaction_signature_def verify_htlcv1_def verdict_def
        split: InputWitness.split_asm if_split_asm)
  then show ?thesis by (rule that(1))
next
  case (MpsoV1 o1)
  then have "c' = c" using assms
    by (auto simp: verify_transaction_signature_def verify_mpso_def verify_mpso_claim_def
        verify_mpso_refund_def verdict_def Let_def bindE_eq_Inr split: if_split_asm option.split_asm)
  then show ?thesis by (rule that(1))
next
  case (HtlcBtcSwapV1 s)
  then have "verify_btc_swap cr g view tx i txin h s c = Inr (Some c')"
    using assms by (simp add: verify_transaction_signature_def)
  then show ?thesis
  proof (cases rule: verify_btc_swap_cases)
    case claim
    then obtain t and y :: BtcTxOutputView where "(t, bo_vout y) \<notin> cv_claimed_btc view" "(t, bo_vout y) \<notin> set (cs_btc c)"
      "c' = c\<lparr>cs_btc := cs_btc c @ [(t, bo_vout y)]\<rparr>"
      unfolding verify_btc_swap_claim_iff by blast
    then show ?thesis by (rule that(2))
  qed (rule that(1))
next
  case (HtlcLtcSwapV1 s)
  then have "verify_ltc_swap cr g view tx i txin h s c = Inr (Some c')"
    using assms by (simp add: verify_transaction_signature_def)
  then show ?thesis
  proof (cases rule: verify_ltc_swap_cases)
    case claim
    then obtain t and y :: BtcTxOutputView where "(t, bo_vout y) \<notin> cv_claimed_ltc view" "(t, bo_vout y) \<notin> set (cs_ltc c)"
      "c' = c\<lparr>cs_ltc := cs_ltc c @ [(t, bo_vout y)]\<rparr>"
      unfolding verify_ltc_swap_claim_iff by blast
    then show ?thesis by (rule that(3))
  qed (rule that(1))
next
  case (SwapOrder s)
  then have "c' = c" using assms
    by (auto simp: verify_transaction_signature_def verify_swap_order_def verdict_def Let_def
        split: if_split_asm option.split_asm SwapOrderWitness.split_asm)
  then show ?thesis by (rule that(1))
next
  case (LtcSwapOrder s)
  then have "c' = c" using assms
    by (auto simp: verify_transaction_signature_def verify_ltc_swap_order_def verdict_def Let_def
        split: if_split_asm option.split_asm LtcSwapOrderWitness.split_asm)
  then show ?thesis by (rule that(1))
next
  case Unknown
  then show ?thesis using assms by (simp add: verify_transaction_signature_def)
qed

section \<open>Properties\<close>

text \<open>
  C8. A Bitcoin swap claim is accepted exactly when it proves the payment: the named block is stored
  in the relay with enough confirmations, the transaction is in its Merkle tree, one of its outputs
  pays the recipient at least the agreed amount, exactly one data output carries the binding to this
  swap, that outpoint was never used before, and the claimant named by the output signed. The
  acceptance records the outpoint, so no second claim can use it.
\<close>

theorem btc_swap_claim_exact:
  "verify_btc_swap_claim cr g view tx i swap sig pubkey block_hash branch idx raw c = Inr (Some c') \<longleftrightarrow>
    (\<exists>ht e t outs y.
       cv_btc_heights view block_hash = Some ht \<and> cv_btc_headers view block_hash = Some e \<and>
       ucast (btc_confirmations_required swap) \<le> sat_sub (sat_add (cv_btc_tip_height view) 1) ht \<and>
       btc_txid (cr_sha cr) raw = Inr t \<and> parse_btc_tx_outputs raw = Inr outs \<and>
       compute_merkle_root (cr_sha cr) t branch idx = bh_merkle_root (be_header e) \<and>
       (\<exists>x \<in> set outs. pays_recipient (g_btc_bech32 g) (btc_recipient_pkh swap) (btc_amount_sats swap) x) \<and>
       bindings (BTC_OP_RETURN_BINDING_MAGIC @ btc_funding_binding swap) outs = [y] \<and>
       (t, bo_vout y) \<notin> cv_claimed_btc view \<union> set (cs_btc c) \<and>
       hash160 cr pubkey = btc_swap_recipient_pkh swap \<and>
       verify_sig_with_pubkey cr tx i (encode_htlc_btc_swap_v1_script swap) sig pubkey \<and>
       c' = c\<lparr>cs_btc := cs_btc c @ [(t, bo_vout y)]\<rparr>)"
  unfolding verify_btc_swap_claim_iff by (simp add: not_less conj_ac)

text \<open>
  C10. The sweep of an expired swap order is not tied to its order: it needs no signature and looks
  only at the first output of the transaction. Two expired orders of one maker can therefore be
  swept by one transaction that pays the maker once, for the larger of the two less the fee, and
  sends everything else wherever its author likes.
\<close>

theorem expire_sweep_shares_output:
  assumes "parse_output_encumbrance (script_pubkey u1) = SwapOrder o1"
    and "parse_output_encumbrance (script_pubkey u2) = SwapOrder o2"
    and "so_maker_iriumd_pkh o1 = maker" "so_maker_iriumd_pkh o2 = maker"
    and "so_expiry_height o1 \<le> h" "so_expiry_height o2 \<le> h" "g_swap_order g"
    and "script_sig i1 = encode_swap_order_expire_sweep_witness"
    and "script_sig i2 = encode_swap_order_expire_sweep_witness"
    and "outputs tx = \<lparr>out_value = sat_sub (max (out_value u1) (out_value u2)) SWAP_ORDER_MAX_SWEEP_FEE,
           script_pubkey = p2pkh_script maker\<rparr> # rest"
  shows "verify_transaction_signature cr g view tx 0 i1 u1 h c = Inr (Some c) \<and>
    verify_transaction_signature cr g view tx 1 i2 u2 h c = Inr (Some c)"
proof -
  have w: "parse_swap_order_witness [3] d = Some ExpireSweep" for d
    by (simp add: parse_swap_order_witness_def)
  have mono: "sat_sub a k \<le> sat_sub b k" if "a \<le> b" for a b k :: u64
    using that by (simp add: word_le_nat_alt unat_sat_sub)
  have "sat_sub (out_value u1) 1000 \<le> sat_sub (max (out_value u1) (out_value u2)) 1000"
    "sat_sub (out_value u2) 1000 \<le> sat_sub (max (out_value u1) (out_value u2)) 1000"
    by (simp_all add: mono)
  then show ?thesis
    using assms w
    by (simp add: verify_transaction_signature_def verify_swap_order_def encode_swap_order_expire_sweep_witness_def not_less)
qed

definition sample_order :: "u64 \<Rightarrow> SwapOrderOutput" where
  "sample_order v = \<lparr>so_direction = 1, so_confirmations_required = 6, so_irm_amount = v,
     so_btc_amount_sats = 7, so_maker_iriumd_pkh = replicate 20 5, so_maker_btc_pkh = replicate 20 6,
     so_expiry_height = 900, so_order_id = replicate 8 1, so_expected_hash = None\<rparr>"

definition all_gates :: gates where
  "all_gates = \<lparr>g_htlcv1 = True, g_mpsov1 = True, g_btc_relay = True, g_ltc_relay = True,
     g_htlc_btc_swap = True, g_btc_bech32 = True, g_htlc_ltc_swap = True, g_swap_order = True,
     g_ltc_swap_order = True\<rparr>"

definition sample_crypto :: crypto where
  "sample_crypto = \<lparr>cr_sha = pad32, cr_ripemd = take 20, cr_der_ok = (\<lambda>_. True), cr_high_s = (\<lambda>_. False),
     cr_pubkey_ok = (\<lambda>_. True), cr_verify_prehash = (\<lambda>_ _ _. True)\<rparr>"

definition sample_view :: "BtcRelay \<Rightarrow> u64 \<Rightarrow> ConsensusView" where
  "sample_view r h = \<lparr>cv_btc_headers = rl_headers r, cv_btc_heights = rl_heights r, cv_btc_tip_height = h,
     cv_claimed_btc = {}, cv_ltc_headers = Map.empty, cv_ltc_heights = Map.empty, cv_ltc_tip_height = 0,
     cv_claimed_ltc = {}\<rparr>"

definition sweep_tx :: Transaction where
  "sweep_tx = \<lparr>tx_version = 1,
     inputs = [\<lparr>prev_txid = replicate 32 1, prev_index = 0, script_sig = [3], sequence = 0\<rparr>,
               \<lparr>prev_txid = replicate 32 2, prev_index = 0, script_sig = [3], sequence = 0\<rparr>],
     outputs = [\<lparr>out_value = 49000, script_pubkey = p2pkh_script (replicate 20 5)\<rparr>,
                \<lparr>out_value = 40000, script_pubkey = p2pkh_script (replicate 20 9)\<rparr>], locktime = 0\<rparr>"

theorem expire_sweep_shares_output_witness:
  "verify_transaction_signature sample_crypto all_gates (sample_view (empty_relay 0) 0) sweep_tx 0 (inputs sweep_tx ! 0)
     \<lparr>out_value = 50000, script_pubkey = encode_swap_order_script (sample_order 50000)\<rparr> 1000 \<lparr>cs_btc = [], cs_ltc = []\<rparr>
     = Inr (Some \<lparr>cs_btc = [], cs_ltc = []\<rparr>) \<and>
   verify_transaction_signature sample_crypto all_gates (sample_view (empty_relay 0) 0) sweep_tx 1 (inputs sweep_tx ! 1)
     \<lparr>out_value = 40000, script_pubkey = encode_swap_order_script (sample_order 40000)\<rparr> 1000 \<lparr>cs_btc = [], cs_ltc = []\<rparr>
     = Inr (Some \<lparr>cs_btc = [], cs_ltc = []\<rparr>)"
proof -
  let ?u = "\<lambda>v. \<lparr>out_value = v, script_pubkey = encode_swap_order_script (sample_order v)\<rparr>"
  have p: "parse_output_encumbrance (script_pubkey (?u 50000)) = SwapOrder (sample_order 50000)"
    "parse_output_encumbrance (script_pubkey (?u 40000)) = SwapOrder (sample_order 40000)"
    by code_simp+
  have "outputs sweep_tx = \<lparr>out_value = sat_sub (max (out_value (?u 50000)) (out_value (?u 40000))) 1000,
      script_pubkey = p2pkh_script (replicate 20 5)\<rparr> # [\<lparr>out_value = 40000, script_pubkey = p2pkh_script (replicate 20 9)\<rparr>]"
    by (simp add: sweep_tx_def sat_sub_def max_def)
  from expire_sweep_shares_output [OF p _ _ _ _ _ _ _ this, of 1000 all_gates "inputs sweep_tx ! 0" "inputs sweep_tx ! 1"]
  show ?thesis
    by (simp add: sample_order_def all_gates_def sweep_tx_def encode_swap_order_expire_sweep_witness_def)
qed

definition sample_mpso :: MpsoV1Output where
  "sample_mpso = \<lparr>mpso_flags = 0, claim_n = 2, claim_m = 1, refund_n = 1, refund_m = 1,
     agreement_hash = replicate 32 3, claim_pubkeys = [replicate 33 2, replicate 33 4],
     refund_pubkeys = [replicate 33 3], mpso_timeout_height = 500, optional_hash = None\<rparr>"

definition mpso_txin :: TxInput where
  "mpso_txin = \<lparr>prev_txid = replicate 32 1, prev_index = 0, script_sig = [1, 2, 2, 0x30, 1], sequence = 0\<rparr>"

theorem mpso_spend_exclusive_threshold_witness:
  "signed_by sample_crypto sweep_tx 0 (encode_mpso_script sample_mpso) [replicate 33 2, replicate 33 4] 1"
proof -
  have v: "verify_mpso sample_crypto all_gates sweep_tx 0 mpso_txin 499 sample_mpso \<lparr>cs_btc = [], cs_ltc = []\<rparr>
      = Inr (Some \<lparr>cs_btc = [], cs_ltc = []\<rparr>)" by code_simp
  show ?thesis
    using mpso_spend_exclusive_threshold [OF v] by (simp add: sample_mpso_def)
qed

text \<open>
  C11. The unchecked first retarget of the header relay reaches the swap outputs: on mainnet, whoever
  extends the stored header of height 880,991 with a header that names the hash of a transaction of
  their own making as its Merkle root can claim a swap with it, with an empty Merkle branch, once the
  relay's tip is high enough. Neither the header nor the transaction costs any Bitcoin.
\<close>

theorem forged_btc_payment_accepted:
  assumes "resolve_btc_spv_params hex_decode env Mainnet = Some ps"
    and "\<And>x. length (cr_sha cr x) = 32"
    and "rl_headers r (bh_prev_hash header) = Some e" "be_height e = 880991"
    and "bh_prev_hash header \<noteq> an_hash (bp_anchor ps)"
    and "rl_headers r (btc_block_hash (cr_sha cr) header) = None" "bh_bits header = 0x2200ffff"
    and "median_time_past_v (bh_prev_hash header) (rl_headers r, []) (bp_anchor ps) < bh_time header"
    and "bh_time header \<le> sat_add t BTC_MAX_FUTURE_TIME_SECS"
    and "btc_txid (cr_sha cr) raw = Inr (bh_merkle_root header)" "parse_btc_tx_outputs raw = Inr [x, y]"
    and "pays_recipient False (btc_recipient_pkh swap) (btc_amount_sats swap) x"
    and "bo_script y = BtcOpReturn (BTC_OP_RETURN_BINDING_MAGIC @ btc_funding_binding swap)"
    and "hash160 cr pubkey = btc_swap_recipient_pkh swap"
    and "verify_sig_with_pubkey cr tx i (encode_htlc_btc_swap_v1_script swap) sig pubkey"
    and "ucast (btc_confirmations_required swap) \<le> sat_sub (sat_add (cv_btc_tip_height view) 1) 880992"
    and "(bh_merkle_root header, bo_vout y) \<notin> cv_claimed_btc view"
  shows "\<exists>r' u. apply_btc_header_batch (cr_sha cr) [header] t r (bp_anchor ps) = Inr (r', u) \<and>
    verify_btc_swap_claim cr g (view\<lparr>cv_btc_headers := rl_headers r', cv_btc_heights := rl_heights r'\<rparr>) tx i swap
      sig pubkey (btc_block_hash (cr_sha cr) header) [] 0 raw \<lparr>cs_btc = [], cs_ltc = []\<rparr>
      = Inr (Some \<lparr>cs_btc = [(bh_merkle_root header, bo_vout y)], cs_ltc = []\<rparr>)"
proof -
  obtain r' u where r: "apply_btc_header_batch (cr_sha cr) [header] t r (bp_anchor ps) = Inr (r', u)"
    "rl_headers r' (btc_block_hash (cr_sha cr) header) = Some \<lparr>be_header = header, be_height = 880992,
      be_total_work = be_total_work e + work_for_bits 0x2200ffff\<rparr>"
    "rl_heights r' (btc_block_hash (cr_sha cr) header) = Some 880992"
    using first_retarget_accepted [OF assms(1-9)] by blast
  have p: "\<exists>z \<in> set [x, y]. pays_recipient (g_btc_bech32 g) (btc_recipient_pkh swap) (btc_amount_sats swap) z"
    using assms(12) by (auto simp: pays_recipient_def)
  have b: "bindings (BTC_OP_RETURN_BINDING_MAGIC @ btc_funding_binding swap) [x, y] = [y]"
    using assms(12,13) by (auto simp: bindings_def pays_recipient_def)
  show ?thesis
    using r p b assms(10,11,14-17)
    by (intro exI [of _ r'] exI [of _ u]) (simp add: verify_btc_swap_claim_iff not_less)
qed

definition forged_raw :: bytes where
  "forged_raw = [1, 0, 0, 0, 1] @ replicate 36 0 @ [0] @ replicate 4 0xff @ [2] @
     [7, 0, 0, 0, 0, 0, 0, 0, 25, 0x76, 0xa9, 20] @ replicate 20 6 @ [0x88, 0xac] @
     [0, 0, 0, 0, 0, 0, 0, 0, 40, 0x6a, 38] @ BTC_OP_RETURN_BINDING_MAGIC @ replicate 32 8 @ replicate 4 0"

definition sample_swap :: HtlcBtcSwapV1Output where
  "sample_swap = \<lparr>btc_confirmations_required = 6, btc_swap_recipient_pkh = replicate 20 2,
     btc_swap_refund_pkh = replicate 20 3, btc_recipient_pkh = replicate 20 6, btc_amount_sats = 7,
     btc_swap_timeout_height = 2000, btc_funding_binding = replicate 32 8\<rparr>"

definition forged_header :: BtcHeader where
  "forged_header = sample_fork\<lparr>bh_merkle_root := pad32 forged_raw\<rparr>"

definition fork_relay :: BtcRelay where
  "fork_relay = (empty_relay 880000)\<lparr>rl_headers := [replicate 32 1 \<mapsto> sample_parent]\<rparr>"

lemma forged_header_facts:
  "bh_prev_hash forged_header = replicate 32 1" "bh_bits forged_header = 0x2200ffff"
  "btc_block_hash pad32 forged_header \<noteq> replicate 32 1"
  "median_time_past_v (bh_prev_hash forged_header) (rl_headers fork_relay, []) MAINNET_BTC_ANCHOR < bh_time forged_header"
  "bh_time forged_header \<le> sat_add 3000000 BTC_MAX_FUTURE_TIME_SECS"
  "bh_prev_hash forged_header \<noteq> an_hash MAINNET_BTC_ANCHOR"
  by code_simp+

lemma forged_raw_facts:
  "btc_txid pad32 forged_raw = Inr (bh_merkle_root forged_header)"
  "parse_btc_tx_outputs forged_raw =
     Inr [\<lparr>bo_value = 7, bo_script = BtcP2pkh (replicate 20 6), bo_vout = 0\<rparr>,
          \<lparr>bo_value = 0, bo_script = BtcOpReturn (BTC_OP_RETURN_BINDING_MAGIC @ replicate 32 8), bo_vout = 1\<rparr>]"
  by code_simp+

theorem forged_btc_payment_accepted_witness:
  "\<exists>r' u. apply_btc_header_batch pad32 [forged_header] 3000000 fork_relay MAINNET_BTC_ANCHOR = Inr (r', u) \<and>
    verify_btc_swap_claim sample_crypto all_gates
      ((sample_view (empty_relay 0) 881000)\<lparr>cv_btc_headers := rl_headers r', cv_btc_heights := rl_heights r'\<rparr>)
      sweep_tx 0 sample_swap [0x30, 1] (replicate 33 2) (btc_block_hash pad32 forged_header) [] 0 forged_raw
      \<lparr>cs_btc = [], cs_ltc = []\<rparr>
      = Inr (Some \<lparr>cs_btc = [(bh_merkle_root forged_header, 1)], cs_ltc = []\<rparr>)"
proof -
  let ?ps = "\<lparr>bp_activation_height = 23850, bp_anchor = MAINNET_BTC_ANCHOR\<rparr>"
  have m: "rl_headers fork_relay (bh_prev_hash forged_header) = Some sample_parent" "be_height sample_parent = 880991"
    by (simp_all add: forged_header_facts fork_relay_def sample_parent_def)
  have n: "rl_headers fork_relay (btc_block_hash pad32 forged_header) = None"
    using forged_header_facts(3) by (simp add: fork_relay_def empty_relay_def)
  have s: "verify_sig_with_pubkey sample_crypto sweep_tx 0 (encode_htlc_btc_swap_v1_script sample_swap) [0x30, 1]
      (replicate 33 2)" "hash160 sample_crypto (replicate 33 2) = btc_swap_recipient_pkh sample_swap"
    "ucast (btc_confirmations_required sample_swap) \<le> sat_sub (sat_add 881000 1) (880992 :: u64)"
    by code_simp+
  have l: "\<And>x. length (cr_sha sample_crypto x) = 32" by (simp add: pad32_def sample_crypto_def)
  have c: "cr_sha sample_crypto = pad32" by (simp add: sample_crypto_def)
  note f = forged_btc_payment_accepted [OF resolve_btc_mainnet [of "\<lambda>_. None" "\<lambda>_. None"] l, unfolded c,
      OF m, simplified, OF forged_header_facts(6) n forged_header_facts(2,4) forged_header_facts(5)[simplified] forged_raw_facts _ _ s(2,1)]
  show ?thesis
    using f [of "sample_view (empty_relay 0) 881000" all_gates] s(3)
    by (simp add: sample_swap_def pays_recipient_def sample_view_def)
qed

end
