(* ===== verification/Gates.thy ===== *)
theory Gates
  imports Activation
begin

text \<open>
  The activation gates of the PoAW-X subsystem (\<open>src/src/poawx_*.rs\<close>): for each feature its
  activation height from the environment, whether it is active at a height and whether it is
  enforced, one definition per function of the source, over an explicit environment. The block
  validation of \<open>src/src/chain.rs\<close> consults these gates before it runs any PoAW-X check.
\<close>

section \<open>Gates\<close>

text \<open>\<open>env::var(name).map(|v| v.trim() == "1").unwrap_or(false)\<close>.\<close>

definition env_flag :: "environ \<Rightarrow> string \<Rightarrow> bool" where
  "env_flag env name = (case env name of Some v \<Rightarrow> trim v = ''1'' | None \<Rightarrow> False)"

text \<open>\<open>parse::<u16>\<close>: as \<open>parse::<u64>\<close>, with the smaller bound.\<close>

definition parse_u16 :: "string \<Rightarrow> u16 option" where
  "parse_u16 s = Option.bind (parse_u64 s) (\<lambda>v. if unat v < 2 ^ 16 then Some (ucast v) else None)"

subsection \<open>Anti domination (\<open>src/src/poawx_dominance.rs\<close>)\<close>

definition anti_domination_activation_height :: "environ \<Rightarrow> u64 option" where
  "anti_domination_activation_height env =
     env_height env ''IRIUM_POAWX_ANTI_DOMINATION_ACTIVATION_HEIGHT''"

definition anti_domination_gate :: "u8 \<Rightarrow> u64 option \<Rightarrow> u64 \<Rightarrow> bool" where
  "anti_domination_gate network_id activation height =
     reached (poawx_effective_activation network_id activation) height"

definition anti_domination_enforced_gate :: "u8 \<Rightarrow> u64 option \<Rightarrow> bool \<Rightarrow> u64 \<Rightarrow> bool" where
  "anti_domination_enforced_gate network_id activation required height \<longleftrightarrow>
     anti_domination_gate network_id activation height \<and> required"

definition anti_domination_required :: "environ \<Rightarrow> bool" where
  "anti_domination_required env =
     (if network_id_byte env = 0 then True else env_flag env ''IRIUM_POAWX_ANTI_DOMINATION_REQUIRED'')"

definition anti_domination_active :: "environ \<Rightarrow> u64 \<Rightarrow> bool" where
  "anti_domination_active env height =
     anti_domination_gate (network_id_byte env) (anti_domination_activation_height env) height"

definition anti_domination_enforced :: "environ \<Rightarrow> u64 \<Rightarrow> bool" where
  "anti_domination_enforced env height =
     anti_domination_enforced_gate (network_id_byte env) (anti_domination_activation_height env) (anti_domination_required env) height"

subsection \<open>Candidate set (\<open>src/src/poawx_candidate.rs\<close>)\<close>

definition candidate_set_activation_height :: "environ \<Rightarrow> u64 option" where
  "candidate_set_activation_height env =
     env_height env ''IRIUM_POAWX_CANDIDATE_SET_ACTIVATION_HEIGHT''"

definition poawx_phase21d_gate :: "u8 \<Rightarrow> u64 option \<Rightarrow> u64 \<Rightarrow> bool" where
  "poawx_phase21d_gate network_id activation height =
     reached (poawx_effective_activation network_id activation) height"

definition poawx_phase21d_enforced_gate :: "u8 \<Rightarrow> u64 option \<Rightarrow> bool \<Rightarrow> u64 \<Rightarrow> bool" where
  "poawx_phase21d_enforced_gate network_id activation required height \<longleftrightarrow>
     poawx_phase21d_gate network_id activation height \<and> required"

definition candidate_set_required :: "environ \<Rightarrow> bool" where
  "candidate_set_required env =
     (if network_id_byte env = 0 then True else env_flag env ''IRIUM_POAWX_CANDIDATE_SET_REQUIRED'')"

definition candidate_set_active :: "environ \<Rightarrow> u64 \<Rightarrow> bool" where
  "candidate_set_active env height =
     poawx_phase21d_gate (network_id_byte env) (candidate_set_activation_height env) height"

definition candidate_set_enforced :: "environ \<Rightarrow> u64 \<Rightarrow> bool" where
  "candidate_set_enforced env height =
     poawx_phase21d_enforced_gate (network_id_byte env) (candidate_set_activation_height env) (candidate_set_required env) height"

subsection \<open>Assignment proof (\<open>src/src/poawx_candidate.rs\<close>)\<close>

definition assignment_proof_activation_height :: "environ \<Rightarrow> u64 option" where
  "assignment_proof_activation_height env =
     env_height env ''IRIUM_POAWX_ASSIGNMENT_PROOF_ACTIVATION_HEIGHT''"

definition assignment_proof_required :: "environ \<Rightarrow> bool" where
  "assignment_proof_required env =
     (if network_id_byte env = 0 then True else env_flag env ''IRIUM_POAWX_ASSIGNMENT_PROOF_REQUIRED'')"

definition assignment_proof_active :: "environ \<Rightarrow> u64 \<Rightarrow> bool" where
  "assignment_proof_active env height =
     poawx_phase21d_gate (network_id_byte env) (assignment_proof_activation_height env) height"

definition assignment_proof_enforced :: "environ \<Rightarrow> u64 \<Rightarrow> bool" where
  "assignment_proof_enforced env height =
     poawx_phase21d_enforced_gate (network_id_byte env) (assignment_proof_activation_height env) (assignment_proof_required env) height"

subsection \<open>True vrf (\<open>src/src/poawx_candidate.rs\<close>)\<close>

definition true_vrf_activation_height :: "environ \<Rightarrow> u64 option" where
  "true_vrf_activation_height env =
     env_height env ''IRIUM_POAWX_TRUE_VRF_ACTIVATION_HEIGHT''"

definition true_vrf_required :: "environ \<Rightarrow> bool" where
  "true_vrf_required env =
     (if network_id_byte env = 0 then True else env_flag env ''IRIUM_POAWX_TRUE_VRF_REQUIRED'')"

definition true_vrf_active :: "environ \<Rightarrow> u64 \<Rightarrow> bool" where
  "true_vrf_active env height =
     poawx_phase21d_gate (network_id_byte env) (true_vrf_activation_height env) height"

definition true_vrf_enforced :: "environ \<Rightarrow> u64 \<Rightarrow> bool" where
  "true_vrf_enforced env height =
     poawx_phase21d_enforced_gate (network_id_byte env) (true_vrf_activation_height env) (true_vrf_required env) height"

subsection \<open>Candidate admission (\<open>src/src/poawx_admission.rs\<close>)\<close>

definition candidate_admission_activation_height :: "environ \<Rightarrow> u64 option" where
  "candidate_admission_activation_height env =
     env_height env ''IRIUM_POAWX_CANDIDATE_ADMISSION_ACTIVATION_HEIGHT''"

definition candidate_admission_gate :: "u8 \<Rightarrow> u64 option \<Rightarrow> u64 \<Rightarrow> bool" where
  "candidate_admission_gate network_id activation height =
     reached (poawx_effective_activation network_id activation) height"

definition candidate_admission_enforced_gate :: "u8 \<Rightarrow> u64 option \<Rightarrow> bool \<Rightarrow> u64 \<Rightarrow> bool" where
  "candidate_admission_enforced_gate network_id activation required height \<longleftrightarrow>
     candidate_admission_gate network_id activation height \<and> required"

definition candidate_admission_required :: "environ \<Rightarrow> bool" where
  "candidate_admission_required env =
     (if network_id_byte env = 0 then True else env_flag env ''IRIUM_POAWX_CANDIDATE_ADMISSION_REQUIRED'')"

definition candidate_admission_active :: "environ \<Rightarrow> u64 \<Rightarrow> bool" where
  "candidate_admission_active env height =
     candidate_admission_gate (network_id_byte env) (candidate_admission_activation_height env) height"

definition candidate_admission_enforced :: "environ \<Rightarrow> u64 \<Rightarrow> bool" where
  "candidate_admission_enforced env height =
     candidate_admission_enforced_gate (network_id_byte env) (candidate_admission_activation_height env) (candidate_admission_required env) height"

subsection \<open>Puzzle work (\<open>src/src/poawx_puzzle.rs\<close>)\<close>

definition puzzle_work_activation_height :: "environ \<Rightarrow> u64 option" where
  "puzzle_work_activation_height env =
     env_height env ''IRIUM_POAWX_PUZZLE_WORK_ACTIVATION_HEIGHT''"

definition puzzle_work_gate :: "u8 \<Rightarrow> u64 option \<Rightarrow> u64 \<Rightarrow> bool" where
  "puzzle_work_gate network_id activation height =
     reached (poawx_effective_activation network_id activation) height"

definition puzzle_work_enforced_gate :: "u8 \<Rightarrow> u64 option \<Rightarrow> bool \<Rightarrow> u64 \<Rightarrow> bool" where
  "puzzle_work_enforced_gate network_id activation required height \<longleftrightarrow>
     puzzle_work_gate network_id activation height \<and> required"

definition puzzle_work_required :: "environ \<Rightarrow> bool" where
  "puzzle_work_required env =
     (if network_id_byte env = 0 then True else env_flag env ''IRIUM_POAWX_PUZZLE_WORK_REQUIRED'')"

definition puzzle_work_active :: "environ \<Rightarrow> u64 \<Rightarrow> bool" where
  "puzzle_work_active env height =
     puzzle_work_gate (network_id_byte env) (puzzle_work_activation_height env) height"

definition puzzle_work_enforced :: "environ \<Rightarrow> u64 \<Rightarrow> bool" where
  "puzzle_work_enforced env height =
     puzzle_work_enforced_gate (network_id_byte env) (puzzle_work_activation_height env) (puzzle_work_required env) height"

subsection \<open>Finality committee (\<open>src/src/poawx_finality.rs\<close>)\<close>

definition finality_committee_activation_height :: "environ \<Rightarrow> u64 option" where
  "finality_committee_activation_height env =
     env_height env ''IRIUM_POAWX_FINALITY_COMMITTEE_ACTIVATION_HEIGHT''"

definition finality_committee_gate :: "u8 \<Rightarrow> u64 option \<Rightarrow> u64 \<Rightarrow> bool" where
  "finality_committee_gate network_id activation height =
     reached (poawx_effective_activation network_id activation) height"

definition finality_committee_enforced_gate :: "u8 \<Rightarrow> u64 option \<Rightarrow> bool \<Rightarrow> u64 \<Rightarrow> bool" where
  "finality_committee_enforced_gate network_id activation required height \<longleftrightarrow>
     finality_committee_gate network_id activation height \<and> required"

definition finality_committee_required :: "environ \<Rightarrow> bool" where
  "finality_committee_required env =
     (if network_id_byte env = 0 then True else env_flag env ''IRIUM_POAWX_FINALITY_COMMITTEE_REQUIRED'')"

definition finality_committee_active :: "environ \<Rightarrow> u64 \<Rightarrow> bool" where
  "finality_committee_active env height =
     finality_committee_gate (network_id_byte env) (finality_committee_activation_height env) height"

definition finality_committee_enforced :: "environ \<Rightarrow> u64 \<Rightarrow> bool" where
  "finality_committee_enforced env height =
     finality_committee_enforced_gate (network_id_byte env) (finality_committee_activation_height env) (finality_committee_required env) height"

subsection \<open>Finality gossip (\<open>src/src/poawx_finality.rs\<close>)\<close>

definition finality_gossip_activation_height :: "environ \<Rightarrow> u64 option" where
  "finality_gossip_activation_height env =
     env_height env ''IRIUM_POAWX_FINALITY_GOSSIP_ACTIVATION_HEIGHT''"

definition finality_gossip_gate :: "u8 \<Rightarrow> u64 option \<Rightarrow> u64 \<Rightarrow> bool" where
  "finality_gossip_gate network_id activation height =
     reached (poawx_effective_activation network_id activation) height"

definition finality_gossip_enforced_gate :: "u8 \<Rightarrow> u64 option \<Rightarrow> bool \<Rightarrow> u64 \<Rightarrow> bool" where
  "finality_gossip_enforced_gate network_id activation required height \<longleftrightarrow>
     finality_gossip_gate network_id activation height \<and> required"

definition finality_gossip_required :: "environ \<Rightarrow> bool" where
  "finality_gossip_required env = env_flag env ''IRIUM_POAWX_FINALITY_GOSSIP_REQUIRED''"

definition finality_gossip_active :: "environ \<Rightarrow> u64 \<Rightarrow> bool" where
  "finality_gossip_active env height =
     finality_gossip_gate (network_id_byte env) (finality_gossip_activation_height env) height"

definition finality_gossip_enforced :: "environ \<Rightarrow> u64 \<Rightarrow> bool" where
  "finality_gossip_enforced env height =
     finality_gossip_enforced_gate (network_id_byte env) (finality_gossip_activation_height env) (finality_gossip_required env) height"

subsection \<open>Committed admission (\<open>src/src/poawx_committed_admission.rs\<close>)\<close>

definition committed_admission_activation_height :: "environ \<Rightarrow> u64 option" where
  "committed_admission_activation_height env =
     env_height env ''IRIUM_POAWX_COMMITTED_ADMISSION_ACTIVATION_HEIGHT''"

definition committed_admission_gate :: "u8 \<Rightarrow> u64 option \<Rightarrow> u64 \<Rightarrow> bool" where
  "committed_admission_gate network_id activation height =
     reached (poawx_effective_activation network_id activation) height"

definition committed_admission_enforced_gate :: "u8 \<Rightarrow> u64 option \<Rightarrow> bool \<Rightarrow> u64 \<Rightarrow> bool" where
  "committed_admission_enforced_gate network_id activation required height \<longleftrightarrow>
     committed_admission_gate network_id activation height \<and> required"

definition committed_admission_required :: "environ \<Rightarrow> bool" where
  "committed_admission_required env =
     (if network_id_byte env = 0 then True else env_flag env ''IRIUM_POAWX_COMMITTED_ADMISSION_REQUIRED'')"

definition committed_admission_active :: "environ \<Rightarrow> u64 \<Rightarrow> bool" where
  "committed_admission_active env height =
     committed_admission_gate (network_id_byte env) (committed_admission_activation_height env) height"

definition committed_admission_enforced :: "environ \<Rightarrow> u64 \<Rightarrow> bool" where
  "committed_admission_enforced env height =
     committed_admission_enforced_gate (network_id_byte env) (committed_admission_activation_height env) (committed_admission_required env) height"

subsection \<open>Fraud proof (\<open>src/src/poawx_challenge.rs\<close>)\<close>

definition fraud_proof_activation_height :: "environ \<Rightarrow> u64 option" where
  "fraud_proof_activation_height env =
     env_height env ''IRIUM_POAWX_FRAUD_PROOF_ACTIVATION_HEIGHT''"

definition fraud_proof_gate :: "u8 \<Rightarrow> u64 option \<Rightarrow> u64 \<Rightarrow> bool" where
  "fraud_proof_gate network_id activation height =
     reached (poawx_effective_activation network_id activation) height"

definition fraud_proof_enforced_gate :: "u8 \<Rightarrow> u64 option \<Rightarrow> bool \<Rightarrow> u64 \<Rightarrow> bool" where
  "fraud_proof_enforced_gate network_id activation required height \<longleftrightarrow>
     fraud_proof_gate network_id activation height \<and> required"

definition fraud_proof_required :: "environ \<Rightarrow> bool" where
  "fraud_proof_required env =
     (if network_id_byte env = 0 then True else env_flag env ''IRIUM_POAWX_FRAUD_PROOF_REQUIRED'')"

definition fraud_proof_active :: "environ \<Rightarrow> u64 \<Rightarrow> bool" where
  "fraud_proof_active env height =
     fraud_proof_gate (network_id_byte env) (fraud_proof_activation_height env) height"

definition fraud_proof_enforced :: "environ \<Rightarrow> u64 \<Rightarrow> bool" where
  "fraud_proof_enforced env height =
     fraud_proof_enforced_gate (network_id_byte env) (fraud_proof_activation_height env) (fraud_proof_required env) height"

subsection \<open>Penalty state (\<open>src/src/poawx_penalty.rs\<close>)\<close>

definition penalty_state_activation_height :: "environ \<Rightarrow> u64 option" where
  "penalty_state_activation_height env =
     env_height env ''IRIUM_POAWX_PENALTY_STATE_ACTIVATION_HEIGHT''"

definition penalty_gate :: "u8 \<Rightarrow> u64 option \<Rightarrow> u64 \<Rightarrow> bool" where
  "penalty_gate network_id activation height =
     reached (poawx_effective_activation network_id activation) height"

definition penalty_state_required :: "environ \<Rightarrow> bool" where
  "penalty_state_required env =
     (if network_id_byte env = 0 then True else env_flag env ''IRIUM_POAWX_PENALTY_STATE_REQUIRED'')"

definition penalty_state_active :: "environ \<Rightarrow> u64 \<Rightarrow> bool" where
  "penalty_state_active env height =
     penalty_gate (network_id_byte env) (penalty_state_activation_height env) height"

definition penalty_state_enforced :: "environ \<Rightarrow> u64 \<Rightarrow> bool" where
  "penalty_state_enforced env height \<longleftrightarrow> penalty_state_active env height \<and> penalty_state_required env"

subsection \<open>Tickets (\<open>src/src/poawx_ticket.rs\<close>)\<close>

definition tickets_activation_height :: "environ \<Rightarrow> u64 option" where
  "tickets_activation_height env =
     env_height env ''IRIUM_POAWX_TICKETS_ACTIVATION_HEIGHT''"

definition tickets_gate :: "u8 \<Rightarrow> u64 option \<Rightarrow> u64 \<Rightarrow> bool" where
  "tickets_gate network_id activation height =
     reached (poawx_effective_activation network_id activation) height"

definition tickets_required :: "environ \<Rightarrow> bool" where
  "tickets_required env =
     (if network_id_byte env = 0 then True else env_flag env ''IRIUM_POAWX_TICKETS_REQUIRED'')"

definition tickets_active :: "environ \<Rightarrow> u64 \<Rightarrow> bool" where
  "tickets_active env height =
     tickets_gate (network_id_byte env) (tickets_activation_height env) height"

definition tickets_enforced :: "environ \<Rightarrow> u64 \<Rightarrow> bool" where
  "tickets_enforced env height \<longleftrightarrow> tickets_active env height \<and> tickets_required env"

subsection \<open>Proposer vrf (\<open>src/src/poawx_proposer.rs\<close>)\<close>

definition proposer_vrf_activation_height :: "environ \<Rightarrow> u64 option" where
  "proposer_vrf_activation_height env =
     env_height env ''IRIUM_POAWX_PROPOSER_VRF_ACTIVATION_HEIGHT''"

definition proposer_vrf_gate :: "u8 \<Rightarrow> u64 option \<Rightarrow> u64 \<Rightarrow> bool" where
  "proposer_vrf_gate network_id activation height =
     reached (poawx_effective_activation network_id activation) height"

definition proposer_vrf_required :: "environ \<Rightarrow> bool" where
  "proposer_vrf_required env =
     (if network_id_byte env = 0 then True else env_flag env ''IRIUM_POAWX_PROPOSER_VRF_REQUIRED'')"

definition proposer_vrf_active :: "environ \<Rightarrow> u64 \<Rightarrow> bool" where
  "proposer_vrf_active env height =
     proposer_vrf_gate (network_id_byte env) (proposer_vrf_activation_height env) height"

definition proposer_vrf_enforced :: "environ \<Rightarrow> u64 \<Rightarrow> bool" where
  "proposer_vrf_enforced env height \<longleftrightarrow> proposer_vrf_active env height \<and> proposer_vrf_required env"

subsection \<open>Adaptive mode (\<open>src/src/poawx_adaptive.rs\<close>)\<close>

definition adaptive_mode_activation_height :: "environ \<Rightarrow> u64 option" where
  "adaptive_mode_activation_height env =
     env_height env ''IRIUM_POAWX_ADAPTIVE_MODE_ACTIVATION_HEIGHT''"

definition adaptive_mode_gate :: "u8 \<Rightarrow> u64 option \<Rightarrow> u64 \<Rightarrow> bool" where
  "adaptive_mode_gate network_id activation height =
     reached (poawx_effective_activation network_id activation) height"

definition adaptive_mode_active :: "environ \<Rightarrow> u64 \<Rightarrow> bool" where
  "adaptive_mode_active env height =
     adaptive_mode_gate (network_id_byte env) (adaptive_mode_activation_height env) height"

subsection \<open>Multisource seed (\<open>src/src/poawx_committed_admission.rs\<close>)\<close>

definition multisource_seed_activation_height :: "environ \<Rightarrow> u64 option" where
  "multisource_seed_activation_height env =
     env_height env ''IRIUM_POAWX_MULTISOURCE_SEED_ACTIVATION_HEIGHT''"

definition multisource_seed_gate :: "u8 \<Rightarrow> u64 option \<Rightarrow> u64 \<Rightarrow> bool" where
  "multisource_seed_gate network_id activation height =
     reached (poawx_effective_activation network_id activation) height"

definition multisource_seed_active :: "environ \<Rightarrow> u64 \<Rightarrow> bool" where
  "multisource_seed_active env height =
     multisource_seed_gate (network_id_byte env) (multisource_seed_activation_height env) height"

subsection \<open>Fork choice hardening (\<open>src/src/poawx_proposer.rs\<close>)\<close>

definition fork_choice_hardening_activation_height :: "environ \<Rightarrow> u64 option" where
  "fork_choice_hardening_activation_height env =
     env_height env ''IRIUM_POAWX_FORKCHOICE_HARDENING_ACTIVATION_HEIGHT''"

definition fork_choice_hardening_gate :: "u8 \<Rightarrow> u64 option \<Rightarrow> u64 \<Rightarrow> bool" where
  "fork_choice_hardening_gate network_id activation height =
     reached (poawx_effective_activation network_id activation) height"

definition fork_choice_hardening_active :: "environ \<Rightarrow> u64 \<Rightarrow> bool" where
  "fork_choice_hardening_active env height =
     fork_choice_hardening_gate (network_id_byte env) (fork_choice_hardening_activation_height env) height"

subsection \<open>Audit hardening (\<open>src/src/poawx_proposer.rs\<close>)\<close>

definition audit_hardening_activation_height :: "environ \<Rightarrow> u64 option" where
  "audit_hardening_activation_height env =
     env_height env ''IRIUM_POAWX_AUDIT_HARDENING_ACTIVATION_HEIGHT''"

definition audit_hardening_gate :: "u8 \<Rightarrow> u64 option \<Rightarrow> u64 \<Rightarrow> bool" where
  "audit_hardening_gate network_id activation height =
     reached (poawx_effective_activation network_id activation) height"

definition audit_hardening_active :: "environ \<Rightarrow> u64 \<Rightarrow> bool" where
  "audit_hardening_active env height =
     audit_hardening_gate (network_id_byte env) (audit_hardening_activation_height env) height"

subsection \<open>Proposer registration (\<open>src/src/poawx_proposer.rs\<close>)\<close>

definition proposer_registration_activation_height :: "environ \<Rightarrow> u64 option" where
  "proposer_registration_activation_height env =
     env_height env ''IRIUM_POAWX_PROPOSER_REGISTRATION_ACTIVATION_HEIGHT''"

definition proposer_registration_gate :: "bool \<Rightarrow> u64 option \<Rightarrow> u64 \<Rightarrow> bool" where
  "proposer_registration_gate vrf_active activation height \<longleftrightarrow> vrf_active \<and> reached activation height"

definition proposer_registration_active :: "environ \<Rightarrow> u64 \<Rightarrow> bool" where
  "proposer_registration_active env height =
     proposer_registration_gate (proposer_vrf_active env height)
       (poawx_effective_activation (network_id_byte env) (proposer_registration_activation_height env)) height"

definition registration_anchor_valid :: "u64 \<Rightarrow> u64 \<Rightarrow> u64 \<Rightarrow> bool" where
  "registration_anchor_valid anchor_height height window \<longleftrightarrow>
     anchor_height < height \<and> \<not> (height > window \<and> anchor_height < height - window)"

subsection \<open>Fork choice bounds\<close>

abbreviation (input) MAX_REORG_DEPTH_HARD_FLOOR :: u64 where "MAX_REORG_DEPTH_HARD_FLOOR \<equiv> 10"

definition max_reorg_depth :: "environ \<Rightarrow> u64" where
  "max_reorg_depth env =
     (let default = if network_id_byte env = 0 then 1000 else 100
      in max (case env_height env ''IRIUM_POAWX_MAX_REORG_DEPTH'' of Some v \<Rightarrow> v | None \<Rightarrow> default)
           MAX_REORG_DEPTH_HARD_FLOOR)"

definition min_finality_committee :: "environ \<Rightarrow> u64" where
  "min_finality_committee env =
     (let default = if network_id_byte env = 0 then 16 else 4
      in max (case env_height env ''IRIUM_POAWX_MIN_FINALITY_COMMITTEE'' of Some v \<Rightarrow> v | None \<Rightarrow> default) 1)"

definition finality_threshold_values :: "u16 option \<Rightarrow> u16 option \<Rightarrow> u16 \<times> u16" where
  "finality_threshold_values num den =
     ((case num of Some n \<Rightarrow> if n \<ge> 1 then n else 2 | None \<Rightarrow> 2),
      (case den of Some d \<Rightarrow> if d \<ge> 1 then d else 3 | None \<Rightarrow> 3))"

definition finality_threshold :: "environ \<Rightarrow> u16 \<times> u16" where
  "finality_threshold env =
     finality_threshold_values
       (Option.bind (env ''IRIUM_POAWX_FINALITY_THRESHOLD_NUM'') (\<lambda>v. parse_u16 (trim v)))
       (Option.bind (env ''IRIUM_POAWX_FINALITY_THRESHOLD_DEN'') (\<lambda>v. parse_u16 (trim v)))"

section \<open>What the gates amount to\<close>

lemmas gate_defs =
    anti_domination_active_def candidate_set_active_def assignment_proof_active_def
    true_vrf_active_def candidate_admission_active_def puzzle_work_active_def
    finality_committee_active_def finality_gossip_active_def committed_admission_active_def
    fraud_proof_active_def penalty_state_active_def tickets_active_def proposer_vrf_active_def
    adaptive_mode_active_def multisource_seed_active_def fork_choice_hardening_active_def
    audit_hardening_active_def anti_domination_enforced_def candidate_set_enforced_def
    assignment_proof_enforced_def true_vrf_enforced_def candidate_admission_enforced_def
    puzzle_work_enforced_def finality_committee_enforced_def committed_admission_enforced_def
    fraud_proof_enforced_def penalty_state_enforced_def tickets_enforced_def
    proposer_vrf_enforced_def adaptive_mode_gate_def anti_domination_enforced_gate_def
    anti_domination_gate_def audit_hardening_gate_def candidate_admission_enforced_gate_def
    candidate_admission_gate_def committed_admission_enforced_gate_def
    committed_admission_gate_def finality_committee_enforced_gate_def
    finality_committee_gate_def finality_gossip_enforced_gate_def finality_gossip_gate_def
    fork_choice_hardening_gate_def fraud_proof_enforced_gate_def fraud_proof_gate_def
    multisource_seed_gate_def penalty_gate_def poawx_phase21d_enforced_gate_def
    poawx_phase21d_gate_def proposer_vrf_gate_def puzzle_work_enforced_gate_def
    puzzle_work_gate_def tickets_gate_def anti_domination_required_def
    candidate_set_required_def assignment_proof_required_def true_vrf_required_def
    candidate_admission_required_def puzzle_work_required_def finality_committee_required_def
    committed_admission_required_def fraud_proof_required_def penalty_state_required_def
    tickets_required_def proposer_vrf_required_def proposer_registration_active_def
    proposer_registration_gate_def

text \<open>
  C27. On mainnet every PoAW-X gate opens at the compiled-in height 50,000 and at no other height,
  whatever the environment: the features are neither disabled there for good nor switchable by a
  node's operator. Three limits of fork choice and finality are the exception, and differ between
  mainnet nodes with different environments: the deepest reorganisation a node accepts, the smallest
  committee that can finalise a block, and the finality threshold.
\<close>

theorem mainnet_poawx_gates:
  assumes "network_kind_from_env env = Mainnet"
  shows "(\<forall>gate \<in> {anti_domination_active, candidate_set_active, assignment_proof_active, true_vrf_active,
      candidate_admission_active, puzzle_work_active, finality_committee_active,
      finality_gossip_active, committed_admission_active, fraud_proof_active,
      penalty_state_active, tickets_active, proposer_vrf_active, adaptive_mode_active,
      multisource_seed_active, fork_choice_hardening_active, audit_hardening_active,
      anti_domination_enforced, candidate_set_enforced, assignment_proof_enforced,
      true_vrf_enforced, candidate_admission_enforced, puzzle_work_enforced,
      finality_committee_enforced, committed_admission_enforced, fraud_proof_enforced,
      penalty_state_enforced, tickets_enforced, proposer_vrf_enforced,
      proposer_registration_active}. \<forall>h. gate env h \<longleftrightarrow> 50000 \<le> h) \<and>
    max_reorg_depth (env(''IRIUM_POAWX_MAX_REORG_DEPTH'' := None)) = 1000 \<and>
    max_reorg_depth (env(''IRIUM_POAWX_MAX_REORG_DEPTH'' \<mapsto> ''5000'')) = 5000 \<and>
    min_finality_committee (env(''IRIUM_POAWX_MIN_FINALITY_COMMITTEE'' := None)) = 16 \<and>
    min_finality_committee (env(''IRIUM_POAWX_MIN_FINALITY_COMMITTEE'' \<mapsto> ''0'')) = 1 \<and>
    finality_threshold (env(''IRIUM_POAWX_FINALITY_THRESHOLD_NUM'' \<mapsto> ''1'')) \<noteq>
      finality_threshold (env(''IRIUM_POAWX_FINALITY_THRESHOLD_NUM'' := None))"
proof (intro conjI)
  have n: "network_id_byte env = 0" using assms by (simp add: network_id_byte_def)
  show "\<forall>gate \<in> {anti_domination_active, candidate_set_active, assignment_proof_active, true_vrf_active,
      candidate_admission_active, puzzle_work_active, finality_committee_active,
      finality_gossip_active, committed_admission_active, fraud_proof_active,
      penalty_state_active, tickets_active, proposer_vrf_active, adaptive_mode_active,
      multisource_seed_active, fork_choice_hardening_active, audit_hardening_active,
      anti_domination_enforced, candidate_set_enforced, assignment_proof_enforced,
      true_vrf_enforced, candidate_admission_enforced, puzzle_work_enforced,
      finality_committee_enforced, committed_admission_enforced, fraud_proof_enforced,
      penalty_state_enforced, tickets_enforced, proposer_vrf_enforced,
      proposer_registration_active}. \<forall>h. gate env h \<longleftrightarrow> 50000 \<le> h"
    by (simp add: gate_defs n poawx_effective_activation_def reached_def)
  have same: "network_kind_from_env (env(''IRIUM_POAWX_MAX_REORG_DEPTH'' := v)) = Mainnet"
    "network_kind_from_env (env(''IRIUM_POAWX_MIN_FINALITY_COMMITTEE'' := v)) = Mainnet" for v
    using assms by (simp_all add: network_kind_from_env_def)
  have p: "parse_u64 (trim ''5000'') = Some 5000" "parse_u64 (trim ''0'') = Some 0" by code_simp+
  show "max_reorg_depth (env(''IRIUM_POAWX_MAX_REORG_DEPTH'' := None)) = 1000"
    "max_reorg_depth (env(''IRIUM_POAWX_MAX_REORG_DEPTH'' \<mapsto> ''5000'')) = 5000"
    "min_finality_committee (env(''IRIUM_POAWX_MIN_FINALITY_COMMITTEE'' := None)) = 16"
    "min_finality_committee (env(''IRIUM_POAWX_MIN_FINALITY_COMMITTEE'' \<mapsto> ''0'')) = 1"
    by (simp_all add: max_reorg_depth_def min_finality_committee_def network_id_byte_def same env_height_def p)
  have "parse_u16 (trim ''1'') = Some 1" by code_simp
  then show "finality_threshold (env(''IRIUM_POAWX_FINALITY_THRESHOLD_NUM'' \<mapsto> ''1'')) \<noteq>
      finality_threshold (env(''IRIUM_POAWX_FINALITY_THRESHOLD_NUM'' := None))"
    by (simp add: finality_threshold_def finality_threshold_values_def)
qed

theorem mainnet_poawx_gates_witness:
  "fork_choice_hardening_active [''IRIUM_POAWX_FORKCHOICE_HARDENING_ACTIVATION_HEIGHT'' \<mapsto> ''1''] 50000 \<and>
   \<not> proposer_vrf_enforced [''IRIUM_POAWX_PROPOSER_VRF_ACTIVATION_HEIGHT'' \<mapsto> ''1''] 49999"
proof -
  have n: "network_kind_from_env [''IRIUM_POAWX_FORKCHOICE_HARDENING_ACTIVATION_HEIGHT'' \<mapsto> ''1''] = Mainnet"
    "network_kind_from_env [''IRIUM_POAWX_PROPOSER_VRF_ACTIVATION_HEIGHT'' \<mapsto> ''1''] = Mainnet"
    by (simp_all add: network_kind_from_env_def)
  show ?thesis using mainnet_poawx_gates [OF n(1)] mainnet_poawx_gates [OF n(2)] by simp
qed

end
