(* ===== verification/Ledger.thy ===== *)
theory Ledger
  imports Difficulty Verify Gates "HOL-Library.AList"
begin

text \<open>
  The chain state and the ledger (\<open>src/src/chain.rs\<close>): unspent outputs, the checks of a transaction
  against them, and the application of a block's transactions with its undo record. What the node
  takes from its surroundings (environment, cryptographic packages, the process-wide header
  activation height) is the record \<open>node\<close>. The state of the PoAW-X subsystem is a type variable.
  A hash map that is iterated is an association list whose order stands for the map's arbitrary
  order; the other maps are functions. A method on \<open>&mut self\<close> returns its result and the state.
\<close>

unbundle bit_operations_syntax

section \<open>State\<close>

record node =
  nd_env :: environ
  nd_crypto :: crypto
  nd_kdf :: scrypt_kdf
  nd_hex :: "bytes \<Rightarrow> string"
  nd_header_activation :: u64

abbreviation nd_sha :: "node \<Rightarrow> bytes \<Rightarrow> bytes" where
  "nd_sha nd \<equiv> cr_sha (nd_crypto nd)"

record OutPoint =
  op_txid :: bytes
  op_index :: u32

record UtxoEntry =
  ut_output :: TxOutput
  ut_height :: u64
  ut_is_coinbase :: bool

record BlockUndo =
  un_spent :: "(OutPoint \<times> UtxoEntry) list"
  un_created :: "OutPoint list"
  un_subsidy_created :: u64
  un_btc_relay_update :: "BtcRelayUpdate option"
  un_ltc_relay_update :: "LtcRelayUpdate option"
  un_claimed_btc_added :: "ext_outpoint list"
  un_claimed_ltc_added :: "ext_outpoint list"

record HeaderWork =
  hw_header :: BlockHeader
  hw_height :: u64
  hw_work :: nat

record AnchorHeader =
  ah_height :: u64
  ah_hash :: string

record ('r, 'p) ChainState =
  ch_params :: "'r ChainParams"
  ch_height :: u64
  ch_chain :: "'r Block list"
  ch_total_work :: nat
  ch_utxos :: "OutPoint \<rightharpoonup> UtxoEntry"
  ch_issued :: u64
  ch_headers :: "(bytes \<times> HeaderWork) list"
  ch_header_chain :: "bytes list"
  ch_orphan_pool :: "(bytes \<times> 'r Block list) list"
  ch_block_store :: "bytes \<rightharpoonup> 'r Block"
  ch_heights :: "bytes \<rightharpoonup> u64"
  ch_cumulative_work :: "bytes \<rightharpoonup> nat"
  ch_anchors :: "AnchorHeader list option"
  ch_best_tip :: bytes
  ch_undo_logs :: "bytes \<rightharpoonup> BlockUndo"
  ch_btc :: BtcRelay
  ch_claimed_btc :: "ext_outpoint set"
  ch_ltc :: LtcRelay
  ch_claimed_ltc :: "ext_outpoint set"
  ch_reorg_orphaned_blocks :: "'r Block list"
  ch_poawx :: 'p
  ch_reorg_signal :: u32
  ch_finalized_height :: u64

section \<open>Rules in force at a height\<close>

definition btc_spv_relay_active_at :: "'r ChainParams \<Rightarrow> u64 \<Rightarrow> bool" where
  "btc_spv_relay_active_at params height = reached (map_option bp_activation_height (btc_spv params)) height"

definition ltc_spv_relay_active_at :: "'r ChainParams \<Rightarrow> u64 \<Rightarrow> bool" where
  "ltc_spv_relay_active_at params height = reached (map_option lp_activation_height (ltc_spv params)) height"

definition coinbase_header_batch_active_at :: "'r ChainParams \<Rightarrow> u64 \<Rightarrow> bool" where
  "coinbase_header_batch_active_at params height =
     reached (coinbase_header_batch_activation_height params) height"

definition btc_anchor :: "'r ChainParams \<Rightarrow> BtcAnchor" where
  "btc_anchor params = (case btc_spv params of Some p \<Rightarrow> bp_anchor p | None \<Rightarrow> btc_anchor_zero)"

definition ltc_anchor :: "'r ChainParams \<Rightarrow> LtcAnchor" where
  "ltc_anchor params = (case ltc_spv params of Some p \<Rightarrow> lp_anchor p | None \<Rightarrow> ltc_anchor_zero)"

definition ltc_retarget_params :: "'r ChainParams \<Rightarrow> RetargetParams" where
  "ltc_retarget_params params = (case ltc_spv params of Some p \<Rightarrow> lp_retarget p | None \<Rightarrow> LITECOIN)"

text \<open>The flags every caller computes with the \<open>*_active_at\<close> methods and passes on.\<close>

definition gates_at :: "'r ChainParams \<Rightarrow> u64 \<Rightarrow> gates" where
  "gates_at params height =
     \<lparr>g_htlcv1 = reached (htlcv1_activation_height params) height,
      g_mpsov1 = reached (mpsov1_activation_height params) height,
      g_btc_relay = btc_spv_relay_active_at params height,
      g_ltc_relay = ltc_spv_relay_active_at params height,
      g_htlc_btc_swap = reached (htlc_btc_swap_v1_activation_height params) height,
      g_btc_bech32 = reached (btc_swap_bech32_payment_activation_height params) height,
      g_htlc_ltc_swap = reached (htlc_ltc_swap_v1_activation_height params) height,
      g_swap_order = reached (swap_order_v1_activation_height params) height,
      g_ltc_swap_order = reached (ltc_swap_order_v1_activation_height params) height\<rparr>"

definition build_consensus_view :: "('r, 'p) ChainState \<Rightarrow> ConsensusView" where
  "build_consensus_view s =
     \<lparr>cv_btc_headers = rl_headers (ch_btc s), cv_btc_heights = rl_heights (ch_btc s),
      cv_btc_tip_height = rl_tip_height (ch_btc s), cv_claimed_btc = ch_claimed_btc s,
      cv_ltc_headers = rl_headers (ch_ltc s), cv_ltc_heights = rl_heights (ch_ltc s),
      cv_ltc_tip_height = rl_tip_height (ch_ltc s), cv_claimed_ltc = ch_claimed_ltc s\<rparr>"

section \<open>Checking a transaction\<close>

text \<open>
  The running totals of a block: the inputs seen so far, the fees (an \<open>i64\<close>, kept as the 64-bit word
  that \<open>sint\<close> reads) and the outpoints of other chains consumed by swap claims.
\<close>

record totals =
  tt_seen :: "OutPoint list"
  tt_fees :: u64
  tt_consumed :: consumed

definition no_totals :: totals where
  "no_totals = \<lparr>tt_seen = [], tt_fees = 0, tt_consumed = \<lparr>cs_btc = [], cs_ltc = []\<rparr>\<rparr>"

definition validate_input ::
  "node \<Rightarrow> ('r, 'p) ChainState \<Rightarrow> Transaction \<Rightarrow> u64 \<Rightarrow> nat \<times> TxInput \<Rightarrow> totals \<times> u64 \<Rightarrow> err + totals \<times> u64" where
  "validate_input nd s tx height = (\<lambda>(input_index, txin) (tt, input_total).
     bindE (ensure (length (prev_txid txin) = 32) (Err ''Transaction input has invalid txid length'')) (\<lambda>_.
     let key = \<lparr>op_txid = prev_txid txin, op_index = prev_index txin\<rparr> in
     bindE (ensure (key \<notin> set (tt_seen tt)) (Err ''Transaction input double spent within block'')) (\<lambda>_.
     case ch_utxos s key of
       None \<Rightarrow> Inl (Err ''Referenced UTXO is missing'')
     | Some utxo_entry \<Rightarrow>
         bindE (ensure (\<not> (ut_is_coinbase utxo_entry \<and>
                           sat_sub height (ut_height utxo_entry) < coinbase_maturity (nd_env nd)))
                  (Err ''Coinbase UTXO not mature'')) (\<lambda>_.
         bindE (verify_transaction_signature (nd_crypto nd) (gates_at (ch_params s) height) (build_consensus_view s)
                  tx input_index txin (ut_output utxo_entry) height (tt_consumed tt)) (\<lambda>ok.
         case ok of
           None \<Rightarrow> Inl (Err ''Transaction signature verification failed'')
         | Some c \<Rightarrow>
             Inr (tt\<lparr>tt_seen := tt_seen tt @ [key], tt_consumed := c\<rparr>,
                  input_total + out_value (ut_output utxo_entry)))))))"

definition sum_output ::
  "node \<Rightarrow> 'r ChainParams \<Rightarrow> u64 \<Rightarrow> TxOutput \<Rightarrow> u64 \<Rightarrow> err + u64" where
  "sum_output nd params height out output_total =
     bindE (validate_output (nd_crypto nd) (gates_at params height) height out) (\<lambda>_.
     Inr (output_total + out_value out))"

definition validate_transaction_internal ::
  "node \<Rightarrow> ('r, 'p) ChainState \<Rightarrow> Transaction \<Rightarrow> u64 \<Rightarrow> totals \<Rightarrow> err + totals" where
  "validate_transaction_internal nd s tx height tt =
     bindE (foldE (validate_input nd s tx height) (List.enumerate 0 (inputs tx)) (tt, 0)) (\<lambda>(tt, input_total).
     bindE (foldE (sum_output nd (ch_params s) height) (outputs tx) 0) (\<lambda>output_total.
     bindE (ensure (\<not> sint input_total < sint output_total)
              (Err ''Transaction spends more than available inputs'')) (\<lambda>_.
     let fees = tt_fees tt + (input_total - output_total) in
     bindE (ensure (\<not> (sint fees < 0 \<or> fees > MAX_MONEY)) (Err ''Fee accounting overflow'')) (\<lambda>_.
     Inr (tt\<lparr>tt_fees := fees\<rparr>)))))"

definition validate_transaction :: "node \<Rightarrow> ('r, 'p) ChainState \<Rightarrow> Transaction \<Rightarrow> err + unit" where
  "validate_transaction nd s tx =
     bindE (ensure (inputs tx \<noteq> []) (Err ''Transaction must have at least one input'')) (\<lambda>_.
     bindE (ensure (outputs tx \<noteq> []) (Err ''Transaction must have at least one output'')) (\<lambda>_.
     bindE (validate_transaction_internal nd s tx (ch_height s) no_totals) (\<lambda>_. Inr ())))"

definition calculate_fees :: "node \<Rightarrow> ('r, 'p) ChainState \<Rightarrow> Transaction \<Rightarrow> err + u64" where
  "calculate_fees nd s tx =
     bindE (validate_transaction_internal nd s tx (ch_height s) no_totals) (\<lambda>tt. Inr (tt_fees tt))"

section \<open>Applying the transactions of a block\<close>

text \<open>
  The running state of the loops over a block's transactions, next to the chain state itself: the
  totals, the outputs created so far, and the relay update and number of header batches per chain.
\<close>

record apply_st =
  ap_totals :: totals
  ap_created :: "(OutPoint \<times> TxOutput \<times> bool) list"
  ap_btc_update :: "BtcRelayUpdate option"
  ap_btc_count :: nat
  ap_ltc_update :: "LtcRelayUpdate option"
  ap_ltc_count :: nat

definition start_apply :: apply_st where
  "start_apply = \<lparr>ap_totals = no_totals, ap_created = [], ap_btc_update = None, ap_btc_count = 0,
     ap_ltc_update = None, ap_ltc_count = 0\<rparr>"

text \<open>\<open>map_err\<close> with a prefix of the message; a panic is not an error value.\<close>

definition map_err :: "string \<Rightarrow> err + 'a \<Rightarrow> err + 'a" where
  "map_err msg r = (case r of Inl (Err e) \<Rightarrow> Inl (Err (msg @ e)) | _ \<Rightarrow> r)"

definition apply_btc_batch ::
  "node \<Rightarrow> u32 \<Rightarrow> BtcHeader list \<Rightarrow> ('r, 'p) ChainState \<Rightarrow> (err + BtcRelayUpdate) \<times> ('r, 'p) ChainState" where
  "apply_btc_batch nd block_time hs s =
     (case apply_btc_header_batch (nd_sha nd) hs block_time (ch_btc s) (btc_anchor (ch_params s)) of
        Inl e \<Rightarrow> (Inl e, s)
      | Inr (relay, update) \<Rightarrow> (Inr update, s\<lparr>ch_btc := relay\<rparr>))"

definition apply_ltc_batch ::
  "node \<Rightarrow> u32 \<Rightarrow> LtcHeader list \<Rightarrow> ('r, 'p) ChainState \<Rightarrow> (err + LtcRelayUpdate) \<times> ('r, 'p) ChainState" where
  "apply_ltc_batch nd block_time hs s =
     (case apply_ltc_header_batch (nd_kdf nd) (nd_sha nd) hs block_time (ch_ltc s) (ltc_anchor (ch_params s))
             (ltc_retarget_params (ch_params s)) of
        Inl e \<Rightarrow> (Inl e, s)
      | Inr (relay, update) \<Rightarrow> (Inr update, s\<lparr>ch_ltc := relay\<rparr>))"

definition apply_tx_output ::
  "node \<Rightarrow> u64 \<Rightarrow> u32 \<Rightarrow> bytes \<Rightarrow> nat \<times> TxOutput \<Rightarrow> apply_st \<Rightarrow> ('r, 'p) ChainState \<Rightarrow>
     (err + apply_st) \<times> ('r, 'p) ChainState" where
  "apply_tx_output nd height block_time tid = (\<lambda>(index, out) ap s.
     if has_tag (script_pubkey out) BTC_HEADER_BATCH_TAG then
       (if \<not> btc_spv_relay_active_at (ch_params s) height then
          (Inl (Err ''BtcHeaderBatch output before SPV relay activation''), s)
        else if ap_btc_count ap + 1 > 1 then
          (Inl (Err ''block contains more than one BtcHeaderBatch output''), s)
        else
          bindS (liftE (map_err ''BtcHeaderBatch apply parse failed: '' (parse_btc_header_batch (script_pubkey out)))) (\<lambda>hs.
          bindS (apply_btc_batch nd block_time hs) (\<lambda>update.
          liftE (Inr (ap\<lparr>ap_btc_update := Some update, ap_btc_count := ap_btc_count ap + 1\<rparr>)))) s)
     else if has_tag (script_pubkey out) LTC_HEADER_BATCH_TAG then
       (if \<not> ltc_spv_relay_active_at (ch_params s) height then
          (Inl (Err ''LtcHeaderBatch output before SPV relay activation''), s)
        else if ap_ltc_count ap + 1 > 1 then
          (Inl (Err ''block contains more than one LtcHeaderBatch output''), s)
        else
          bindS (liftE (map_err ''LtcHeaderBatch apply parse failed: '' (parse_ltc_header_batch (script_pubkey out)))) (\<lambda>hs.
          bindS (apply_ltc_batch nd block_time hs) (\<lambda>update.
          liftE (Inr (ap\<lparr>ap_ltc_update := Some update, ap_ltc_count := ap_ltc_count ap + 1\<rparr>)))) s)
     else
       (Inr (ap\<lparr>ap_created := ap_created ap @ [(\<lparr>op_txid = tid, op_index = word_of_nat index\<rparr>, out, False)]\<rparr>), s))"

definition apply_tx ::
  "node \<Rightarrow> u64 \<Rightarrow> u32 \<Rightarrow> Transaction \<Rightarrow> apply_st \<Rightarrow> ('r, 'p) ChainState \<Rightarrow>
     (err + apply_st) \<times> ('r, 'p) ChainState" where
  "apply_tx nd height block_time tx ap s =
     bindS (liftE (validate_transaction_internal nd s tx height (ap_totals ap))) (\<lambda>tt.
     foldS (apply_tx_output nd height block_time (txid (nd_sha nd) tx)) (List.enumerate 0 (outputs tx))
       (ap\<lparr>ap_totals := tt\<rparr>)) s"

text \<open>Errors of a coinbase batch that the block survives.\<close>

definition coinbase_carrier_soft_apply_error :: "err \<Rightarrow> bool" where
  "coinbase_carrier_soft_apply_error e =
     (case e of
        Err msg \<Rightarrow> sublist ''first header does not connect to known chain'' msg \<or>
                   sublist ''already known in chain state'' msg
      | _ \<Rightarrow> False)"

abbreviation (input) DOGE_CARRIER_LEGACY_CUTOFF :: u64 where "DOGE_CARRIER_LEGACY_CUTOFF \<equiv> 27880"

record coinbase_st =
  cb_apply :: apply_st
  cb_total :: u64
  cb_btc_count :: nat
  cb_ltc_count :: nat

definition soft_btc_batch ::
  "node \<Rightarrow> u32 \<Rightarrow> bytes \<Rightarrow> apply_st \<Rightarrow> ('r, 'p) ChainState \<Rightarrow> (err + apply_st) \<times> ('r, 'p) ChainState" where
  "soft_btc_batch nd block_time script ap =
     bindS (liftE (map_err ''coinbase BtcHeaderBatch parse failed: '' (parse_btc_header_batch script))) (\<lambda>hs s.
     case apply_btc_batch nd block_time hs s of
       (Inr update, s') \<Rightarrow> (Inr (ap\<lparr>ap_btc_update := Some update\<rparr>), s')
     | (Inl e, s') \<Rightarrow>
         if coinbase_carrier_soft_apply_error e then (Inr ap, s') else (Inl e, s'))"

definition soft_ltc_batch ::
  "node \<Rightarrow> u32 \<Rightarrow> bytes \<Rightarrow> apply_st \<Rightarrow> ('r, 'p) ChainState \<Rightarrow> (err + apply_st) \<times> ('r, 'p) ChainState" where
  "soft_ltc_batch nd block_time script ap =
     bindS (liftE (map_err ''coinbase LtcHeaderBatch parse failed: '' (parse_ltc_header_batch script))) (\<lambda>hs s.
     case apply_ltc_batch nd block_time hs s of
       (Inr update, s') \<Rightarrow> (Inr (ap\<lparr>ap_ltc_update := Some update\<rparr>), s')
     | (Inl e, s') \<Rightarrow>
         if coinbase_carrier_soft_apply_error e then (Inr ap, s') else (Inl e, s'))"

definition apply_coinbase_output ::
  "node \<Rightarrow> u64 \<Rightarrow> u32 \<Rightarrow> TxOutput \<Rightarrow> coinbase_st \<Rightarrow> ('r, 'p) ChainState \<Rightarrow>
     (err + coinbase_st) \<times> ('r, 'p) ChainState" where
  "apply_coinbase_output nd height block_time out cb s =
     (let tag = has_tag (script_pubkey out);
          coinbase_batch_active = coinbase_header_batch_active_at (ch_params s) height
      in if tag BTC_HEADER_BATCH_TAG then
           (if \<not> coinbase_batch_active then (Inl (Err ''BtcHeaderBatch output not allowed in coinbase''), s)
            else if \<not> btc_spv_relay_active_at (ch_params s) height then
              (Inl (Err ''coinbase BtcHeaderBatch before SPV relay activation''), s)
            else if out_value out \<noteq> 0 then
              (Inl (Err ''coinbase BtcHeaderBatch output must have value=0''), s)
            else if cb_btc_count cb + 1 > 1 then
              (Inl (Err ''coinbase contains more than one BtcHeaderBatch output''), s)
            else if ap_btc_update (cb_apply cb) \<noteq> None then
              (Inl (Err ''block contains both coinbase and regular-tx BtcHeaderBatch''), s)
            else
              bindS (soft_btc_batch nd block_time (script_pubkey out) (cb_apply cb)) (\<lambda>ap.
              liftE (Inr (cb\<lparr>cb_apply := ap, cb_btc_count := cb_btc_count cb + 1\<rparr>))) s)
         else if tag LTC_HEADER_BATCH_TAG then
           (if \<not> coinbase_batch_active then (Inl (Err ''LtcHeaderBatch output not allowed in coinbase''), s)
            else if \<not> ltc_spv_relay_active_at (ch_params s) height then
              (Inl (Err ''coinbase LtcHeaderBatch before SPV relay activation''), s)
            else if out_value out \<noteq> 0 then
              (Inl (Err ''coinbase LtcHeaderBatch output must have value=0''), s)
            else if cb_ltc_count cb + 1 > 1 then
              (Inl (Err ''coinbase contains more than one LtcHeaderBatch output''), s)
            else if ap_ltc_update (cb_apply cb) \<noteq> None then
              (Inl (Err ''block contains both coinbase and regular-tx LtcHeaderBatch''), s)
            else
              bindS (soft_ltc_batch nd block_time (script_pubkey out) (cb_apply cb)) (\<lambda>ap.
              liftE (Inr (cb\<lparr>cb_apply := ap, cb_ltc_count := cb_ltc_count cb + 1\<rparr>))) s)
         else if tag 0xc9 \<and> height < DOGE_CARRIER_LEGACY_CUTOFF then (Inr cb, s)
         else
           bindS (liftE (validate_output (nd_crypto nd) (gates_at (ch_params s) height) height out)) (\<lambda>_.
           case checked_add (cb_total cb) (out_value out) of
             None \<Rightarrow> liftE (Inl (Err ''Coinbase outputs overflow''))
           | Some new_total \<Rightarrow>
               if new_total > MAX_MONEY then liftE (Inl (Err ''Coinbase outputs overflow''))
               else liftE (Inr (cb\<lparr>cb_total := new_total\<rparr>))) s)"

text \<open>The writes of an accepted block: spent outputs go, created outputs come, claims are recorded.\<close>

definition insert_created ::
  "u64 \<Rightarrow> OutPoint \<times> TxOutput \<times> bool \<Rightarrow> (OutPoint \<rightharpoonup> UtxoEntry) \<Rightarrow> (OutPoint \<rightharpoonup> UtxoEntry)" where
  "insert_created height = (\<lambda>(op, out, coinbase) m.
     m(op \<mapsto> \<lparr>ut_output = out, ut_height = height, ut_is_coinbase = coinbase\<rparr>))"

definition spent_entries :: "(OutPoint \<rightharpoonup> UtxoEntry) \<Rightarrow> OutPoint list \<Rightarrow> (OutPoint \<times> UtxoEntry) list" where
  "spent_entries utxos seen =
     concat (map (\<lambda>key. case utxos key of Some entry \<Rightarrow> [(key, entry)] | None \<Rightarrow> []) seen)"

definition commit_block ::
  "u64 \<Rightarrow> totals \<Rightarrow> (OutPoint \<times> TxOutput \<times> bool) list \<Rightarrow> ('r, 'p) ChainState \<Rightarrow> ('r, 'p) ChainState" where
  "commit_block height tt created s =
     s\<lparr>ch_utxos := fold (insert_created height) created (fold (\<lambda>key m. m(key := None)) (tt_seen tt) (ch_utxos s)),
       ch_claimed_btc := ch_claimed_btc s \<union> set (cs_btc (tt_consumed tt)),
       ch_claimed_ltc := ch_claimed_ltc s \<union> set (cs_ltc (tt_consumed tt))\<rparr>"

definition coinbase_created :: "bytes \<Rightarrow> TxOutput list \<Rightarrow> (OutPoint \<times> TxOutput \<times> bool) list" where
  "coinbase_created tid outs =
     map (\<lambda>(index, out). (\<lparr>op_txid = tid, op_index = word_of_nat index\<rparr>, out, True)) (List.enumerate 0 outs)"

definition subsidy_of :: "bool \<Rightarrow> u64 \<Rightarrow> u64 \<Rightarrow> u64 \<Rightarrow> u64" where
  "subsidy_of enforce_reward block_reward_value fees coinbase_total =
     (let available_fees = (if sint fees \<le> sint coinbase_total then fees else coinbase_total);
          subsidy_created = sat_sub coinbase_total available_fees
      in if enforce_reward then min block_reward_value subsidy_created else subsidy_created)"

definition finish_block ::
  "node \<Rightarrow> Transaction \<Rightarrow> u64 \<Rightarrow> u64 \<Rightarrow> bool \<Rightarrow> u64 option \<Rightarrow> coinbase_st \<Rightarrow> ('r, 'p) ChainState \<Rightarrow>
     (err + u64 \<times> u64 \<times> u64 \<times> BlockUndo) \<times> ('r, 'p) ChainState" where
  "finish_block nd coinbase block_reward_value height enforce_reward max_subsidy cb s =
     (let ap = cb_apply cb; tt = ap_totals ap; fees = tt_fees tt; coinbase_total = cb_total cb;
          created = ap_created ap @ coinbase_created (txid (nd_sha nd) coinbase) (outputs coinbase);
          subsidy_created = subsidy_of enforce_reward block_reward_value fees coinbase_total
      in if enforce_reward \<and> coinbase_total > block_reward_value + fees then
           (Inl (Err ''Coinbase transaction exceeds allowed reward''), s)
         else if (case max_subsidy of Some m \<Rightarrow> subsidy_created > m | None \<Rightarrow> False) then
           (Inl (Err ''Coinbase subsidy would exceed permitted supply''), s)
         else
           (Inr (fees, coinbase_total, subsidy_created,
                 \<lparr>un_spent = spent_entries (ch_utxos s) (tt_seen tt), un_created = map fst created,
                  un_subsidy_created = subsidy_created, un_btc_relay_update = ap_btc_update ap,
                  un_ltc_relay_update = ap_ltc_update ap, un_claimed_btc_added = cs_btc (tt_consumed tt),
                  un_claimed_ltc_added = cs_ltc (tt_consumed tt)\<rparr>),
            commit_block height tt created s))"

definition validate_and_apply_transactions ::
  "node \<Rightarrow> 'r Block \<Rightarrow> u64 \<Rightarrow> u64 \<Rightarrow> bool \<Rightarrow> u64 option \<Rightarrow> ('r, 'p) ChainState \<Rightarrow>
     (err + u64 \<times> u64 \<times> u64 \<times> BlockUndo) \<times> ('r, 'p) ChainState" where
  "validate_and_apply_transactions nd blk block_reward_value height enforce_reward max_subsidy =
     (case transactions blk of
        [] \<Rightarrow> liftE (Inl (Err ''Block must include transactions''))
      | coinbase # txs \<Rightarrow>
          if \<not> is_coinbase coinbase then liftE (Inl (Err ''First transaction must be coinbase''))
          else if outputs coinbase = [] then liftE (Inl (Err ''Coinbase transaction must create outputs''))
          else
            bindS (foldS (apply_tx nd height (hdr_time (header blk))) txs start_apply) (\<lambda>ap.
            bindS (foldS (apply_coinbase_output nd height (hdr_time (header blk))) (outputs coinbase)
                     \<lparr>cb_apply = ap, cb_total = 0, cb_btc_count = 0, cb_ltc_count = 0\<rparr>) (\<lambda>cb.
            finish_block nd coinbase block_reward_value height enforce_reward max_subsidy cb)))"

section \<open>What the loops leave alone\<close>

text \<open>Until a block is committed only the header relays of the state change.\<close>

definition same_but_relays :: "('r, 'p) ChainState \<Rightarrow> ('r, 'p) ChainState \<Rightarrow> bool" where
  "same_but_relays s s' \<longleftrightarrow> s' = s\<lparr>ch_btc := ch_btc s', ch_ltc := ch_ltc s'\<rparr>"

lemma same_but_relays_refl [simp, intro]: "same_but_relays s s"
  by (simp add: same_but_relays_def)

lemma same_but_relays_trans [trans]:
  assumes "same_but_relays s1 s2" "same_but_relays s2 s3"
  shows "same_but_relays s1 s3"
proof -
  have "s3 = s2\<lparr>ch_btc := ch_btc s3, ch_ltc := ch_ltc s3\<rparr>" using assms(2) by (simp add: same_but_relays_def)
  also have "s2 = s1\<lparr>ch_btc := ch_btc s2, ch_ltc := ch_ltc s2\<rparr>" using assms(1) by (simp add: same_but_relays_def)
  finally show ?thesis by (simp add: same_but_relays_def)
qed

lemma same_but_relays_upd [simp, intro]:
  "same_but_relays s (s\<lparr>ch_btc := r\<rparr>)" "same_but_relays s (s\<lparr>ch_ltc := l\<rparr>)"
  by (simp_all add: same_but_relays_def)

lemma same_but_relaysD:
  assumes "same_but_relays s s'"
  shows "ch_params s' = ch_params s" "ch_utxos s' = ch_utxos s" "ch_issued s' = ch_issued s"
    "ch_claimed_btc s' = ch_claimed_btc s" "ch_claimed_ltc s' = ch_claimed_ltc s" "ch_chain s' = ch_chain s"
    "ch_height s' = ch_height s" "ch_total_work s' = ch_total_work s" "ch_undo_logs s' = ch_undo_logs s"
proof -
  have e: "s' = s\<lparr>ch_btc := ch_btc s', ch_ltc := ch_ltc s'\<rparr>" using assms by (simp add: same_but_relays_def)
  show "ch_params s' = ch_params s" by (subst e) simp
  show "ch_utxos s' = ch_utxos s" by (subst e) simp
  show "ch_issued s' = ch_issued s" by (subst e) simp
  show "ch_claimed_btc s' = ch_claimed_btc s" by (subst e) simp
  show "ch_claimed_ltc s' = ch_claimed_ltc s" by (subst e) simp
  show "ch_chain s' = ch_chain s" by (subst e) simp
  show "ch_height s' = ch_height s" by (subst e) simp
  show "ch_total_work s' = ch_total_work s" by (subst e) simp
  show "ch_undo_logs s' = ch_undo_logs s" by (subst e) simp
qed

lemma foldS_same_but_relays:
  assumes "\<And>x a s. same_but_relays s (snd (f x a s))"
  shows "same_but_relays s (snd (foldS f xs a s))"
proof (induction xs arbitrary: a s)
  case (Cons x xs)
  show ?case
    using assms [of s x a] Cons.IH
    by (cases "f x a s"; cases "fst (f x a s)") (auto simp: bindS_def intro: same_but_relays_trans)
qed simp

lemma apply_btc_batch_frame: "same_but_relays s (snd (apply_btc_batch nd t hs s))"
  by (auto simp: apply_btc_batch_def split: sum.splits)

lemma apply_ltc_batch_frame: "same_but_relays s (snd (apply_ltc_batch nd t hs s))"
  by (auto simp: apply_ltc_batch_def split: sum.splits)

lemma bindS_frame:
  assumes "same_but_relays s (snd (m s))" "\<And>a s'. same_but_relays s' (snd (f a s'))"
  shows "same_but_relays s (snd (bindS m f s))"
  using assms same_but_relays_trans [of s "snd (m s)"]
  by (cases "m s"; cases "fst (m s)") (auto simp: bindS_def)

lemma liftE_frame [simp]: "same_but_relays s (snd (liftE r s))"
  by (simp add: liftE_def)

lemma if_frame:
  "same_but_relays s (snd a) \<Longrightarrow> same_but_relays s (snd b) \<Longrightarrow> same_but_relays s (snd (if P then a else b))"
  by simp

lemma case_option_frame:
  "same_but_relays s (snd (f s)) \<Longrightarrow> (\<And>x. same_but_relays s (snd (g x s))) \<Longrightarrow>
    same_but_relays s (snd ((case r of None \<Rightarrow> f | Some x \<Rightarrow> g x) s))"
  by (cases r) auto

lemma pair_frame: "same_but_relays s (snd (r, s))"
  by simp

lemma if_method_frame:
  "same_but_relays s (snd (a s)) \<Longrightarrow> same_but_relays s (snd (b s)) \<Longrightarrow>
    same_but_relays s (snd ((if P then a else b) s))"
  by simp

lemmas frame_intros = if_frame if_method_frame case_option_frame pair_frame bindS_frame liftE_frame apply_btc_batch_frame apply_ltc_batch_frame

lemma apply_tx_output_frame: "same_but_relays s (snd (apply_tx_output nd h t tid x ap s))"
  unfolding apply_tx_output_def case_prod_beta by (intro frame_intros)

lemma apply_tx_frame: "same_but_relays s (snd (apply_tx nd h t tx ap s))"
  unfolding apply_tx_def by (intro bindS_frame foldS_same_but_relays apply_tx_output_frame) simp

lemma soft_btc_batch_frame: "same_but_relays s (snd (soft_btc_batch nd t script ap s))"
  unfolding soft_btc_batch_def
proof (intro bindS_frame)
  fix hs and s' :: "('r, 'p) ChainState"
  show "same_but_relays s' (snd (case apply_btc_batch nd t hs s' of
      (Inl e, s') \<Rightarrow> if coinbase_carrier_soft_apply_error e then (Inr ap, s') else (Inl e, s')
    | (Inr update, s') \<Rightarrow> (Inr (ap\<lparr>ap_btc_update := Some update\<rparr>), s')))"
    using apply_btc_batch_frame [of s' nd t hs] by (auto split: prod.splits sum.splits)
qed simp

lemma soft_ltc_batch_frame: "same_but_relays s (snd (soft_ltc_batch nd t script ap s))"
  unfolding soft_ltc_batch_def
proof (intro bindS_frame)
  fix hs and s' :: "('r, 'p) ChainState"
  show "same_but_relays s' (snd (case apply_ltc_batch nd t hs s' of
      (Inl e, s') \<Rightarrow> if coinbase_carrier_soft_apply_error e then (Inr ap, s') else (Inl e, s')
    | (Inr update, s') \<Rightarrow> (Inr (ap\<lparr>ap_ltc_update := Some update\<rparr>), s')))"
    using apply_ltc_batch_frame [of s' nd t hs] by (auto split: prod.splits sum.splits)
qed simp

lemma apply_coinbase_output_frame: "same_but_relays s (snd (apply_coinbase_output nd h t out cb s))"
  unfolding apply_coinbase_output_def Let_def
  by (intro frame_intros soft_btc_batch_frame soft_ltc_batch_frame)

lemma foldS_frames:
  "same_but_relays s (snd (foldS (apply_tx nd h t) txs ap s))"
  "same_but_relays s (snd (foldS (apply_coinbase_output nd h t) outs cb s))"
  by (intro foldS_same_but_relays apply_tx_frame apply_coinbase_output_frame)+

section \<open>Coins\<close>

text \<open>
  What an unspent output is worth to a spender: nothing when its script is of no known type, since no
  witness satisfies it.
\<close>

definition spendable :: "TxOutput \<Rightarrow> bool" where
  "spendable out \<longleftrightarrow> parse_output_encumbrance (script_pubkey out) \<noteq> Unknown"

definition coin_value :: "TxOutput \<Rightarrow> nat" where
  "coin_value out = (if spendable out then unat (out_value out) else 0)"

definition coin_supply :: "(OutPoint \<rightharpoonup> UtxoEntry) \<Rightarrow> nat" where
  "coin_supply m = (\<Sum>k \<in> dom m. coin_value (ut_output (the (m k))))"

definition coins_ok :: "(OutPoint \<rightharpoonup> UtxoEntry) \<Rightarrow> bool" where
  "coins_ok m \<longleftrightarrow> finite (dom m) \<and> (\<forall>e \<in> ran m. coin_value (ut_output e) \<le> unat MAX_MONEY)"

lemma supply_delete:
  assumes "finite (dom m)" "m k = Some e"
  shows "coin_supply m = coin_supply (m(k := None)) + coin_value (ut_output e)"
proof -
  have "coin_supply m = (\<Sum>x \<in> insert k (dom m - {k}). coin_value (ut_output (the (m x))))"
    using assms(2) by (simp add: coin_supply_def insert_absorb domI)
  also have "\<dots> = coin_value (ut_output e) + (\<Sum>x \<in> dom m - {k}. coin_value (ut_output (the (m x))))"
    using assms by (subst sum.insert) auto
  also have "(\<Sum>x \<in> dom m - {k}. coin_value (ut_output (the (m x)))) = coin_supply (m(k := None))"
    by (simp add: coin_supply_def dom_fun_upd)
  finally show ?thesis by simp
qed

lemma supply_insert_le:
  assumes "finite (dom m)"
  shows "coin_supply (m(k \<mapsto> e)) \<le> coin_supply m + coin_value (ut_output e)"
proof -
  have "coin_supply (m(k \<mapsto> e)) = coin_supply (m(k := None)) + coin_value (ut_output e)"
    using supply_delete [of "m(k \<mapsto> e)" k e] assms by simp
  moreover have "coin_supply (m(k := None)) \<le> coin_supply m"
    using supply_delete [OF assms, of k] by (cases "m k") (auto simp: fun_upd_idem)
  ultimately show ?thesis by simp
qed

lemma fold_delete_dom: "finite (dom m) \<Longrightarrow> finite (dom (fold (\<lambda>key m. m(key := None)) ks m))"
  by (induction ks arbitrary: m) auto

lemma fold_delete_apply:
  "fold (\<lambda>key m. m(key := None)) ks m k = (if k \<in> set ks then None else m k)"
  by (induction ks arbitrary: m) auto

lemma supply_delete_list:
  assumes "finite (dom m)" "distinct ks" "set ks \<subseteq> dom m"
  shows "coin_supply m = coin_supply (fold (\<lambda>key m. m(key := None)) ks m) +
    (\<Sum>k \<leftarrow> ks. coin_value (ut_output (the (m k))))"
  using assms
proof (induction ks arbitrary: m)
  case (Cons k ks)
  then obtain e where e: "m k = Some e" by auto
  have "coin_supply (m(k := None)) = coin_supply (fold (\<lambda>key m. m(key := None)) ks (m(k := None))) +
      (\<Sum>j \<leftarrow> ks. coin_value (ut_output (the ((m(k := None)) j))))"
    using Cons.prems by (intro Cons.IH) (auto simp del: fun_upd_apply)
  moreover have "(\<Sum>j \<leftarrow> ks. coin_value (ut_output (the ((m(k := None)) j)))) =
      (\<Sum>j \<leftarrow> ks. coin_value (ut_output (the (m j))))"
    using Cons.prems(2) by (intro arg_cong [of _ _ sum_list] map_cong) auto
  ultimately show ?case using supply_delete [OF Cons.prems(1) e] e by (simp del: fun_upd_apply)
qed simp

lemma finite_insert_created: "finite (dom m) \<Longrightarrow> finite (dom (fold (insert_created h) cs m))"
  by (induction cs arbitrary: m) (auto simp: insert_created_def split: prod.split)

lemma supply_insert_list:
  assumes "finite (dom m)"
  shows "coin_supply (fold (insert_created h) cs m) \<le> coin_supply m + (\<Sum>(op, out, cb) \<leftarrow> cs. coin_value out)"
  using assms
proof (induction cs arbitrary: m)
  case (Cons c cs)
  obtain op out cb where c: "c = (op, out, cb)" by (cases c)
  have "coin_supply (insert_created h c m) \<le> coin_supply m + coin_value out"
    using supply_insert_le [OF Cons.prems, of op "\<lparr>ut_output = out, ut_height = h, ut_is_coinbase = cb\<rparr>"]
    by (simp add: c insert_created_def)
  moreover have "coin_supply (fold (insert_created h) cs (insert_created h c m)) \<le>
      coin_supply (insert_created h c m) + (\<Sum>(op, out, cb) \<leftarrow> cs. coin_value out)"
    using finite_insert_created [of m h "[c]"] Cons.prems by (intro Cons.IH) simp
  ultimately show ?case by (simp add: c)
qed simp

lemma fold_insert_ran:
  "ran (fold (insert_created h) cs m) \<subseteq>
     ran m \<union> {\<lparr>ut_output = out, ut_height = h, ut_is_coinbase = cb\<rparr> |op out cb. (op, out, cb) \<in> set cs}"
proof (induction cs arbitrary: m)
  case (Cons c cs)
  have "ran (insert_created h c m) \<subseteq> ran m \<union>
      {\<lparr>ut_output = out, ut_height = h, ut_is_coinbase = cb\<rparr> |op out cb. (op, out, cb) \<in> {c}}"
    by (cases c) (auto simp: insert_created_def ran_def)
  with Cons.IH [of "insert_created h c m"] show ?case by (simp add: subset_iff) blast
qed simp

lemma fold_delete_ran: "ran (fold (\<lambda>key m. m(key := None)) ks m) \<subseteq> ran m"
  by (auto simp: ran_def fold_delete_apply split: if_split_asm)

lemma coins_ok_commit:
  assumes "coins_ok m" "\<forall>(op, out, cb) \<in> set cs. coin_value out \<le> unat MAX_MONEY"
  shows "coins_ok (fold (insert_created h) cs (fold (\<lambda>key m. m(key := None)) ks m))"
  using assms fold_insert_ran [of h cs "fold (\<lambda>key m. m(key := None)) ks m"] fold_delete_ran [of ks m]
  unfolding coins_ok_def by (fastforce intro!: finite_insert_created fold_delete_dom)

section \<open>The accounts of a transaction\<close>

lemma unat_sum_list:
  fixes ws :: "'a::len word list"
  assumes "(\<Sum>w \<leftarrow> ws. unat w) < 2 ^ LENGTH('a)"
  shows "unat (sum_list ws) = (\<Sum>w \<leftarrow> ws. unat w)"
  using assms
proof (induction ws)
  case (Cons w ws)
  then have "unat (sum_list ws) = (\<Sum>w \<leftarrow> ws. unat w)" by simp
  with Cons.prems show ?case using unat_add_no_wrap [of w "sum_list ws"] by simp
qed simp

lemma sint_small:
  fixes w :: u64
  assumes "unat w < 2 ^ 63"
  shows "sint w = int (unat w)"
proof -
  have "int (unat w) < int (2 ^ 63)" using assms by (simp only: of_nat_less_iff)
  then have "uint w < 2 ^ 63" by simp
  then have "signed_take_bit 63 (uint w) = uint w"
    by (intro signed_take_bit_int_eq_self) (use order_trans [OF _ uint_ge_0 [of w]] in auto)
  then show ?thesis by (simp add: sint_uint)
qed

lemma verify_spendable:
  "verify_transaction_signature cr g view tx i txin utxo h c = Inr (Some c') \<Longrightarrow> spendable utxo"
  by (auto simp: verify_transaction_signature_def spendable_def)

text \<open>
  The outpoints consumed by swap claims so far: no outpoint twice, and none that an earlier block
  consumed.
\<close>

definition consumed_ok :: "ConsensusView \<Rightarrow> consumed \<Rightarrow> bool" where
  "consumed_ok view c \<longleftrightarrow> distinct (cs_btc c) \<and> distinct (cs_ltc c) \<and>
     set (cs_btc c) \<inter> cv_claimed_btc view = {} \<and> set (cs_ltc c) \<inter> cv_claimed_ltc view = {}"

lemma verify_consumed_ok:
  assumes "verify_transaction_signature cr g view tx i txin utxo h c = Inr (Some c')" "consumed_ok view c"
  shows "consumed_ok view c'"
  by (rule verify_consumes [OF assms(1)]) (use assms(2) in \<open>auto simp: consumed_ok_def\<close>)

abbreviation entry_value :: "(OutPoint \<rightharpoonup> UtxoEntry) \<Rightarrow> OutPoint \<Rightarrow> u64" where
  "entry_value m k \<equiv> out_value (ut_output (the (m k)))"

abbreviation input_key :: "TxInput \<Rightarrow> OutPoint" where
  "input_key txin \<equiv> \<lparr>op_txid = prev_txid txin, op_index = prev_index txin\<rparr>"

lemma validate_input_Inr:
  assumes "validate_input nd s tx h (i, txin) (tt, w) = Inr (tt', w')"
  obtains k :: OutPoint and e :: UtxoEntry and c :: consumed where "k = input_key txin" "ch_utxos s k = Some e" "k \<notin> set (tt_seen tt)" "spendable (ut_output e)"
    "tt' = tt\<lparr>tt_seen := tt_seen tt @ [k], tt_consumed := c\<rparr>" "w' = w + out_value (ut_output e)"
    "consumed_ok (build_consensus_view s) (tt_consumed tt) \<longrightarrow> consumed_ok (build_consensus_view s) c"
proof -
  let ?k = "input_key txin"
  obtain e :: UtxoEntry and c :: consumed where "ch_utxos s ?k = Some e" "?k \<notin> set (tt_seen tt)"
    and v: "verify_transaction_signature (nd_crypto nd) (gates_at (ch_params s) h) (build_consensus_view s)
      tx i txin (ut_output e) h (tt_consumed tt) = Inr (Some c)"
    and "tt' = tt\<lparr>tt_seen := tt_seen tt @ [?k], tt_consumed := c\<rparr>" "w' = w + out_value (ut_output e)"
    using assms by (auto simp: validate_input_def Let_def bindE_eq_Inr split: option.split_asm)
  then show thesis
    using verify_spendable [OF v] verify_consumed_ok [OF v] by (intro that [of ?k e c]) auto
qed

definition inputs_ok :: "('r, 'p) ChainState \<Rightarrow> totals \<Rightarrow> bool" where
  "inputs_ok s tt \<longleftrightarrow> distinct (tt_seen tt) \<and> consumed_ok (build_consensus_view s) (tt_consumed tt) \<and>
     (\<forall>k \<in> set (tt_seen tt). \<exists>e. ch_utxos s k = Some e \<and> spendable (ut_output e))"

lemma validate_inputs_Inr:
  assumes "foldE (validate_input nd s tx h) (List.enumerate n ins) (tt, w) = Inr (tt', w')" "inputs_ok s tt"
  shows "inputs_ok s tt' \<and> tt_fees tt' = tt_fees tt \<and>
    tt_seen tt' = tt_seen tt @ map input_key ins \<and>
    w' = w + sum_list (map (entry_value (ch_utxos s)) (map input_key ins))"
  using assms
proof (induction ins arbitrary: n tt w)
  case (Cons txin ins)
  obtain tt1 w1 where v: "validate_input nd s tx h (n, txin) (tt, w) = Inr (tt1, w1)"
    and r: "foldE (validate_input nd s tx h) (List.enumerate (Suc n) ins) (tt1, w1) = Inr (tt', w')"
    using Cons.prems(1) by (auto simp: bindE_eq_Inr)
  obtain k :: OutPoint and e :: UtxoEntry and c :: consumed where kk: "k = input_key txin"
    and k: "ch_utxos s k = Some e" "k \<notin> set (tt_seen tt)" "spendable (ut_output e)"
    "tt1 = tt\<lparr>tt_seen := tt_seen tt @ [k], tt_consumed := c\<rparr>" "w1 = w + out_value (ut_output e)"
    "consumed_ok (build_consensus_view s) (tt_consumed tt) \<longrightarrow> consumed_ok (build_consensus_view s) c"
    using v by (rule validate_input_Inr)
  have "inputs_ok s tt1" using Cons.prems(2) k by (auto simp: inputs_ok_def)
  from Cons.IH [OF r this] show ?case using k(1,4,5) kk by (auto simp: algebra_simps)
qed simp

text \<open>A header batch is the only output whose value is not counted as created: it has none.\<close>

definition is_batch :: "TxOutput \<Rightarrow> bool" where
  "is_batch out \<longleftrightarrow> has_tag (script_pubkey out) BTC_HEADER_BATCH_TAG \<or> has_tag (script_pubkey out) LTC_HEADER_BATCH_TAG"

lemma has_tag_unique: "has_tag script a \<Longrightarrow> has_tag script b \<Longrightarrow> a = b"
  by (simp add: has_tag_def)

lemma validate_batch_value:
  "validate_btc_batch_output g out = Inr u \<Longrightarrow> out_value out = 0"
  "validate_ltc_batch_output g out = Inr u \<Longrightarrow> out_value out = 0"
  by (auto simp: validate_btc_batch_output_def validate_ltc_batch_output_def bindE_eq_Inr)

lemma validate_output_Inr:
  assumes "validate_output cr g h out = Inr u"
  shows "out_value out \<le> MAX_MONEY \<and> (is_batch out \<longrightarrow> out_value out = 0)"
proof
  show "out_value out \<le> MAX_MONEY" using assms by (auto simp: validate_output_def bindE_eq_Inr)
  show "is_batch out \<longrightarrow> out_value out = 0"
  proof
    assume "is_batch out"
    then consider "has_tag (script_pubkey out) BTC_HEADER_BATCH_TAG" "\<not> has_tag (script_pubkey out) MPSO_V1_TAG"
      | "has_tag (script_pubkey out) LTC_HEADER_BATCH_TAG" "\<not> has_tag (script_pubkey out) MPSO_V1_TAG"
        "\<not> has_tag (script_pubkey out) BTC_HEADER_BATCH_TAG"
      using has_tag_unique unfolding is_batch_def by fastforce
    then show "out_value out = 0"
      using assms by cases (auto simp: validate_output_def bindE_eq_Inr dest: validate_batch_value)
  qed
qed

lemma sum_outputs_Inr:
  assumes "foldE (sum_output nd params h) outs w = Inr w'"
  shows "w' = w + sum_list (map out_value outs) \<and>
    (\<forall>out \<in> set outs. out_value out \<le> MAX_MONEY \<and> (is_batch out \<longrightarrow> out_value out = 0))"
  using assms
proof (induction outs arbitrary: w)
  case (Cons out outs)
  obtain u where v: "validate_output (nd_crypto nd) (gates_at params h) h out = Inr u"
    and r: "foldE (sum_output nd params h) outs (w + out_value out) = Inr w'"
    using Cons.prems by (auto simp: sum_output_def [of nd params h out w] bindE_eq_Inr)
  show ?case using Cons.IH [OF r] validate_output_Inr [OF v] by auto
qed simp

lemma sum_list_le_length: "(\<And>x. x \<in> set xs \<Longrightarrow> f x \<le> (c::nat)) \<Longrightarrow> (\<Sum>x \<leftarrow> xs. f x) \<le> length xs * c"
  by (induction xs) (auto intro: add_mono)

lemma unat_MAX_MONEY: "unat MAX_MONEY = 10 ^ 16"
  by simp

text \<open>The wire format counts the inputs and outputs of a transaction in one byte.\<close>

definition tx_counts_ok :: "Transaction \<Rightarrow> bool" where
  "tx_counts_ok tx \<longleftrightarrow> length (inputs tx) \<le> 255 \<and> length (outputs tx) \<le> 255"

lemma validate_transaction_balance:
  assumes v: "validate_transaction_internal nd s tx h tt = Inr tt'" and "tx_counts_ok tx"
    and "inputs_ok s tt" "coins_ok (ch_utxos s)" "tt_fees tt \<le> MAX_MONEY"
  shows "inputs_ok s tt' \<and> tt_fees tt' \<le> MAX_MONEY \<and>
    (\<forall>out \<in> set (outputs tx). out_value out \<le> MAX_MONEY \<and> (is_batch out \<longrightarrow> out_value out = 0)) \<and>
    tt_seen tt' = tt_seen tt @ map input_key (inputs tx) \<and>
    (\<Sum>k \<leftarrow> map input_key (inputs tx). unat (entry_value (ch_utxos s) k)) + unat (tt_fees tt) =
      (\<Sum>out \<leftarrow> outputs tx. unat (out_value out)) + unat (tt_fees tt')"
proof -
  obtain tt1 it ot where
    i: "foldE (validate_input nd s tx h) (List.enumerate 0 (inputs tx)) (tt, 0) = Inr (tt1, it)"
    and o: "foldE (sum_output nd (ch_params s) h) (outputs tx) 0 = Inr ot"
    and c: "\<not> sint it < sint ot" and f: "\<not> tt_fees tt1 + (it - ot) > MAX_MONEY"
    and t: "tt' = tt1\<lparr>tt_fees := tt_fees tt1 + (it - ot)\<rparr>"
    using v by (auto simp: validate_transaction_internal_def Let_def bindE_eq_Inr)
  define ks where "ks = map input_key (inputs tx)"
  have ks: "inputs_ok s tt1" "tt_fees tt1 = tt_fees tt" "tt_seen tt1 = tt_seen tt @ ks"
    "length ks = length (inputs tx)" "it = sum_list (map (entry_value (ch_utxos s)) ks)"
    using validate_inputs_Inr [OF i assms(3)] by (auto simp: ks_def)
  have outs: "ot = sum_list (map out_value (outputs tx))"
    "\<forall>out \<in> set (outputs tx). out_value out \<le> MAX_MONEY \<and> (is_batch out \<longrightarrow> out_value out = 0)"
    using sum_outputs_Inr [OF o] by auto
  have "unat (entry_value (ch_utxos s) k) \<le> 10 ^ 16" if "k \<in> set ks" for k
  proof -
    have "\<exists>e. ch_utxos s k = Some e \<and> spendable (ut_output e)"
      using ks(1,3) that by (auto simp: inputs_ok_def)
    then obtain e where "ch_utxos s k = Some e" "spendable (ut_output e)" by blast
    then show ?thesis using assms(4) by (fastforce simp: coins_ok_def coin_value_def ran_def)
  qed
  then have "(\<Sum>k \<leftarrow> ks. unat (entry_value (ch_utxos s) k)) \<le> 255 * 10 ^ 16"
    using sum_list_le_length [of ks "\<lambda>k. unat (entry_value (ch_utxos s) k)" "10 ^ 16"] assms(2) ks(4)
    by (auto simp: tx_counts_ok_def)
  then have it: "unat it = (\<Sum>k \<leftarrow> ks. unat (entry_value (ch_utxos s) k))" "unat it \<le> 255 * 10 ^ 16"
    using unat_sum_list [of "map (entry_value (ch_utxos s)) ks"] by (simp_all add: ks(5) o_def)
  have "(\<Sum>out \<leftarrow> outputs tx. unat (out_value out)) \<le> 255 * 10 ^ 16"
    using sum_list_le_length [of "outputs tx" "\<lambda>out. unat (out_value out)" "10 ^ 16"] outs(2) assms(2)
    by (auto simp: tx_counts_ok_def word_le_nat_alt)
  then have ot: "unat ot = (\<Sum>out \<leftarrow> outputs tx. unat (out_value out))" "unat ot \<le> 255 * 10 ^ 16"
    using unat_sum_list [of "map out_value (outputs tx)"] by (simp_all add: outs(1) o_def)
  have "ot \<le> it" using c it(2) ot(2) by (simp add: sint_small not_less flip: word_le_def)
  then have le: "unat ot \<le> unat it" by (simp add: word_le_nat_alt)
  have d: "unat (it - ot) = unat it - unat ot" using le by (simp add: unat_sub word_le_nat_alt)
  have "unat (tt_fees tt) \<le> 10 ^ 16" using assms(5) by (simp add: word_le_nat_alt)
  then have "unat (tt_fees tt) + unat (it - ot) < 2 ^ LENGTH(64)" using it(2) d by simp
  then have e: "unat (tt_fees tt') = unat (tt_fees tt) + (unat it - unat ot)"
    using t ks(2) by (simp add: unat_add_no_wrap d)
  have "inputs_ok s tt'" "tt_fees tt' \<le> MAX_MONEY" "tt_seen tt' = tt_seen tt @ ks"
    using ks(1,3) f t by (simp_all add: inputs_ok_def not_less)
  moreover have "(\<Sum>k \<leftarrow> ks. unat (entry_value (ch_utxos s) k)) + unat (tt_fees tt) =
      (\<Sum>out \<leftarrow> outputs tx. unat (out_value out)) + unat (tt_fees tt')"
    using e le it(1) ot(1) by linarith
  ultimately show ?thesis using outs(2) unfolding ks_def by blast
qed

section \<open>The accounts of a block\<close>

lemma inputs_ok_relays: "same_but_relays s s' \<Longrightarrow> inputs_ok s' tt = inputs_ok s tt"
  by (simp add: inputs_ok_def consumed_ok_def build_consensus_view_def same_but_relaysD)

abbreviation created_value :: "(OutPoint \<times> TxOutput \<times> bool) list \<Rightarrow> nat" where
  "created_value cs \<equiv> \<Sum>(op, out, cb) \<leftarrow> cs. unat (out_value out)"

lemma apply_tx_output_Inr:
  assumes "apply_tx_output nd h t tid (n, out) ap s = (Inr ap', s')"
  shows "ap_totals ap' = ap_totals ap \<and>
    (if is_batch out then ap_created ap' = ap_created ap
     else ap_created ap' = ap_created ap @ [(\<lparr>op_txid = tid, op_index = word_of_nat n\<rparr>, out, False)])"
  using assms
  by (auto simp: apply_tx_output_def is_batch_def bindS_eq_Inr liftE_eq_Inr split: if_split_asm)

definition created_by :: "bytes \<Rightarrow> nat \<Rightarrow> TxOutput list \<Rightarrow> (OutPoint \<times> TxOutput \<times> bool) list" where
  "created_by tid n outs = map (\<lambda>(i, out). (\<lparr>op_txid = tid, op_index = word_of_nat i\<rparr>, out, False))
     (filter (\<lambda>(i, out). \<not> is_batch out) (List.enumerate n outs))"

lemma created_by_outs: "map (\<lambda>(op, out, cb). out) (created_by tid n outs) = filter (\<lambda>out. \<not> is_batch out) outs"
  by (induction outs arbitrary: n) (auto simp: created_by_def)

lemma apply_outputs_Inr:
  assumes "foldS (apply_tx_output nd h t tid) (List.enumerate n outs) ap s = (Inr ap', s')"
  shows "ap_totals ap' = ap_totals ap \<and> ap_created ap' = ap_created ap @ created_by tid n outs"
  using assms
proof (induction outs arbitrary: n ap s)
  case (Cons out outs)
  obtain ap1 s1 where o: "apply_tx_output nd h t tid (n, out) ap s = (Inr ap1, s1)"
    and r: "foldS (apply_tx_output nd h t tid) (List.enumerate (Suc n) outs) ap1 s1 = (Inr ap', s')"
    using Cons.prems by (auto simp: bindS_eq_Inr)
  show ?case using apply_tx_output_Inr [OF o] Cons.IH [OF r] by (auto simp: created_by_def split: if_split_asm)
qed (simp add: created_by_def)

definition apply_inv :: "('r, 'p) ChainState \<Rightarrow> apply_st \<Rightarrow> ('r, 'p) ChainState \<Rightarrow> bool" where
  "apply_inv s0 ap s \<longleftrightarrow> same_but_relays s0 s \<and> inputs_ok s0 (ap_totals ap) \<and>
     tt_fees (ap_totals ap) \<le> MAX_MONEY \<and>
     (\<forall>(op, out, cb) \<in> set (ap_created ap). out_value out \<le> MAX_MONEY) \<and>
     (\<Sum>k \<leftarrow> tt_seen (ap_totals ap). unat (entry_value (ch_utxos s0) k)) =
       created_value (ap_created ap) + unat (tt_fees (ap_totals ap))"

lemma created_value_outs: "created_value cs = (\<Sum>out \<leftarrow> map (\<lambda>(op, out, cb). out) cs. unat (out_value out))"
  by (induction cs) auto

lemma sum_filter_zero:
  "(\<And>x. x \<in> set xs \<Longrightarrow> \<not> P x \<Longrightarrow> f x = (0::nat)) \<Longrightarrow> (\<Sum>x \<leftarrow> filter P xs. f x) = (\<Sum>x \<leftarrow> xs. f x)"
  by (induction xs) auto

lemma apply_tx_inv:
  assumes "apply_tx nd h t tx ap s = (Inr ap', s')" "apply_inv s0 ap s" "tx_counts_ok tx" "coins_ok (ch_utxos s0)"
  shows "apply_inv s0 ap' s'"
proof -
  have fr: "same_but_relays s0 s" and ap: "inputs_ok s0 (ap_totals ap)" "tt_fees (ap_totals ap) \<le> MAX_MONEY"
    "\<forall>(op, out, cb) \<in> set (ap_created ap). out_value out \<le> MAX_MONEY"
    "(\<Sum>k \<leftarrow> tt_seen (ap_totals ap). unat (entry_value (ch_utxos s0) k)) =
       created_value (ap_created ap) + unat (tt_fees (ap_totals ap))"
    using assms(2) by (auto simp: apply_inv_def)
  note u = same_but_relaysD(2) [OF fr]
  obtain tt where v: "validate_transaction_internal nd s tx h (ap_totals ap) = Inr tt"
    and o: "foldS (apply_tx_output nd h t (txid (nd_sha nd) tx)) (List.enumerate 0 (outputs tx))
      (ap\<lparr>ap_totals := tt\<rparr>) s = (Inr ap', s')"
    using assms(1) by (auto simp: apply_tx_def bindS_eq_Inr liftE_eq_Inr)
  define ks where "ks = map input_key (inputs tx)"
  have ks: "inputs_ok s0 tt" "tt_fees tt \<le> MAX_MONEY" "tt_seen tt = tt_seen (ap_totals ap) @ ks"
    "\<forall>out \<in> set (outputs tx). out_value out \<le> MAX_MONEY \<and> (is_batch out \<longrightarrow> out_value out = 0)"
    "(\<Sum>k \<leftarrow> ks. unat (entry_value (ch_utxos s0) k)) + unat (tt_fees (ap_totals ap)) =
       (\<Sum>out \<leftarrow> outputs tx. unat (out_value out)) + unat (tt_fees tt)"
    using validate_transaction_balance [OF v assms(3)] ap(1,2) assms(4) u inputs_ok_relays [OF fr]
    by (auto simp: ks_def)
  define new where "new = created_by (txid (nd_sha nd) tx) 0 (outputs tx)"
  have new: "ap_totals ap' = tt" "ap_created ap' = ap_created ap @ new"
    "map (\<lambda>(op, out, cb). out) new = filter (\<lambda>out. \<not> is_batch out) (outputs tx)"
    using apply_outputs_Inr [OF o] created_by_outs by (auto simp: new_def)
  have "created_value new = (\<Sum>out \<leftarrow> outputs tx. unat (out_value out))"
    unfolding created_value_outs new(3) by (rule sum_filter_zero) (use ks(4) in auto)
  moreover have "out_value out \<le> MAX_MONEY" if "(op, out, cb) \<in> set new" for op out cb
  proof -
    have "out \<in> set (map (\<lambda>(op, out, cb). out) new)" using that by force
    then show ?thesis using ks(4) unfolding new(3) by simp
  qed
  moreover have "same_but_relays s0 s'" using apply_tx_frame [of s nd h t tx ap] fr assms(1)
    by (auto intro: same_but_relays_trans)
  ultimately show ?thesis using ap ks new(1,2) by (auto simp: apply_inv_def)
qed

lemma apply_txs_inv:
  assumes "foldS (apply_tx nd h t) txs start_apply s0 = (Inr ap, s)" "\<forall>tx \<in> set txs. tx_counts_ok tx"
    and "coins_ok (ch_utxos s0)"
  shows "apply_inv s0 ap s"
  using assms(1)
proof (rule foldS_invariant [where I = "apply_inv s0"])
  show "apply_inv s0 start_apply s0"
    by (simp add: apply_inv_def start_apply_def no_totals_def inputs_ok_def consumed_ok_def)
qed (use assms(2,3) apply_tx_inv in blast)

lemma legacy_carrier_unspendable:
  assumes "has_tag (script_pubkey out) 0xc9"
  shows "coin_value out = 0"
proof -
  have "script_pubkey out ! 0 = 0xc9" using assms by (cases "script_pubkey out") (auto simp: has_tag_def)
  then show ?thesis by (simp add: coin_value_def spendable_def parse_output_encumbrance_def parse_tag)
qed

lemma coin_value_le: "coin_value out \<le> unat (out_value out)"
  by (simp add: coin_value_def)

lemma soft_case_Inr:
  assumes "(case r of (Inr u, s1) \<Rightarrow> (Inr (g u), s1) | (Inl e, s1) \<Rightarrow> if P e then (Inr ap, s1) else (Inl e, s1))
    = (Inr ap', s')"
  shows "ap' = ap \<or> (\<exists>u. ap' = g u)"
  using assms by (cases r; cases "fst r") (auto split: if_split_asm)

lemma soft_batch_Inr:
  "soft_btc_batch nd t script ap s = (Inr ap', s') \<Longrightarrow> ap_totals ap' = ap_totals ap \<and> ap_created ap' = ap_created ap"
  "soft_ltc_batch nd t script ap s = (Inr ap', s') \<Longrightarrow> ap_totals ap' = ap_totals ap \<and> ap_created ap' = ap_created ap"
  unfolding soft_btc_batch_def soft_ltc_batch_def bindS_eq_Inr by (auto dest!: soft_case_Inr)

definition coinbase_step_ok :: "TxOutput \<Rightarrow> coinbase_st \<Rightarrow> coinbase_st \<Rightarrow> bool" where
  "coinbase_step_ok out cb cb' \<longleftrightarrow>
     ap_totals (cb_apply cb') = ap_totals (cb_apply cb) \<and> ap_created (cb_apply cb') = ap_created (cb_apply cb) \<and>
     unat (cb_total cb) + coin_value out \<le> unat (cb_total cb') \<and> coin_value out \<le> unat MAX_MONEY \<and>
     (cb_total cb \<le> MAX_MONEY \<longrightarrow> cb_total cb' \<le> MAX_MONEY)"

lemma coinbase_step_batch:
  assumes "out_value out = 0" "ap_totals ap = ap_totals (cb_apply cb)" "ap_created ap = ap_created (cb_apply cb)"
  shows "coinbase_step_ok out cb (cb\<lparr>cb_apply := ap, cb_btc_count := n\<rparr>)"
    "coinbase_step_ok out cb (cb\<lparr>cb_apply := ap, cb_ltc_count := n\<rparr>)"
  using assms by (simp_all add: coinbase_step_ok_def coin_value_def)

lemma coinbase_step_value:
  assumes "validate_output cr g h out = Inr u" "checked_add (cb_total cb) (out_value out) = Some w" "\<not> w > MAX_MONEY"
  shows "coinbase_step_ok out cb (cb\<lparr>cb_total := w\<rparr>)"
  using validate_output_Inr [OF assms(1)] assms(2,3) coin_value_le [of out]
  by (auto simp: coinbase_step_ok_def checked_add_Some word_le_nat_alt word_less_nat_alt not_less unat_add_no_wrap)

lemma apply_coinbase_output_Inr:
  assumes "apply_coinbase_output nd h t out cb s = (Inr cb', s')"
  shows "coinbase_step_ok out cb cb'"
proof -
  consider (btc) "has_tag (script_pubkey out) BTC_HEADER_BATCH_TAG"
    | (ltc) "has_tag (script_pubkey out) LTC_HEADER_BATCH_TAG" "\<not> has_tag (script_pubkey out) BTC_HEADER_BATCH_TAG"
    | (other) "\<not> has_tag (script_pubkey out) BTC_HEADER_BATCH_TAG" "\<not> has_tag (script_pubkey out) LTC_HEADER_BATCH_TAG"
    by blast
  then show ?thesis
  proof cases
    case btc
    then obtain ap where "soft_btc_batch nd t (script_pubkey out) (cb_apply cb) s = (Inr ap, s')"
      "out_value out = 0" "cb' = cb\<lparr>cb_apply := ap, cb_btc_count := cb_btc_count cb + 1\<rparr>"
      using assms by (auto simp: apply_coinbase_output_def bindS_eq_Inr liftE_eq_Inr split: if_split_asm)
    then show ?thesis using coinbase_step_batch(1) soft_batch_Inr(1) by blast
  next
    case ltc
    then obtain ap where "soft_ltc_batch nd t (script_pubkey out) (cb_apply cb) s = (Inr ap, s')"
      "out_value out = 0" "cb' = cb\<lparr>cb_apply := ap, cb_ltc_count := cb_ltc_count cb + 1\<rparr>"
      using assms by (auto simp: apply_coinbase_output_def bindS_eq_Inr liftE_eq_Inr split: if_split_asm)
    then show ?thesis using coinbase_step_batch(2) soft_batch_Inr(2) by blast
  next
    case other
    show ?thesis
    proof (cases "has_tag (script_pubkey out) 0xc9 \<and> h < DOGE_CARRIER_LEGACY_CUTOFF")
      case True
      then have "cb' = cb" using assms other by (simp add: apply_coinbase_output_def)
      then show ?thesis using legacy_carrier_unspendable [of out] True by (simp add: coinbase_step_ok_def)
    next
      case False
      then obtain u w where "validate_output (nd_crypto nd) (gates_at (ch_params s) h) h out = Inr u"
        "checked_add (cb_total cb) (out_value out) = Some w" "\<not> w > MAX_MONEY" "cb' = cb\<lparr>cb_total := w\<rparr>"
        using assms other
        by (auto simp: apply_coinbase_output_def Let_def bindS_eq_Inr liftE_eq_Inr split: option.split_asm if_split_asm)
      then show ?thesis using coinbase_step_value by blast
    qed
  qed
qed

lemma coinbase_outputs_Inr:
  assumes "foldS (apply_coinbase_output nd h t) outs cb s = (Inr cb', s')" "cb_total cb \<le> MAX_MONEY"
  shows "ap_totals (cb_apply cb') = ap_totals (cb_apply cb) \<and> ap_created (cb_apply cb') = ap_created (cb_apply cb) \<and>
    unat (cb_total cb) + (\<Sum>out \<leftarrow> outs. coin_value out) \<le> unat (cb_total cb') \<and> cb_total cb' \<le> MAX_MONEY \<and>
    (\<forall>out \<in> set outs. coin_value out \<le> unat MAX_MONEY)"
  using assms
proof (induction outs arbitrary: cb s)
  case (Cons out outs)
  obtain cb1 s1 where o: "apply_coinbase_output nd h t out cb s = (Inr cb1, s1)"
    and r: "foldS (apply_coinbase_output nd h t) outs cb1 s1 = (Inr cb', s')"
    using Cons.prems(1) by (auto simp: bindS_eq_Inr)
  note c = apply_coinbase_output_Inr [OF o, unfolded coinbase_step_ok_def]
  then show ?case using Cons.IH [OF r] Cons.prems(2) by auto
qed simp

lemma subsidy_of_bounds:
  assumes "fees \<le> MAX_MONEY" "coinbase_total \<le> MAX_MONEY" "reward \<le> MAX_MONEY" "\<not> coinbase_total > reward + fees"
  shows "unat coinbase_total \<le> unat (subsidy_of True reward fees coinbase_total) + unat fees"
    "subsidy_of True reward fees coinbase_total \<le> reward"
proof -
  have b: "unat fees \<le> 10 ^ 16" "unat coinbase_total \<le> 10 ^ 16" "unat reward \<le> 10 ^ 16"
    using assms(1-3) by (simp_all add: word_le_nat_alt)
  have le: "unat coinbase_total \<le> unat reward + unat fees"
    using assms(4) b by (simp add: not_less word_le_nat_alt unat_add_no_wrap)
  have "unat (subsidy_of True reward fees coinbase_total) = min (unat reward) (unat coinbase_total - min (unat fees) (unat coinbase_total))"
    using b by (simp add: subsidy_of_def Let_def sint_small unat_sat_sub min_def word_le_nat_alt flip: word_le_def)
  then show "unat coinbase_total \<le> unat (subsidy_of True reward fees coinbase_total) + unat fees"
    "subsidy_of True reward fees coinbase_total \<le> reward"
    using le by (simp_all add: word_le_nat_alt)
qed

lemma subsidy_of_covers:
  assumes "fees \<le> MAX_MONEY" "coinbase_total \<le> MAX_MONEY"
    and "enf \<longrightarrow> reward \<le> MAX_MONEY \<and> \<not> coinbase_total > reward + fees"
  shows "unat coinbase_total \<le> unat (subsidy_of enf reward fees coinbase_total) + unat fees"
proof (cases enf)
  case True
  then show ?thesis using subsidy_of_bounds(1) [OF assms(1,2)] assms(3) by simp
next
  case False
  have "unat fees < 2 ^ 63" "unat coinbase_total < 2 ^ 63" using assms(1,2) by (simp_all add: word_le_nat_alt)
  then show ?thesis using False
    by (simp add: subsidy_of_def Let_def sint_small unat_sat_sub word_le_nat_alt flip: word_le_def)
qed

lemma coinbase_created_value:
  "(\<Sum>(op, out, cb) \<leftarrow> coinbase_created tid outs. coin_value out) = (\<Sum>out \<leftarrow> outs. coin_value out)"
  "(op, out, cb) \<in> set (coinbase_created tid outs) \<Longrightarrow> out \<in> set outs"
proof -
  have "(\<Sum>(op, out, cb) \<leftarrow> coinbase_created tid outs. coin_value out) = (\<Sum>x \<leftarrow> List.enumerate 0 outs. coin_value (snd x))"
    by (simp add: coinbase_created_def o_def case_prod_beta)
  also have "\<dots> = (\<Sum>out \<leftarrow> map snd (List.enumerate 0 outs). coin_value out)" by (simp add: o_def del: map_snd_enumerate)
  finally show "(\<Sum>(op, out, cb) \<leftarrow> coinbase_created tid outs. coin_value out) = (\<Sum>out \<leftarrow> outs. coin_value out)" by simp
  show "(op, out, cb) \<in> set (coinbase_created tid outs) \<Longrightarrow> out \<in> set outs"
    by (auto simp: coinbase_created_def in_set_enumerate_eq)
qed

lemma created_coin_le: "(\<Sum>(op, out, cb) \<leftarrow> cs. coin_value out) \<le> created_value cs"
  by (induction cs) (use coin_value_le in \<open>auto intro: add_mono\<close>)

text \<open>What an accepted block did, in terms of its loops.\<close>

lemma validate_and_apply_cases:
  assumes "validate_and_apply_transactions nd blk reward h enf maxs s = (Inr (fees, tot, subsidy, undo), s')"
  obtains coinbase txs ap s1 cb s2 where
    "transactions blk = coinbase # txs"
    "foldS (apply_tx nd h (hdr_time (header blk))) txs start_apply s = (Inr ap, s1)"
    "foldS (apply_coinbase_output nd h (hdr_time (header blk))) (outputs coinbase)
       \<lparr>cb_apply = ap, cb_total = 0, cb_btc_count = 0, cb_ltc_count = 0\<rparr> s1 = (Inr cb, s2)"
    "finish_block nd coinbase reward h enf maxs cb s2 = (Inr (fees, tot, subsidy, undo), s')"
  using assms
  by (auto simp: validate_and_apply_transactions_def bindS_eq_Inr liftE_eq_Inr split: list.split_asm if_split_asm)

lemma block_conserves_coins:
  assumes v: "validate_and_apply_transactions nd blk reward h enf maxs s = (Inr (fees, tot, subsidy, undo), s')"
    and "\<forall>tx \<in> set (tl (transactions blk)). tx_counts_ok tx" "coins_ok (ch_utxos s)" "enf \<longrightarrow> reward \<le> MAX_MONEY"
  shows "coins_ok (ch_utxos s') \<and> coin_supply (ch_utxos s') \<le> coin_supply (ch_utxos s) + unat subsidy \<and>
    (enf \<longrightarrow> subsidy \<le> reward) \<and> (\<forall>m. maxs = Some m \<longrightarrow> subsidy \<le> m)"
proof -
  obtain coinbase txs ap s1 cb s2 where b: "transactions blk = coinbase # txs"
    and txs: "foldS (apply_tx nd h (hdr_time (header blk))) txs start_apply s = (Inr ap, s1)"
    and cbl: "foldS (apply_coinbase_output nd h (hdr_time (header blk))) (outputs coinbase)
       \<lparr>cb_apply = ap, cb_total = 0, cb_btc_count = 0, cb_ltc_count = 0\<rparr> s1 = (Inr cb, s2)"
    and fin: "finish_block nd coinbase reward h enf maxs cb s2 = (Inr (fees, tot, subsidy, undo), s')"
    using v by (rule validate_and_apply_cases)
  have inv: "apply_inv s ap s1" using apply_txs_inv [OF txs] assms(2,3) b by simp
  then have fr: "same_but_relays s s2"
    using foldS_frames(2) [of s1 nd h "hdr_time (header blk)" "outputs coinbase"] cbl
    by (metis apply_inv_def same_but_relays_trans snd_conv)
  note u = same_but_relaysD(2) [OF fr]
  let ?tt = "ap_totals ap" and ?cbs = "coinbase_created (txid (nd_sha nd) coinbase) (outputs coinbase)"
  have cb: "ap_totals (cb_apply cb) = ?tt" "ap_created (cb_apply cb) = ap_created ap"
    "(\<Sum>out \<leftarrow> outputs coinbase. coin_value out) \<le> unat (cb_total cb)" "cb_total cb \<le> MAX_MONEY"
    "\<forall>out \<in> set (outputs coinbase). coin_value out \<le> unat MAX_MONEY"
    using coinbase_outputs_Inr [OF cbl] by simp_all
  have f: "enf \<longrightarrow> \<not> cb_total cb > reward + tt_fees ?tt" "subsidy = subsidy_of enf reward (tt_fees ?tt) (cb_total cb)"
    "\<forall>m. maxs = Some m \<longrightarrow> subsidy \<le> m" "s' = commit_block h ?tt (ap_created ap @ ?cbs) s2"
    using fin cb(1,2) by (auto simp: finish_block_def Let_def not_less split: if_split_asm option.split_asm)
  have utxos: "ch_utxos s' = fold (insert_created h) (ap_created ap @ ?cbs) (fold (\<lambda>key m. m(key := None)) (tt_seen ?tt) (ch_utxos s))"
    using f(4) u by (simp add: commit_block_def)
  have i: "distinct (tt_seen ?tt)" "\<forall>k \<in> set (tt_seen ?tt). \<exists>e. ch_utxos s k = Some e \<and> spendable (ut_output e)"
    "tt_fees ?tt \<le> MAX_MONEY" "\<forall>(op, out, c) \<in> set (ap_created ap). out_value out \<le> MAX_MONEY"
    "(\<Sum>k \<leftarrow> tt_seen ?tt. unat (entry_value (ch_utxos s) k)) = created_value (ap_created ap) + unat (tt_fees ?tt)"
    using inv by (auto simp: apply_inv_def inputs_ok_def)
  have fin_dom: "finite (dom (ch_utxos s))" using assms(3) by (simp add: coins_ok_def)
  have "(\<Sum>k \<leftarrow> tt_seen ?tt. coin_value (ut_output (the (ch_utxos s k)))) = (\<Sum>k \<leftarrow> tt_seen ?tt. unat (entry_value (ch_utxos s) k))"
    using i(2) by (intro arg_cong [of _ _ sum_list] map_cong) (auto simp: coin_value_def)
  then have "coin_supply (ch_utxos s) = coin_supply (fold (\<lambda>key m. m(key := None)) (tt_seen ?tt) (ch_utxos s)) +
      (created_value (ap_created ap) + unat (tt_fees ?tt))"
    using supply_delete_list [OF fin_dom i(1)] i(2,5) by auto
  moreover have "coin_supply (ch_utxos s') \<le> coin_supply (fold (\<lambda>key m. m(key := None)) (tt_seen ?tt) (ch_utxos s)) +
      (created_value (ap_created ap) + (\<Sum>out \<leftarrow> outputs coinbase. coin_value out))"
    using supply_insert_list [OF fold_delete_dom [OF fin_dom], of h "ap_created ap @ ?cbs" "tt_seen ?tt"]
      created_coin_le [of "ap_created ap"] coinbase_created_value(1) [of "txid (nd_sha nd) coinbase" "outputs coinbase"]
    unfolding utxos by simp
  ultimately have "coin_supply (ch_utxos s') \<le> coin_supply (ch_utxos s) + unat subsidy"
    unfolding f(2) using subsidy_of_covers [OF i(3) cb(4), of enf reward] assms(4) f(1) cb(3) by linarith
  moreover have "coin_value out \<le> unat MAX_MONEY" if "(op, out, c) \<in> set (ap_created ap @ ?cbs)" for op out c
    using that i(4) cb(5) coinbase_created_value(2) coin_value_le [of out] by (fastforce simp: word_le_nat_alt)
  then have "coins_ok (ch_utxos s')" unfolding utxos by (intro coins_ok_commit [OF assms(3)]) auto
  ultimately show ?thesis using subsidy_of_bounds(2) [OF i(3) cb(4), of reward] assms(4) f(1,2,3) by auto
qed

section \<open>The relays during a block\<close>

text \<open>
  While a block is applied, each relay is consistent and either untouched or restored by the one
  update recorded for it.
\<close>

definition relays_ok :: "node \<Rightarrow> ('r, 'p) ChainState \<Rightarrow> bool" where
  "relays_ok nd s \<longleftrightarrow> relay_ok (nd_sha nd) (btc_anchor (ch_params s)) (ch_btc s) \<and>
     relay_ok (nd_sha nd) (ltc_anchor (ch_params s)) (ch_ltc s)"

definition relays_inv :: "node \<Rightarrow> ('r, 'p) ChainState \<Rightarrow> apply_st \<Rightarrow> ('r, 'p) ChainState \<Rightarrow> bool" where
  "relays_inv nd s0 ap s \<longleftrightarrow> relays_ok nd s \<and>
     (case ap_btc_update ap of None \<Rightarrow> ch_btc s = ch_btc s0 | Some u \<Rightarrow> undo_btc_relay_update u (ch_btc s) = ch_btc s0) \<and>
     (case ap_ltc_update ap of None \<Rightarrow> ch_ltc s = ch_ltc s0 | Some u \<Rightarrow> undo_ltc_relay_update u (ch_ltc s) = ch_ltc s0)"

definition counts_inv :: "apply_st \<Rightarrow> bool" where
  "counts_inv ap \<longleftrightarrow> (ap_btc_count ap = 0 \<longrightarrow> ap_btc_update ap = None) \<and> (ap_ltc_count ap = 0 \<longrightarrow> ap_ltc_update ap = None)"

lemma apply_btc_batch_Inr:
  assumes "apply_btc_batch nd t hs s = (Inr u, s')" "relays_inv nd s0 ap s" "ap_btc_update ap = None"
  shows "relays_inv nd s0 (ap\<lparr>ap_btc_update := Some u\<rparr>) s'"
proof -
  obtain r where r: "apply_btc_header_batch (nd_sha nd) hs t (ch_btc s) (btc_anchor (ch_params s)) = Inr (r, u)"
    "s' = s\<lparr>ch_btc := r\<rparr>"
    using assms(1) by (auto simp: apply_btc_batch_def split: sum.split_asm)
  have ok: "relay_ok (nd_sha nd) (btc_anchor (ch_params s)) (ch_btc s)"
    using assms(2) by (simp add: relays_inv_def relays_ok_def)
  show ?thesis
    using btc_relay.extend_ok [OF r(1) ok] btc_relay.extend_undo [OF r(1) btc_relay.relay_ok_dom [OF ok]] assms(2,3)
    by (simp add: relays_inv_def relays_ok_def r(2) cong: option.case_cong)
qed

lemma apply_ltc_batch_Inr:
  assumes "apply_ltc_batch nd t hs s = (Inr u, s')" "relays_inv nd s0 ap s" "ap_ltc_update ap = None"
  shows "relays_inv nd s0 (ap\<lparr>ap_ltc_update := Some u\<rparr>) s'"
proof -
  obtain r where r: "apply_ltc_header_batch (nd_kdf nd) (nd_sha nd) hs t (ch_ltc s) (ltc_anchor (ch_params s))
      (ltc_retarget_params (ch_params s)) = Inr (r, u)" "s' = s\<lparr>ch_ltc := r\<rparr>"
    using assms(1) by (auto simp: apply_ltc_batch_def split: sum.split_asm)
  have ok: "relay_ok (nd_sha nd) (ltc_anchor (ch_params s)) (ch_ltc s)"
    using assms(2) by (simp add: relays_inv_def relays_ok_def)
  show ?thesis
    using ltc_relay.extend_ok [OF r(1) ok] ltc_relay.extend_undo [OF r(1) ltc_relay.relay_ok_dom [OF ok]] assms(2,3)
    by (simp add: relays_inv_def relays_ok_def r(2) cong: option.case_cong)
qed

lemma apply_batch_Inl:
  "apply_btc_batch nd t hs s = (Inl e, s') \<Longrightarrow> s' = s"
  "apply_ltc_batch nd t hs s = (Inl e, s') \<Longrightarrow> s' = s"
  by (auto simp: apply_btc_batch_def apply_ltc_batch_def split: sum.split_asm)

text \<open>The invariant does not look at the other fields of the running state.\<close>

lemma relays_inv_cong:
  "ap_btc_update ap' = ap_btc_update ap \<Longrightarrow> ap_ltc_update ap' = ap_ltc_update ap \<Longrightarrow>
    relays_inv nd s0 ap' s = relays_inv nd s0 ap s"
  by (simp add: relays_inv_def)

lemma apply_tx_output_relays:
  assumes "apply_tx_output nd h t tid x ap s = (Inr ap', s')" "relays_inv nd s0 ap s \<and> counts_inv ap"
  shows "relays_inv nd s0 ap' s' \<and> counts_inv ap'"
proof -
  obtain n out where x: "x = (n, out)" by (cases x)
  consider (btc) u hs where "apply_btc_batch nd t hs s = (Inr u, s')" "ap_btc_count ap = 0"
      "ap' = ap\<lparr>ap_btc_update := Some u, ap_btc_count := ap_btc_count ap + 1\<rparr>"
    | (ltc) u hs where "apply_ltc_batch nd t hs s = (Inr u, s')" "ap_ltc_count ap = 0"
      "ap' = ap\<lparr>ap_ltc_update := Some u, ap_ltc_count := ap_ltc_count ap + 1\<rparr>"
    | (other) c where "ap' = ap\<lparr>ap_created := c\<rparr>" "s' = s"
    using assms(1) by (auto simp: apply_tx_output_def x bindS_eq_Inr liftE_eq_Inr split: if_split_asm)
  then show ?thesis
  proof cases
    case btc
    then have "relays_inv nd s0 (ap\<lparr>ap_btc_update := Some u\<rparr>) s'"
      using assms(2) by (intro apply_btc_batch_Inr) (auto simp: counts_inv_def)
    then show ?thesis using btc(3) assms(2) by (simp add: relays_inv_def counts_inv_def)
  next
    case ltc
    then have "relays_inv nd s0 (ap\<lparr>ap_ltc_update := Some u\<rparr>) s'"
      using assms(2) by (intro apply_ltc_batch_Inr) (auto simp: counts_inv_def)
    then show ?thesis using ltc(3) assms(2) by (simp add: relays_inv_def counts_inv_def)
  next
    case other
    then show ?thesis using assms(2) by (simp add: relays_inv_def counts_inv_def)
  qed
qed

lemma apply_tx_relays:
  assumes "apply_tx nd h t tx ap s = (Inr ap', s')" "relays_inv nd s0 ap s \<and> counts_inv ap"
  shows "relays_inv nd s0 ap' s' \<and> counts_inv ap'"
proof -
  obtain tt where "foldS (apply_tx_output nd h t (txid (nd_sha nd) tx)) (List.enumerate 0 (outputs tx))
      (ap\<lparr>ap_totals := tt\<rparr>) s = (Inr ap', s')"
    using assms(1) by (auto simp: apply_tx_def bindS_eq_Inr liftE_eq_Inr)
  then show ?thesis
  proof (rule foldS_invariant [where I = "\<lambda>ap s. relays_inv nd s0 ap s \<and> counts_inv ap"])
    show "relays_inv nd s0 (ap\<lparr>ap_totals := tt\<rparr>) s \<and> counts_inv (ap\<lparr>ap_totals := tt\<rparr>)"
      using assms(2) by (simp add: relays_inv_def counts_inv_def)
  qed (rule apply_tx_output_relays)
qed

lemma apply_txs_relays:
  assumes "foldS (apply_tx nd h t) txs start_apply s0 = (Inr ap, s)" "relays_ok nd s0"
  shows "relays_inv nd s0 ap s"
proof -
  have "relays_inv nd s0 ap s \<and> counts_inv ap"
    by (rule foldS_invariant [OF assms(1), where I = "\<lambda>ap s. relays_inv nd s0 ap s \<and> counts_inv ap"])
      (use assms(2) in \<open>auto simp: relays_inv_def counts_inv_def start_apply_def dest: apply_tx_relays\<close>)
  then show ?thesis ..
qed

lemma soft_btc_batch_relays:
  assumes "soft_btc_batch nd t script ap s = (Inr ap', s')" "relays_inv nd s0 ap s" "ap_btc_update ap = None"
  shows "relays_inv nd s0 ap' s'"
proof -
  obtain hs where h: "(case apply_btc_batch nd t hs s of
       (Inr update, s') \<Rightarrow> (Inr (ap\<lparr>ap_btc_update := Some update\<rparr>), s')
     | (Inl e, s') \<Rightarrow> if coinbase_carrier_soft_apply_error e then (Inr ap, s') else (Inl e, s')) = (Inr ap', s')"
    using assms(1) by (auto simp: soft_btc_batch_def bindS_eq_Inr liftE_eq_Inr)
  obtain res s1 where r: "apply_btc_batch nd t hs s = (res, s1)" by fastforce
  show ?thesis
  proof (cases res)
    case (Inl e)
    then show ?thesis using h r apply_batch_Inl(1) [of nd t hs s e s1] assms(2) by (auto split: if_split_asm)
  next
    case (Inr u)
    then show ?thesis using h r apply_btc_batch_Inr [of nd t hs s u s1] assms(2,3) by auto
  qed
qed

lemma soft_ltc_batch_relays:
  assumes "soft_ltc_batch nd t script ap s = (Inr ap', s')" "relays_inv nd s0 ap s" "ap_ltc_update ap = None"
  shows "relays_inv nd s0 ap' s'"
proof -
  obtain hs where h: "(case apply_ltc_batch nd t hs s of
       (Inr update, s') \<Rightarrow> (Inr (ap\<lparr>ap_ltc_update := Some update\<rparr>), s')
     | (Inl e, s') \<Rightarrow> if coinbase_carrier_soft_apply_error e then (Inr ap, s') else (Inl e, s')) = (Inr ap', s')"
    using assms(1) by (auto simp: soft_ltc_batch_def bindS_eq_Inr liftE_eq_Inr)
  obtain res s1 where r: "apply_ltc_batch nd t hs s = (res, s1)" by fastforce
  show ?thesis
  proof (cases res)
    case (Inl e)
    then show ?thesis using h r apply_batch_Inl(2) [of nd t hs s e s1] assms(2) by (auto split: if_split_asm)
  next
    case (Inr u)
    then show ?thesis using h r apply_ltc_batch_Inr [of nd t hs s u s1] assms(2,3) by auto
  qed
qed

lemma apply_coinbase_output_relays:
  assumes "apply_coinbase_output nd h t out cb s = (Inr cb', s')" "relays_inv nd s0 (cb_apply cb) s"
  shows "relays_inv nd s0 (cb_apply cb') s'"
proof -
  consider (btc) "soft_btc_batch nd t (script_pubkey out) (cb_apply cb) s = (Inr (cb_apply cb'), s')"
      "ap_btc_update (cb_apply cb) = None"
    | (ltc) "soft_ltc_batch nd t (script_pubkey out) (cb_apply cb) s = (Inr (cb_apply cb'), s')"
      "ap_ltc_update (cb_apply cb) = None"
    | (other) "cb_apply cb' = cb_apply cb" "s' = s"
    using assms(1)
    by (auto simp: apply_coinbase_output_def Let_def bindS_eq_Inr liftE_eq_Inr split: if_split_asm option.split_asm)
  then show ?thesis
    using assms(2) by cases (auto intro: soft_btc_batch_relays soft_ltc_batch_relays)
qed

lemma coinbase_outputs_relays:
  assumes "foldS (apply_coinbase_output nd h t) outs cb s = (Inr cb', s')" "relays_inv nd s0 (cb_apply cb) s"
  shows "relays_inv nd s0 (cb_apply cb') s'"
  by (rule foldS_invariant [OF assms(1), where I = "\<lambda>cb s. relays_inv nd s0 (cb_apply cb) s"])
    (use assms(2) apply_coinbase_output_relays in auto)

end
