(* ===== verification/Chain.thy ===== *)
theory Chain
  imports Ledger
begin

text \<open>
  The chain (\<open>src/src/chain.rs\<close>): header validation, connecting and disconnecting blocks, fork
  choice and reorganisation, the header tree and the orphan pool. The current time is an argument.
  The PoAW-X checks and state changes that \<open>connect_block\<close> and \<open>disconnect_tip_block\<close> call are the
  argument record \<open>poawx\<close>: the theorems hold for every choice of it. Loops that follow parent links
  take fuel.
\<close>

unbundle bit_operations_syntax

section \<open>Hashes and proof of work\<close>

definition swap4_bytes_each_word :: "bytes \<Rightarrow> bytes" where
  "swap4_bytes_each_word input =
     concat (map (\<lambda>i. let j = i * 4 in [input ! (j + 3), input ! (j + 2), input ! (j + 1), input ! j]) [0..<8])"

abbreviation block_hash_at :: "node \<Rightarrow> BlockHeader \<Rightarrow> u64 \<Rightarrow> bytes" where
  "block_hash_at nd h height \<equiv> hash_for_height (nd_sha nd) (nd_header_activation nd) h height"

definition whatsminer_compat_pow_hash_for_height :: "node \<Rightarrow> BlockHeader \<Rightarrow> u64 \<Rightarrow> bytes option" where
  "whatsminer_compat_pow_hash_for_height nd h height =
     (if height < nd_header_activation nd then None
      else
        let prev_natural = rev (hdr_prev_hash h);
            prev_whatsminer = swap4_bytes_each_word prev_natural;
            ser = u32_le (hdr_version h) @ prev_whatsminer @ hdr_merkle_root h @ u32_le (hdr_time h) @
                  u32_le (hdr_bits h) @ u32_le (hdr_nonce h)
        in Some (rev (sha256d (nd_sha nd) ser)))"

text \<open>The check both \<open>validate_block_header\<close> and \<open>process_block\<close> write out, with their own messages.\<close>

definition check_pow ::
  "node \<Rightarrow> 'r ChainParams \<Rightarrow> 'r Block \<Rightarrow> u64 \<Rightarrow> bytes \<Rightarrow> Target \<Rightarrow> string \<Rightarrow> err + unit" where
  "check_pow nd params blk height h t msg =
     (if hdr_version (header blk) AND AUXPOW_VERSION_BIT \<noteq> 0 \<and> reached (auxpow_activation_height params) height then
        (case auxpow blk of
           None \<Rightarrow> Inl (Err ''AuxPoW block is missing AuxPoW data'')
         | Some ap \<Rightarrow>
             validate (nd_sha nd) ap (serialize_for_height (nd_header_activation nd) (header blk) height) t)
      else if \<not> meets_target h t \<and>
        \<not> (case whatsminer_compat_pow_hash_for_height nd (header blk) height of
             Some h \<Rightarrow> meets_target h t | None \<Rightarrow> False) then Inl (Err msg)
      else Inr ())"

abbreviation (input) MAX_FUTURE_BLOCK_TIME :: int where "MAX_FUTURE_BLOCK_TIME \<equiv> 7200"

definition validate_block_header ::
  "node \<Rightarrow> int \<Rightarrow> ('r, 'p) ChainState \<Rightarrow> 'r Block \<Rightarrow> u64 \<Rightarrow> 'r Block option \<Rightarrow> err + unit" where
  "validate_block_header nd now s blk height previous =
     bindE (case previous of
              Some prev \<Rightarrow>
                ensure (hdr_prev_hash (header blk) = block_hash_at nd (header prev) (sat_sub height 1))
                  (Err ''Block does not extend the current tip'')
            | None \<Rightarrow>
                ensure (hdr_prev_hash (header blk) = replicate 32 0)
                  (Err ''Genesis block must reference null hash'')) (\<lambda>_.
     bindE (ensure (\<not> int (unat (hdr_time (header blk))) > now + MAX_FUTURE_BLOCK_TIME)
              (Err ''Block timestamp too far in future'')) (\<lambda>_.
     bindE (if height \<ge> MTP_ACTIVATION_HEIGHT then
              ensure (\<not> hdr_time (header blk) \<le> median_time_past (ch_chain s))
                (Err ''Block timestamp must be greater than median time past'')
            else
              (case previous of
                 Some prev \<Rightarrow>
                   ensure (\<not> hdr_time (header blk) \<le> hdr_time (header prev))
                     (Err ''Block timestamp must be greater than previous block'')
               | None \<Rightarrow> Inr ())) (\<lambda>_.
     bindE (if height > 0 then
              ensure (hdr_merkle_root (header blk) = merkle_root (nd_sha nd) blk) (Err ''Block merkle root mismatch'')
            else Inr ()) (\<lambda>_.
     bindE (target_for_height (nd_env nd) (ch_params s) (ch_chain s) height) (\<lambda>t.
     bindE (ensure (target (header blk) = t) (Err ''Block bits mismatch'')) (\<lambda>_.
     check_pow nd (ch_params s) blk height (block_hash_at nd (header blk) height) t
       ''Block does not satisfy proof-of-work target''))))))"

section \<open>Caches\<close>

definition tip_height :: "('r, 'p) ChainState \<Rightarrow> u64" where
  "tip_height s = sat_sub (ch_height s) 1"

definition env_window :: "environ \<Rightarrow> string \<Rightarrow> u64 \<Rightarrow> u64" where
  "env_window env name dflt =
     min (case Option.bind (env name) parse_u64 of Some v \<Rightarrow> v | None \<Rightarrow> dflt) 200000"

definition header_cache_window :: "environ \<Rightarrow> u64" where
  "header_cache_window env = env_window env ''IRIUM_HEADER_CACHE_WINDOW'' 10000"

definition block_store_window :: "environ \<Rightarrow> u64" where
  "block_store_window env = env_window env ''IRIUM_BLOCK_STORE_WINDOW'' 5000"

definition prune_header_cache :: "node \<Rightarrow> ('r, 'p) ChainState \<Rightarrow> ('r, 'p) ChainState" where
  "prune_header_cache nd s =
     (let window = header_cache_window (nd_env nd); tip = tip_height s
      in if window = 0 \<or> tip \<le> window then s
         else
           let min_height = sat_sub tip window;
               hs = filter (\<lambda>(_, hw). hw_height hw \<ge> min_height) (ch_headers s)
           in s\<lparr>ch_headers := hs, ch_header_chain := filter (\<lambda>h. map_of hs h \<noteq> None) (ch_header_chain s)\<rparr>)"

text \<open>\<open>chain.get(h as usize)\<close> and whether the main chain has a given hash at a height.\<close>

definition chain_at :: "'r Block list \<Rightarrow> u64 \<Rightarrow> 'r Block option" where
  "chain_at chain h = (if unat h < length chain then Some (chain ! unat h) else None)"

definition on_chain_at :: "node \<Rightarrow> 'r Block list \<Rightarrow> bytes \<Rightarrow> u64 \<Rightarrow> bool" where
  "on_chain_at nd chain h height =
     (case chain_at chain height of Some b \<Rightarrow> block_hash_at nd (header b) height = h | None \<Rightarrow> False)"

definition prune_block_store :: "node \<Rightarrow> ('r, 'p) ChainState \<Rightarrow> ('r, 'p) ChainState" where
  "prune_block_store nd s =
     (let window = block_store_window (nd_env nd); tip = tip_height s
      in if window = 0 \<or> tip \<le> window then s
         else
           let min_height = sat_sub tip window
           in s\<lparr>ch_block_store := (\<lambda>h.
                 case ch_heights s h of
                   Some ht \<Rightarrow> if ht \<le> min_height \<and> on_chain_at nd (ch_chain s) h ht then None else ch_block_store s h
                 | None \<Rightarrow> ch_block_store s h)\<rparr>)"

definition prune_caches :: "node \<Rightarrow> ('r, 'p) ChainState \<Rightarrow> ('r, 'p) ChainState" where
  "prune_caches nd s = prune_block_store nd (prune_header_cache nd s)"

definition orphan_pool_size :: "('r, 'p) ChainState \<Rightarrow> nat" where
  "orphan_pool_size s = (\<Sum>(_, blocks) \<leftarrow> ch_orphan_pool s. length blocks)"

abbreviation (input) MAX_ORPHAN_BLOCKS :: nat where "MAX_ORPHAN_BLOCKS \<equiv> 100"

text \<open>Pruning removes whole buckets, in the map's own order, until the pool is within its bound.\<close>

fun prune_pool :: "(bytes \<times> 'r Block list) list \<Rightarrow> (bytes \<times> 'r Block list) list" where
  "prune_pool [] = []"
| "prune_pool ((parent, blocks) # pool) =
     (if (\<Sum>(_, bs) \<leftarrow> (parent, blocks) # pool. length bs) > MAX_ORPHAN_BLOCKS then prune_pool pool
      else (parent, blocks) # pool)"

definition prune_orphan_pool :: "('r, 'p) ChainState \<Rightarrow> ('r, 'p) ChainState" where
  "prune_orphan_pool s = s\<lparr>ch_orphan_pool := prune_pool (ch_orphan_pool s)\<rparr>"

definition clear_orphan_pool :: "('r, 'p) ChainState \<Rightarrow> nat \<times> ('r, 'p) ChainState" where
  "clear_orphan_pool s = (orphan_pool_size s, s\<lparr>ch_orphan_pool := []\<rparr>)"

definition block_by_hash :: "('r, 'p) ChainState \<Rightarrow> bytes \<Rightarrow> 'r Block option" where
  "block_by_hash s h =
     (case ch_block_store s h of
        Some b \<Rightarrow> Some b
      | None \<Rightarrow> (case ch_heights s h of Some ht \<Rightarrow> chain_at (ch_chain s) ht | None \<Rightarrow> None))"

section \<open>Connecting and disconnecting blocks\<close>

text \<open>
  The PoAW-X part of block processing: the checks before a block is applied, the state changes after
  it (with the decay of the reorganisation signal), whether its finality proof has a quorum, the
  reversal, and the proposer-rank fork choice.
\<close>

record ('r, 'p) poawx =
  px_check :: "('r, 'p) ChainState \<Rightarrow> 'r Block \<Rightarrow> u64 \<Rightarrow> err + unit"
  px_apply :: "('r, 'p) ChainState \<Rightarrow> u64 \<Rightarrow> 'p \<times> u32"
  px_quorum :: "('r, 'p) ChainState \<Rightarrow> u64 \<Rightarrow> bool"
  px_revert :: "('r, 'p) ChainState \<Rightarrow> 'r Block \<Rightarrow> u64 \<Rightarrow> 'p"
  px_better :: "('r, 'p) ChainState \<Rightarrow> bytes \<Rightarrow> err + bool"

definition advance_finalized ::
  "('r, 'p) poawx \<Rightarrow> node \<Rightarrow> u64 \<Rightarrow> ('r, 'p) ChainState \<Rightarrow> ('r, 'p) ChainState" where
  "advance_finalized px nd height s =
     (if finality_committee_enforced (nd_env nd) height then
        let genuine = (if fork_choice_hardening_active (nd_env nd) height then px_quorum px s height else True)
        in if genuine then s\<lparr>ch_finalized_height := max (ch_finalized_height s) (sat_sub height 1)\<rparr> else s
      else s)"

definition push_block ::
  "node \<Rightarrow> 'r Block \<Rightarrow> u64 \<Rightarrow> u64 \<Rightarrow> BlockUndo \<Rightarrow> ('r, 'p) ChainState \<Rightarrow> ('r, 'p) ChainState" where
  "push_block nd blk height new_supply undo s =
     (let total_work = ch_total_work s + block_work blk; h = block_hash_at nd (header blk) height
      in s\<lparr>ch_total_work := total_work, ch_chain := ch_chain s @ [blk], ch_height := ch_height s + 1,
           ch_issued := new_supply, ch_block_store := (ch_block_store s)(h \<mapsto> blk),
           ch_heights := (ch_heights s)(h \<mapsto> height),
           ch_cumulative_work := (ch_cumulative_work s)(h \<mapsto> total_work),
           ch_undo_logs := (ch_undo_logs s)(h \<mapsto> undo), ch_best_tip := h\<rparr>)"

definition finish_connect ::
  "('r, 'p) poawx \<Rightarrow> node \<Rightarrow> 'r Block \<Rightarrow> u64 \<Rightarrow> u64 \<Rightarrow> BlockUndo \<Rightarrow> ('r, 'p) ChainState \<Rightarrow> ('r, 'p) ChainState" where
  "finish_connect px nd blk height new_supply undo s =
     (let s1 = push_block nd blk height new_supply undo s;
          (p, signal) = px_apply px s1 height
      in prune_caches nd (advance_finalized px nd height (s1\<lparr>ch_poawx := p, ch_reorg_signal := signal\<rparr>)))"

definition last_block :: "'r Block list \<Rightarrow> 'r Block option" where
  "last_block chain = (if chain = [] then None else Some (last chain))"

text \<open>A vector of blocks has fewer than \<open>isize::MAX\<close> elements; pushing beyond that panics.\<close>

abbreviation (input) MAX_VEC_LEN :: nat where "MAX_VEC_LEN \<equiv> 2 ^ 63 - 1"

definition connect_block ::
  "('r, 'p) poawx \<Rightarrow> node \<Rightarrow> int \<Rightarrow> 'r Block \<Rightarrow> ('r, 'p) ChainState \<Rightarrow> (err + unit) \<times> ('r, 'p) ChainState" where
  "connect_block px nd now blk s =
     (let expected_height = ch_height s in
      if length (ch_chain s) \<ge> MAX_VEC_LEN then (Inl Panic, s) else
      bindS (liftE (validate_block_header nd now s blk expected_height (last_block (ch_chain s)))) (\<lambda>_.
      bindS (liftE (px_check px s blk expected_height)) (\<lambda>_.
      bindS (validate_and_apply_transactions nd blk (block_reward (nd_env nd) expected_height) expected_height True
               (Some (MAX_MONEY - ch_issued s))) (\<lambda>(_, _, subsidy_created, undo) s.
      case checked_add (ch_issued s) subsidy_created of
        None \<Rightarrow> (Inl (Err ''Supply overflow''), s)
      | Some new_supply \<Rightarrow> (Inr (), finish_connect px nd blk expected_height new_supply undo s)))) s)"

definition undo_ledger :: "BlockUndo \<Rightarrow> ('r, 'p) ChainState \<Rightarrow> ('r, 'p) ChainState" where
  "undo_ledger undo s =
     s\<lparr>ch_claimed_btc := ch_claimed_btc s - set (un_claimed_btc_added undo),
       ch_btc := (case un_btc_relay_update undo of Some u \<Rightarrow> undo_btc_relay_update u (ch_btc s) | None \<Rightarrow> ch_btc s),
       ch_ltc := (case un_ltc_relay_update undo of Some u \<Rightarrow> undo_ltc_relay_update u (ch_ltc s) | None \<Rightarrow> ch_ltc s),
       ch_claimed_ltc := ch_claimed_ltc s - set (un_claimed_ltc_added undo),
       ch_utxos := fold (\<lambda>(op, entry) m. m(op \<mapsto> entry)) (un_spent undo)
                     (fold (\<lambda>op m. m(op := None)) (un_created undo) (ch_utxos s)),
       ch_issued := sat_sub (ch_issued s) (un_subsidy_created undo)\<rparr>"

definition pop_block :: "node \<Rightarrow> 'r Block \<Rightarrow> ('r, 'p) ChainState \<Rightarrow> ('r, 'p) ChainState" where
  "pop_block nd tip_block s =
     (let work = block_work tip_block;
          chain = butlast (ch_chain s); height = word_of_nat (length chain); new_tip_height = sat_sub height 1
      in s\<lparr>ch_total_work := (if ch_total_work s \<ge> work then ch_total_work s - work else 0),
           ch_chain := chain, ch_height := height,
           ch_finalized_height := min (ch_finalized_height s) (sat_sub new_tip_height 1),
           ch_best_tip := (case last_block chain of
              Some b \<Rightarrow> block_hash_at nd (header b) new_tip_height | None \<Rightarrow> replicate 32 0)\<rparr>)"

definition disconnect_tip_block ::
  "('r, 'p) poawx \<Rightarrow> node \<Rightarrow> ('r, 'p) ChainState \<Rightarrow> (err + 'r Block) \<times> ('r, 'p) ChainState" where
  "disconnect_tip_block px nd s =
     (case last_block (ch_chain s) of
        None \<Rightarrow> (Inl (Err ''cannot disconnect empty chain''), s)
      | Some tip_block \<Rightarrow>
          if length (ch_chain s) \<le> 1 then (Inl (Err ''cannot disconnect genesis''), s)
          else
            let tip_height = sat_sub (ch_height s) 1; tip_hash = block_hash_at nd (header tip_block) tip_height
            in case ch_undo_logs s tip_hash of
                 None \<Rightarrow> (Inl (Err ''missing undo data for tip block''), s)
               | Some undo \<Rightarrow>
                   let s1 = pop_block nd tip_block
                              (undo_ledger undo (s\<lparr>ch_undo_logs := (ch_undo_logs s)(tip_hash := None)\<rparr>))
                   in (Inr tip_block,
                       s1\<lparr>ch_poawx := px_revert px s1 tip_block tip_height,
                          ch_reorg_signal := sat_add (ch_reorg_signal s1) 1\<rparr>))"

definition connect_genesis ::
  "node \<Rightarrow> int \<Rightarrow> 'r Block \<Rightarrow> ('r, 'p) ChainState \<Rightarrow> (err + unit) \<times> ('r, 'p) ChainState" where
  "connect_genesis nd now blk s =
     (if ch_chain s \<noteq> [] then (Inl (Err ''Genesis block already connected''), s)
      else
        bindS (liftE (validate_block_header nd now s blk 0 None)) (\<lambda>_.
        bindS (validate_and_apply_transactions nd blk 0 0 False (Some MAX_MONEY)) (\<lambda>(_, _, subsidy_created, _) s.
        (Inr (), s\<lparr>ch_total_work := block_work blk, ch_chain := ch_chain s @ [blk], ch_height := 1,
                   ch_issued := subsidy_created, ch_best_tip := block_hash_at nd (header blk) 0\<rparr>))) s)"

section \<open>Fork choice\<close>

definition is_hash_on_main_chain :: "node \<Rightarrow> ('r, 'p) ChainState \<Rightarrow> bytes \<Rightarrow> u64 option" where
  "is_hash_on_main_chain nd s h =
     (case ch_heights s h of
        Some ht \<Rightarrow> if on_chain_at nd (ch_chain s) h ht then Some ht else None
      | None \<Rightarrow> None)"

fun find_reorg_path ::
  "node \<Rightarrow> ('r, 'p) ChainState \<Rightarrow> nat \<Rightarrow> bytes \<Rightarrow> 'r Block list \<Rightarrow> err + u64 \<times> 'r Block list" where
  "find_reorg_path nd s 0 cur branch = Inl OutOfFuel"
| "find_reorg_path nd s (Suc fuel) cur branch =
     (case is_hash_on_main_chain nd s cur of
        Some ht \<Rightarrow> Inr (ht, branch)
      | None \<Rightarrow>
          (case block_by_hash s cur of
             None \<Rightarrow> Inl (Err ''missing block for reorg path'')
           | Some blk \<Rightarrow>
               if hdr_prev_hash (header blk) = replicate 32 0 then Inl (Err ''reorg path has no common ancestor'')
               else find_reorg_path nd s fuel (hdr_prev_hash (header blk)) (blk # branch)))"

fun disconnect_to ::
  "('r, 'p) poawx \<Rightarrow> node \<Rightarrow> u64 \<Rightarrow> nat \<Rightarrow> 'r Block list \<Rightarrow> ('r, 'p) ChainState \<Rightarrow>
     (err + 'r Block list) \<times> ('r, 'p) ChainState" where
  "disconnect_to px nd ancestor 0 acc s = (Inl OutOfFuel, s)"
| "disconnect_to px nd ancestor (Suc fuel) acc s =
     (if tip_height s > ancestor then
        bindS (disconnect_tip_block px nd) (\<lambda>b. disconnect_to px nd ancestor fuel (acc @ [b])) s
      else (Inr acc, s))"

text \<open>\<open>let _ = m\<close>: the error value is dropped, a panic is not.\<close>

definition ignore_err ::
  "(('r, 'p) ChainState \<Rightarrow> (err + 'a) \<times> ('r, 'p) ChainState) \<Rightarrow> ('r, 'p) ChainState \<Rightarrow>
     (err + unit) \<times> ('r, 'p) ChainState" where
  "ignore_err m s =
     (case m s of
        (Inr _, s') \<Rightarrow> (Inr (), s')
      | (Inl (Err _), s') \<Rightarrow> (Inr (), s')
      | (Inl e, s') \<Rightarrow> (Inl e, s'))"

text \<open>After a block of the new branch fails, the branch is taken off and the old blocks are put back.\<close>

definition restore_branch ::
  "('r, 'p) poawx \<Rightarrow> node \<Rightarrow> int \<Rightarrow> nat \<Rightarrow> 'r Block list \<Rightarrow> ('r, 'p) ChainState \<Rightarrow>
     (err + unit) \<times> ('r, 'p) ChainState" where
  "restore_branch px nd now connected disconnected =
     bindS (foldS (\<lambda>_ _. ignore_err (disconnect_tip_block px nd)) [0..<connected] ()) (\<lambda>_.
     foldS (\<lambda>old _. ignore_err (connect_block px nd now old)) (rev disconnected) ())"

fun connect_branch ::
  "('r, 'p) poawx \<Rightarrow> node \<Rightarrow> int \<Rightarrow> 'r Block list \<Rightarrow> nat \<Rightarrow> 'r Block list \<Rightarrow> ('r, 'p) ChainState \<Rightarrow>
     (err + unit) \<times> ('r, 'p) ChainState" where
  "connect_branch px nd now disconnected connected [] s = (Inr (), s)"
| "connect_branch px nd now disconnected connected (b # bs) s =
     (case connect_block px nd now b s of
        (Inr _, s') \<Rightarrow> connect_branch px nd now disconnected (connected + 1) bs s'
      | (Inl (Err e), s') \<Rightarrow>
          bindS (restore_branch px nd now connected disconnected) (\<lambda>_.
          liftE (Inl (Err (''reorg connect failed: '' @ e)))) s'
      | (Inl e, s') \<Rightarrow> (Inl e, s'))"

definition reorg_allowed :: "node \<Rightarrow> ('r, 'p) ChainState \<Rightarrow> u64 \<Rightarrow> err + unit" where
  "reorg_allowed nd s ancestor =
     (let tip = tip_height s in
      bindE (ensure (\<not> (fork_choice_hardening_active (nd_env nd) tip \<and> tip - ancestor > max_reorg_depth (nd_env nd)))
               (Err ''reorg rejected: depth exceeds max-reorg-depth cap (hardening backstop)'')) (\<lambda>_.
      ensure (\<not> ch_finalized_height s > ancestor)
        (Err ''reorg rejected: fork ancestor is at/below finalized height (finality-checkpoint protection)'')))"

definition has_receipts :: "'r Block \<Rightarrow> bool" where
  "has_receipts b = (case poawx_receipts b of Some rs \<Rightarrow> rs \<noteq> [] | None \<Rightarrow> False)"

definition reorg_to_tip ::
  "('r, 'p) poawx \<Rightarrow> node \<Rightarrow> int \<Rightarrow> nat \<Rightarrow> bytes \<Rightarrow> ('r, 'p) ChainState \<Rightarrow> (err + unit) \<times> ('r, 'p) ChainState" where
  "reorg_to_tip px nd now fuel new_tip s =
     bindS (liftE (find_reorg_path nd s fuel new_tip [])) (\<lambda>(ancestor, new_branch) s.
     if ancestor \<ge> tip_height s then (Inr (), s)
     else
       bindS (liftE (reorg_allowed nd s ancestor)) (\<lambda>_.
       bindS (disconnect_to px nd ancestor (Suc (length (ch_chain s))) []) (\<lambda>disconnected.
       bindS (connect_branch px nd now disconnected 0 new_branch) (\<lambda>_ s.
       (Inr (), s\<lparr>ch_reorg_orphaned_blocks := ch_reorg_orphaned_blocks s @ filter has_receipts disconnected\<rparr>)))) s) s"

section \<open>The header tree\<close>

definition tip_hash :: "node \<Rightarrow> ('r, 'p) ChainState \<Rightarrow> bytes" where
  "tip_hash nd s =
     (case last_block (ch_chain s) of
        Some b \<Rightarrow> block_hash_at nd (header b) (sat_sub (ch_height s) 1)
      | None \<Rightarrow> replicate 32 0)"

definition known_height :: "('r, 'p) ChainState \<Rightarrow> bytes \<Rightarrow> u64 option" where
  "known_height s h =
     (case ch_heights s h of Some ht \<Rightarrow> Some ht | None \<Rightarrow> map_option hw_height (map_of (ch_headers s) h))"

definition add_header ::
  "node \<Rightarrow> BlockHeader \<Rightarrow> ('r, 'p) ChainState \<Rightarrow> (err + u64) \<times> ('r, 'p) ChainState" where
  "add_header nd hdr s =
     (let prev = hdr_prev_hash hdr in
      case (case ch_heights s prev of
              Some ht \<Rightarrow> Some (ht, case ch_cumulative_work s prev of Some w \<Rightarrow> w | None \<Rightarrow> 0)
            | None \<Rightarrow> map_option (\<lambda>hw. (hw_height hw, hw_work hw)) (map_of (ch_headers s) prev)) of
        None \<Rightarrow> (Inl (Err ''unknown parent''), s)
      | Some (parent_height, parent_work) \<Rightarrow>
          let height = parent_height + 1; h = block_hash_at nd hdr height
          in case known_height s h of
               Some ht \<Rightarrow> (Inr ht, s)
             | None \<Rightarrow>
                 if \<not> (hdr_version hdr AND AUXPOW_VERSION_BIT \<noteq> 0 \<and>
                       reached (auxpow_activation_height (ch_params s)) height) \<and>
                   \<not> meets_target h (target hdr) then (Inl (Err ''header does not meet target''), s)
                 else
                   (Inr height,
                    s\<lparr>ch_headers := AList.update h \<lparr>hw_header = hdr, hw_height = height,
                                     hw_work = parent_work + work_for_target (target hdr)\<rparr> (ch_headers s),
                      ch_header_chain := ch_header_chain s @ [h]\<rparr>))"

definition is_connected_chain_hash :: "node \<Rightarrow> ('r, 'p) ChainState \<Rightarrow> bytes \<Rightarrow> bool" where
  "is_connected_chain_hash nd s h =
     (case ch_heights s h of Some ht \<Rightarrow> on_chain_at nd (ch_chain s) h ht | None \<Rightarrow> False)"

text \<open>\<open>Inr None\<close> is the \<open>None\<close> of the source.\<close>

fun header_path_to_known ::
  "node \<Rightarrow> ('r, 'p) ChainState \<Rightarrow> nat \<Rightarrow> bytes \<Rightarrow> bytes list \<Rightarrow> err + bytes list option" where
  "header_path_to_known nd s 0 cur path = Inl OutOfFuel"
| "header_path_to_known nd s (Suc fuel) cur path =
     (if is_connected_chain_hash nd s cur then Inr (Some path)
      else
        case map_of (ch_headers s) cur of
          None \<Rightarrow> Inr None
        | Some hw \<Rightarrow>
            if hdr_prev_hash (hw_header hw) = replicate 32 0 then Inr None
            else header_path_to_known nd s fuel (hdr_prev_hash (hw_header hw)) (cur # path))"

text \<open>The walk has a guard of 100,000 steps of its own, which is its fuel.\<close>

fun fork_ancestor_walk :: "node \<Rightarrow> ('r, 'p) ChainState \<Rightarrow> u64 \<Rightarrow> nat \<Rightarrow> bytes \<Rightarrow> u64 option" where
  "fork_ancestor_walk nd s floor_height 0 cur = None"
| "fork_ancestor_walk nd s floor_height (Suc n) cur =
     (case known_height s cur of
        None \<Rightarrow> None
      | Some h \<Rightarrow>
          if on_chain_at nd (ch_chain s) cur h then Some h
          else if h \<le> floor_height then None
          else
            case map_of (ch_headers s) cur of
              Some hw \<Rightarrow> fork_ancestor_walk nd s floor_height n (hdr_prev_hash (hw_header hw))
            | None \<Rightarrow>
                (case ch_block_store s cur of
                   Some b \<Rightarrow> fork_ancestor_walk nd s floor_height n (hdr_prev_hash (header b))
                 | None \<Rightarrow> None))"

definition header_fork_ancestor_height :: "node \<Rightarrow> ('r, 'p) ChainState \<Rightarrow> bytes \<Rightarrow> u64 \<Rightarrow> u64 option" where
  "header_fork_ancestor_height nd s tip floor_height = fork_ancestor_walk nd s floor_height 100000 tip"

definition adoptable_floor :: "node \<Rightarrow> ('r, 'p) ChainState \<Rightarrow> u64" where
  "adoptable_floor nd s = max (ch_finalized_height s) (sat_sub (tip_height s) (max_reorg_depth (nd_env nd)))"

definition adoptable :: "node \<Rightarrow> ('r, 'p) ChainState \<Rightarrow> u64 \<Rightarrow> bytes \<Rightarrow> bool" where
  "adoptable nd s floor_height h =
     (case header_fork_ancestor_height nd s h floor_height of Some anc \<Rightarrow> anc \<ge> floor_height | None \<Rightarrow> False)"

definition best_header_hash :: "node \<Rightarrow> ('r, 'p) ChainState \<Rightarrow> bytes" where
  "best_header_hash nd s =
     (let hardening = fork_choice_hardening_active (nd_env nd) (tip_height s);
          floor_height = (if hardening then adoptable_floor nd s else 0);
          best = foldl (\<lambda>best (_, hw).
                   let cand = block_hash_at nd (hw_header hw) (hw_height hw)
                   in if hw_work hw > fst best \<and> (hardening \<longrightarrow> adoptable nd s floor_height cand)
                      then (hw_work hw, cand) else best)
                   (ch_total_work s, tip_hash nd s) (ch_headers s)
      in snd best)"

definition best_header_if_better :: "('r, 'p) ChainState \<Rightarrow> HeaderWork option" where
  "best_header_if_better s =
     foldl (\<lambda>best (_, hw).
       if hw_work hw > ch_total_work s \<and> (case best of Some b \<Rightarrow> hw_work b < hw_work hw | None \<Rightarrow> True)
       then Some hw else best) None (ch_headers s)"

definition best_adoptable_header_if_better :: "node \<Rightarrow> ('r, 'p) ChainState \<Rightarrow> HeaderWork option" where
  "best_adoptable_header_if_better nd s =
     foldl (\<lambda>best (_, hw).
       if hw_work hw \<le> ch_total_work s then best
       else if (case best of Some b \<Rightarrow> hw_work b \<ge> hw_work hw | None \<Rightarrow> False) then best
       else if adoptable nd s (adoptable_floor nd s) (block_hash_at nd (hw_header hw) (hw_height hw))
         then Some hw else best) None (ch_headers s)"

datatype OrphanClass = Adoptable bytes u32 | NeedHeaders | Foreign

definition orphan_branch_class :: "node \<Rightarrow> ('r, 'p) ChainState \<Rightarrow> bytes \<Rightarrow> OrphanClass" where
  "orphan_branch_class nd s prev =
     (let floor_height = adoptable_floor nd s in
      case known_height s prev of
        None \<Rightarrow> NeedHeaders
      | Some prev_height \<Rightarrow>
          (case header_fork_ancestor_height nd s prev floor_height of
             Some anc \<Rightarrow>
               if anc \<ge> floor_height then
                 Adoptable (case chain_at (ch_chain s) anc of
                              Some b \<Rightarrow> block_hash_at nd (header b) anc | None \<Rightarrow> replicate 32 0)
                   (max (ucast (sat_sub prev_height anc)) 1)
               else Foreign
           | None \<Rightarrow> Foreign))"

definition prune_unadoptable_orphans :: "node \<Rightarrow> ('r, 'p) ChainState \<Rightarrow> nat \<times> ('r, 'p) ChainState" where
  "prune_unadoptable_orphans nd s =
     (let keep = (\<lambda>(parent, _). adoptable nd s (adoptable_floor nd s) parent)
      in (\<Sum>(_, blocks) \<leftarrow> filter (Not \<circ> keep) (ch_orphan_pool s). length blocks,
          s\<lparr>ch_orphan_pool := filter keep (ch_orphan_pool s)\<rparr>))"

definition connects_to_tip :: "node \<Rightarrow> ('r, 'p) ChainState \<Rightarrow> BlockHeader \<Rightarrow> bool" where
  "connects_to_tip nd s hdr =
     (case last_block (ch_chain s) of
        Some b \<Rightarrow> block_hash_at nd (header b) (sat_sub (ch_height s) 1) = hdr_prev_hash hdr
      | None \<Rightarrow> False)"

definition try_connect_at ::
  "('r, 'p) poawx \<Rightarrow> node \<Rightarrow> int \<Rightarrow> u64 \<Rightarrow> 'r Block \<Rightarrow> ('r, 'p) ChainState \<Rightarrow> bool \<times> ('r, 'p) ChainState" where
  "try_connect_at px nd now height blk s =
     (if height \<noteq> ch_height s then (False, s)
      else case connect_block px nd now blk s of (Inr _, s') \<Rightarrow> (True, s') | (Inl _, s') \<Rightarrow> (False, s'))"

text \<open>The hash the next block must refer to is the accumulator of the loop.\<close>

definition try_reorg_step ::
  "('r, 'p) poawx \<Rightarrow> node \<Rightarrow> int \<Rightarrow> 'r Block \<Rightarrow> bytes \<Rightarrow> ('r, 'p) ChainState \<Rightarrow> (err + bytes) \<times> ('r, 'p) ChainState" where
  "try_reorg_step px nd now blk current_hash =
     bindS (liftE (ensure (hdr_prev_hash (header blk) = current_hash) (Err ''Reorg block does not connect''))) (\<lambda>_.
     bindS (connect_block px nd now blk) (\<lambda>_ s.
     (Inr (block_hash_at nd (header blk) (tip_height s)), s)))"

definition try_reorg ::
  "('r, 'p) poawx \<Rightarrow> node \<Rightarrow> int \<Rightarrow> 'r Block list \<Rightarrow> ('r, 'p) ChainState \<Rightarrow> (err + bool) \<times> ('r, 'p) ChainState" where
  "try_reorg px nd now new_blocks s =
     (case best_header_if_better s of
        None \<Rightarrow> (Inr False, s)
      | Some _ \<Rightarrow>
          bindS (foldS (try_reorg_step px nd now) new_blocks (tip_hash nd s)) (\<lambda>_ s.
          (Inr True, s\<lparr>ch_headers := [], ch_header_chain := []\<rparr>)) s)"

section \<open>Processing blocks\<close>

definition get_anchor_at_height :: "AnchorHeader list \<Rightarrow> u64 \<Rightarrow> AnchorHeader option" where
  "get_anchor_at_height anchors height = find (\<lambda>a. ah_height a = height) anchors"

definition verify_block_against_anchors :: "AnchorHeader list \<Rightarrow> u64 \<Rightarrow> string \<Rightarrow> bool" where
  "verify_block_against_anchors anchors height block_hash =
     (case get_anchor_at_height anchors height of
        Some anchor \<Rightarrow> to_ascii_lowercase (ah_hash anchor) = to_ascii_lowercase block_hash
      | None \<Rightarrow> True)"

definition forget_block :: "bytes \<Rightarrow> ('r, 'p) ChainState \<Rightarrow> ('r, 'p) ChainState" where
  "forget_block h s =
     s\<lparr>ch_block_store := (ch_block_store s)(h := None), ch_heights := (ch_heights s)(h := None),
       ch_cumulative_work := (ch_cumulative_work s)(h := None)\<rparr>"

text \<open>A method whose failure takes the block out of the store again.\<close>

definition or_forget ::
  "bytes \<Rightarrow> (('r, 'p) ChainState \<Rightarrow> (err + 'a) \<times> ('r, 'p) ChainState) \<Rightarrow> ('r, 'p) ChainState \<Rightarrow>
     (err + 'a) \<times> ('r, 'p) ChainState" where
  "or_forget h m s =
     (case m s of
        (Inr a, s') \<Rightarrow> (Inr a, s')
      | (Inl (Err e), s') \<Rightarrow> (Inl (Err e), forget_block h s')
      | (Inl e, s') \<Rightarrow> (Inl e, s'))"

definition store_orphan :: "'r Block \<Rightarrow> ('r, 'p) ChainState \<Rightarrow> ('r, 'p) ChainState" where
  "store_orphan blk s =
     (let parent = hdr_prev_hash (header blk);
          bucket = (case map_of (ch_orphan_pool s) parent of Some bs \<Rightarrow> bs | None \<Rightarrow> [])
      in prune_orphan_pool (s\<lparr>ch_orphan_pool := AList.update parent (bucket @ [blk]) (ch_orphan_pool s)\<rparr>))"

definition choose_branch ::
  "('r, 'p) poawx \<Rightarrow> node \<Rightarrow> u64 \<Rightarrow> bytes \<Rightarrow> nat \<Rightarrow> ('r, 'p) ChainState \<Rightarrow> (err + bool) \<times> ('r, 'p) ChainState" where
  "choose_branch px nd height h cumulative s =
     (if proposer_vrf_enforced (nd_env nd) height then or_forget h (liftE (px_better px s h)) s
      else (Inr (cumulative > ch_total_work s), s))"

text \<open>
  \<open>process_block\<close> up to the orphans: the result is the hash of the block and whether the tip moved.
\<close>

definition accept_block ::
  "('r, 'p) poawx \<Rightarrow> node \<Rightarrow> int \<Rightarrow> nat \<Rightarrow> 'r Block \<Rightarrow> ('r, 'p) ChainState \<Rightarrow> (err + bytes \<times> bool) \<times> ('r, 'p) ChainState" where
  "accept_block px nd now fuel blk s =
     (let parent = hdr_prev_hash (header blk); null = replicate 32 0 in
      if parent \<noteq> null \<and> ch_block_store s parent = None then
        (Inl (Err ''block stored as orphan (prev hash unknown)''), store_orphan blk s)
      else
        let parent_height = (if parent = null then 0 else case ch_heights s parent of Some ht \<Rightarrow> ht | None \<Rightarrow> 0);
            block_height = (if parent = null then 0 else parent_height + 1);
            h = block_hash_at nd (header blk) block_height
        in if ch_block_store s h \<noteq> None then (Inl (Err ''duplicate block''), s)
           else
             bindS (liftE (check_pow nd (ch_params s) blk block_height h (target (header blk))
                      ''block does not satisfy proof-of-work target'')) (\<lambda>_ s.
             let parent_work = (if parent = null then 0
                                else case ch_cumulative_work s parent of Some w \<Rightarrow> w | None \<Rightarrow> 0);
                 cumulative = parent_work + block_work blk; height = parent_height + 1
             in if (case ch_anchors s of
                      Some a \<Rightarrow> \<not> verify_block_against_anchors a height (nd_hex nd h) | None \<Rightarrow> False) then
                  (Inl (Err ''block violates anchor checkpoint''), s)
                else
                  let s1 = s\<lparr>ch_block_store := (ch_block_store s)(h \<mapsto> blk), ch_heights := (ch_heights s)(h \<mapsto> height),
                             ch_cumulative_work := (ch_cumulative_work s)(h \<mapsto> cumulative)\<rparr>
                  in if parent = tip_hash nd s1 then
                       bindS (or_forget h (connect_block px nd now blk)) (\<lambda>_. liftE (Inr (h, True))) s1
                     else
                       bindS (choose_branch px nd height h cumulative) (\<lambda>do_reorg.
                       if do_reorg then
                         bindS (or_forget h (reorg_to_tip px nd now fuel h)) (\<lambda>_. liftE (Inr (h, True)))
                       else liftE (Inr (h, False))) s1) s)"

text \<open>
  A processed block may be the parent of orphans, which are processed in turn; the errors of an orphan
  are dropped. The fuel bounds the nesting.
\<close>

fun process_block ::
    "('r, 'p) poawx \<Rightarrow> node \<Rightarrow> int \<Rightarrow> nat \<Rightarrow> 'r Block \<Rightarrow> ('r, 'p) ChainState \<Rightarrow>
       (err + u64 \<times> bytes) \<times> ('r, 'p) ChainState"
  and drain_orphans ::
    "('r, 'p) poawx \<Rightarrow> node \<Rightarrow> int \<Rightarrow> nat \<Rightarrow> bytes \<Rightarrow> ('r, 'p) ChainState \<Rightarrow> (err + unit) \<times> ('r, 'p) ChainState"
  and process_children ::
    "('r, 'p) poawx \<Rightarrow> node \<Rightarrow> int \<Rightarrow> nat \<Rightarrow> 'r Block list \<Rightarrow> bytes \<Rightarrow> ('r, 'p) ChainState \<Rightarrow>
       (err + bytes) \<times> ('r, 'p) ChainState" where
  "process_block px nd now 0 blk s = (Inl OutOfFuel, s)"
| "process_block px nd now (Suc fuel) blk s =
     bindS (accept_block px nd now fuel blk) (\<lambda>(h, advanced_tip) s.
     bindS (drain_orphans px nd now fuel (tip_hash nd s)) (\<lambda>_ s.
     let s = prune_caches nd s
     in if \<not> advanced_tip \<and> tip_hash nd s \<noteq> h then (Inl (Err ''block stored on side chain''), s)
        else (Inr (ch_height s, tip_hash nd s), s)) s) s"
| "drain_orphans px nd now 0 new_hash s = (Inl OutOfFuel, s)"
| "drain_orphans px nd now (Suc fuel) new_hash s =
     (case map_of (ch_orphan_pool s) new_hash of
        None \<Rightarrow> (Inr (), s)
      | Some children \<Rightarrow>
          bindS (process_children px nd now fuel children new_hash) (drain_orphans px nd now fuel)
            (s\<lparr>ch_orphan_pool := AList.delete new_hash (ch_orphan_pool s)\<rparr>))"
| "process_children px nd now fuel [] new_hash s = (Inr new_hash, s)"
| "process_children px nd now 0 (child # children) new_hash s = (Inl OutOfFuel, s)"
| "process_children px nd now (Suc fuel) (child # children) new_hash s =
     (case process_block px nd now fuel child s of
        (Inr (_, c_hash), s') \<Rightarrow> process_children px nd now fuel children c_hash s'
      | (Inl (Err _), s') \<Rightarrow> process_children px nd now fuel children new_hash s'
      | (Inl e, s') \<Rightarrow> (Inl e, s'))"

section \<open>A new chain state\<close>

definition empty_state :: "'r ChainParams \<Rightarrow> 'p \<Rightarrow> ('r, 'p) ChainState" where
  "empty_state params poawx_state =
     \<lparr>ch_params = params, ch_height = 0, ch_chain = [], ch_total_work = 0, ch_utxos = Map.empty, ch_issued = 0,
      ch_headers = [], ch_header_chain = [], ch_orphan_pool = [], ch_block_store = Map.empty,
      ch_heights = Map.empty, ch_cumulative_work = Map.empty, ch_anchors = None, ch_best_tip = replicate 32 0,
      ch_undo_logs = Map.empty,
      ch_btc = \<lparr>rl_headers = Map.empty, rl_heights = Map.empty, rl_tip = None, rl_tip_height = 0\<rparr>,
      ch_claimed_btc = {},
      ch_ltc = \<lparr>rl_headers = Map.empty, rl_heights = Map.empty, rl_tip = None, rl_tip_height = 0\<rparr>,
      ch_claimed_ltc = {}, ch_reorg_orphaned_blocks = [], ch_poawx = poawx_state, ch_reorg_signal = 0,
      ch_finalized_height = 0\<rparr>"

text \<open>\<open>ChainState::new\<close>, which panics when its genesis block is not valid.\<close>

definition chain_state_new :: "node \<Rightarrow> int \<Rightarrow> 'r ChainParams \<Rightarrow> 'p \<Rightarrow> err + ('r, 'p) ChainState" where
  "chain_state_new nd now params poawx_state =
     (let genesis = genesis_block params in
      case connect_genesis nd now genesis (empty_state params poawx_state) of
        (Inl e, _) \<Rightarrow> Inl Panic
      | (Inr _, s) \<Rightarrow>
          let h = block_hash_at nd (header genesis) 0; work = block_work genesis
          in Inr (s\<lparr>ch_block_store := (ch_block_store s)(h \<mapsto> genesis), ch_heights := (ch_heights s)(h \<mapsto> 0),
                    ch_cumulative_work := (ch_cumulative_work s)(h \<mapsto> work), ch_total_work := work,
                    ch_best_tip := h\<rparr>))"

end
