(* ===== verification/Connect.thy ===== *)
theory Connect
  imports Chain
begin

text \<open>
  Connecting and disconnecting the tip: what a connected block leaves of the state, the outpoints it
  spends and creates, the undo record it writes and what taking it off again restores.
\<close>

section \<open>What connecting a block does\<close>

lemma prune_header_cache_simps:
  "ch_params (prune_header_cache nd s) = ch_params s" "ch_height (prune_header_cache nd s) = ch_height s"
  "ch_chain (prune_header_cache nd s) = ch_chain s" "ch_total_work (prune_header_cache nd s) = ch_total_work s"
  "ch_utxos (prune_header_cache nd s) = ch_utxos s" "ch_issued (prune_header_cache nd s) = ch_issued s"
  "ch_undo_logs (prune_header_cache nd s) = ch_undo_logs s" "ch_btc (prune_header_cache nd s) = ch_btc s"
  "ch_ltc (prune_header_cache nd s) = ch_ltc s" "ch_claimed_btc (prune_header_cache nd s) = ch_claimed_btc s"
  "ch_claimed_ltc (prune_header_cache nd s) = ch_claimed_ltc s"
  "ch_best_tip (prune_header_cache nd s) = ch_best_tip s"
  "ch_orphan_pool (prune_header_cache nd s) = ch_orphan_pool s"
  "ch_finalized_height (prune_header_cache nd s) = ch_finalized_height s"
  "ch_block_store (prune_header_cache nd s) = ch_block_store s"
  "ch_heights (prune_header_cache nd s) = ch_heights s"
  by (cases "header_cache_window (nd_env nd) = 0 \<or> tip_height s \<le> header_cache_window (nd_env nd)";
      simp add: prune_header_cache_def Let_def)+

lemma prune_block_store_simps:
  "ch_params (prune_block_store nd s) = ch_params s" "ch_height (prune_block_store nd s) = ch_height s"
  "ch_chain (prune_block_store nd s) = ch_chain s" "ch_total_work (prune_block_store nd s) = ch_total_work s"
  "ch_utxos (prune_block_store nd s) = ch_utxos s" "ch_issued (prune_block_store nd s) = ch_issued s"
  "ch_undo_logs (prune_block_store nd s) = ch_undo_logs s" "ch_btc (prune_block_store nd s) = ch_btc s"
  "ch_ltc (prune_block_store nd s) = ch_ltc s" "ch_claimed_btc (prune_block_store nd s) = ch_claimed_btc s"
  "ch_claimed_ltc (prune_block_store nd s) = ch_claimed_ltc s"
  "ch_best_tip (prune_block_store nd s) = ch_best_tip s"
  "ch_orphan_pool (prune_block_store nd s) = ch_orphan_pool s"
  "ch_finalized_height (prune_block_store nd s) = ch_finalized_height s"
  by (cases "block_store_window (nd_env nd) = 0 \<or> tip_height s \<le> block_store_window (nd_env nd)";
      simp add: prune_block_store_def Let_def)+

lemma prune_caches_simps [simp]:
  "ch_params (prune_caches nd s) = ch_params s" "ch_height (prune_caches nd s) = ch_height s"
  "ch_chain (prune_caches nd s) = ch_chain s" "ch_total_work (prune_caches nd s) = ch_total_work s"
  "ch_utxos (prune_caches nd s) = ch_utxos s" "ch_issued (prune_caches nd s) = ch_issued s"
  "ch_undo_logs (prune_caches nd s) = ch_undo_logs s" "ch_btc (prune_caches nd s) = ch_btc s"
  "ch_ltc (prune_caches nd s) = ch_ltc s" "ch_claimed_btc (prune_caches nd s) = ch_claimed_btc s"
  "ch_claimed_ltc (prune_caches nd s) = ch_claimed_ltc s" "ch_best_tip (prune_caches nd s) = ch_best_tip s"
  "ch_orphan_pool (prune_caches nd s) = ch_orphan_pool s"
  "ch_finalized_height (prune_caches nd s) = ch_finalized_height s"
  unfolding prune_caches_def by (simp_all only: prune_block_store_simps prune_header_cache_simps)

lemma advance_finalized_simps [simp]:
  "ch_params (advance_finalized px nd h s) = ch_params s" "ch_height (advance_finalized px nd h s) = ch_height s"
  "ch_chain (advance_finalized px nd h s) = ch_chain s" "ch_total_work (advance_finalized px nd h s) = ch_total_work s"
  "ch_utxos (advance_finalized px nd h s) = ch_utxos s" "ch_issued (advance_finalized px nd h s) = ch_issued s"
  "ch_undo_logs (advance_finalized px nd h s) = ch_undo_logs s" "ch_btc (advance_finalized px nd h s) = ch_btc s"
  "ch_ltc (advance_finalized px nd h s) = ch_ltc s" "ch_claimed_btc (advance_finalized px nd h s) = ch_claimed_btc s"
  "ch_claimed_ltc (advance_finalized px nd h s) = ch_claimed_ltc s" "ch_best_tip (advance_finalized px nd h s) = ch_best_tip s"
  "ch_orphan_pool (advance_finalized px nd h s) = ch_orphan_pool s"
  "ch_block_store (advance_finalized px nd h s) = ch_block_store s"
  by (simp_all add: advance_finalized_def Let_def)

lemma prune_block_store_le: "ran (ch_block_store (prune_caches nd s)) \<subseteq> ran (ch_block_store s)"
  by (auto simp: prune_caches_def prune_block_store_def prune_header_cache_def Let_def ran_def
      split: if_split_asm option.split_asm)

abbreviation (input) block_hash_next :: "node \<Rightarrow> 'r Block \<Rightarrow> ('r, 'p) ChainState \<Rightarrow> bytes" where
  "block_hash_next nd blk s \<equiv> block_hash_at nd (header blk) (ch_height s)"

lemma push_block_simps:
  assumes "f = push_block nd blk h iss undo s"
  shows "ch_params f = ch_params s" "ch_height f = ch_height s + 1" "ch_chain f = ch_chain s @ [blk]"
    "ch_total_work f = ch_total_work s + block_work blk" "ch_utxos f = ch_utxos s" "ch_issued f = iss"
    "ch_undo_logs f = (ch_undo_logs s)(block_hash_at nd (header blk) h \<mapsto> undo)" "ch_btc f = ch_btc s"
    "ch_ltc f = ch_ltc s" "ch_claimed_btc f = ch_claimed_btc s" "ch_claimed_ltc f = ch_claimed_ltc s"
    "ch_best_tip f = block_hash_at nd (header blk) h" "ch_orphan_pool f = ch_orphan_pool s"
    "ch_block_store f = (ch_block_store s)(block_hash_at nd (header blk) h \<mapsto> blk)"
  unfolding assms push_block_def Let_def by simp_all

lemma finish_connect_simps:
  assumes f_def: "f = finish_connect px nd blk h iss undo s"
  shows "ch_params f = ch_params s" "ch_height f = ch_height s + 1" "ch_chain f = ch_chain s @ [blk]"
    "ch_total_work f = ch_total_work s + block_work blk" "ch_utxos f = ch_utxos s" "ch_issued f = iss"
    "ch_undo_logs f = (ch_undo_logs s)(block_hash_at nd (header blk) h \<mapsto> undo)" "ch_btc f = ch_btc s"
    "ch_ltc f = ch_ltc s" "ch_claimed_btc f = ch_claimed_btc s" "ch_claimed_ltc f = ch_claimed_ltc s"
    "ch_best_tip f = block_hash_at nd (header blk) h" "ch_orphan_pool f = ch_orphan_pool s"
    "ran (ch_block_store f) \<subseteq> insert blk (ran (ch_block_store s))"
proof -
  define g where g: "g = push_block nd blk h iss undo s"
  obtain p sig where "px_apply px g h = (p, sig)" by fastforce
  then have f: "f = prune_caches nd (advance_finalized px nd h (g\<lparr>ch_poawx := p, ch_reorg_signal := sig\<rparr>))"
    by (simp add: f_def finish_connect_def g)
  note ps = push_block_simps [OF g]
  show "ch_params f = ch_params s" "ch_height f = ch_height s + 1" "ch_chain f = ch_chain s @ [blk]"
    "ch_total_work f = ch_total_work s + block_work blk" "ch_utxos f = ch_utxos s" "ch_issued f = iss"
    "ch_undo_logs f = (ch_undo_logs s)(block_hash_at nd (header blk) h \<mapsto> undo)" "ch_btc f = ch_btc s"
    "ch_ltc f = ch_ltc s" "ch_claimed_btc f = ch_claimed_btc s" "ch_claimed_ltc f = ch_claimed_ltc s"
    "ch_best_tip f = block_hash_at nd (header blk) h" "ch_orphan_pool f = ch_orphan_pool s"
    unfolding f by (simp_all add: ps)
  have "ran (ch_block_store f) \<subseteq> ran (ch_block_store g)"
    unfolding f by (rule order_trans [OF prune_block_store_le]) simp
  then show "ran (ch_block_store f) \<subseteq> insert blk (ran (ch_block_store s))"
    by (auto simp: ps(14) ran_def split: if_split_asm)
qed

lemma connect_block_Inr:
  assumes "connect_block px nd now blk s = (Inr u, s')"
  obtains fees tot subsidy undo s1 iss where
    "validate_and_apply_transactions nd blk (block_reward (nd_env nd) (ch_height s)) (ch_height s) True
       (Some (MAX_MONEY - ch_issued s)) s = (Inr (fees, tot, subsidy, undo), s1)"
    "checked_add (ch_issued s1) subsidy = Some iss"
    "s' = finish_connect px nd blk (ch_height s) iss undo s1" "length (ch_chain s) < MAX_VEC_LEN"
    "validate_block_header nd now s blk (ch_height s) (last_block (ch_chain s)) = Inr ()"
  using assms
  by (auto simp: connect_block_def Let_def bindS_eq_Inr liftE_eq_Inr split: option.split_asm if_split_asm)

text \<open>An error leaves all but the relays as it was.\<close>

lemma finish_block_Inl: "finish_block nd coinbase reward h enf maxs cb s = (Inl e, s') \<Longrightarrow> s' = s"
  by (auto simp: finish_block_def Let_def split: if_split_asm)

lemma bindS_Inl_cases:
  assumes "bindS m f s = (Inl e, s')"
  obtains "m s = (Inl e, s')" | a s1 where "m s = (Inr a, s1)" "f a s1 = (Inl e, s')"
  using assms by (cases "m s"; cases "fst (m s)") (auto simp: bindS_def)

lemma validate_and_apply_Inl:
  assumes "validate_and_apply_transactions nd blk reward h enf maxs s = (Inl e, s')"
  shows "same_but_relays s s'"
proof (cases "transactions blk")
  case Nil
  then show ?thesis using assms by (simp add: validate_and_apply_transactions_def liftE_def)
next
  case (Cons coinbase txs)
  let ?t = "hdr_time (header blk)"
  let ?cb = "\<lambda>ap. \<lparr>cb_apply = ap, cb_total = 0, cb_btc_count = 0, cb_ltc_count = 0\<rparr>"
  consider (early) "s' = s"
    | (loops) "bindS (foldS (apply_tx nd h ?t) txs start_apply) (\<lambda>ap.
        bindS (foldS (apply_coinbase_output nd h ?t) (outputs coinbase) (?cb ap)) (\<lambda>cb.
        finish_block nd coinbase reward h enf maxs cb)) s = (Inl e, s')"
    using assms Cons by (auto simp: validate_and_apply_transactions_def liftE_def split: if_split_asm)
  then show ?thesis
  proof cases
    case loops
    then show ?thesis
    proof (cases rule: bindS_Inl_cases)
      case 1
      then show ?thesis using foldS_frames(1) [of s nd h ?t txs start_apply] by simp
    next
      case (2 ap s1)
      have f: "same_but_relays s s1" using foldS_frames(1) [of s nd h ?t txs start_apply] 2(1) by simp
      have g: "same_but_relays s1 (snd (foldS (apply_coinbase_output nd h ?t) (outputs coinbase) (?cb ap) s1))"
        by (rule foldS_frames)
      from 2(2) have "same_but_relays s1 s'"
        by (cases rule: bindS_Inl_cases) (use g in \<open>auto dest: finish_block_Inl\<close>)
      with f show ?thesis by (rule same_but_relays_trans)
    qed
  qed simp
qed

section \<open>The effects of an accepted block\<close>

text \<open>The outpoints a block spends and those it creates.\<close>

definition spent_outpoints :: "'r Block \<Rightarrow> OutPoint list" where
  "spent_outpoints blk = concat (map (\<lambda>tx. map input_key (inputs tx)) (tl (transactions blk)))"

definition created_outputs :: "node \<Rightarrow> 'r Block \<Rightarrow> (OutPoint \<times> TxOutput \<times> bool) list" where
  "created_outputs nd blk =
     concat (map (\<lambda>tx. created_by (txid (nd_sha nd) tx) 0 (outputs tx)) (tl (transactions blk))) @
     coinbase_created (txid (nd_sha nd) (hd (transactions blk))) (outputs (hd (transactions blk)))"

definition new_outpoints :: "node \<Rightarrow> 'r Block \<Rightarrow> OutPoint set" where
  "new_outpoints nd blk = fst ` set (created_outputs nd blk)"

lemma inputs_ok_fees [simp]: "inputs_ok s (tt\<lparr>tt_fees := f\<rparr>) = inputs_ok s tt"
  by (simp add: inputs_ok_def)

lemma inputs_ok_start: "inputs_ok s (ap_totals start_apply)"
  by (simp add: start_apply_def no_totals_def inputs_ok_def consumed_ok_def)

lemma validate_internal_inputs:
  assumes "validate_transaction_internal nd s tx h tt = Inr tt'" "inputs_ok s tt"
  shows "inputs_ok s tt' \<and> tt_seen tt' = tt_seen tt @ map input_key (inputs tx)"
proof -
  obtain tt1 it fees where
    i: "foldE (validate_input nd s tx h) (List.enumerate 0 (inputs tx)) (tt, 0) = Inr (tt1, it)"
    and t: "tt' = tt1\<lparr>tt_fees := fees\<rparr>"
    using assms(1) by (auto simp: validate_transaction_internal_def Let_def bindE_eq_Inr)
  show ?thesis using validate_inputs_Inr [OF i assms(2)] by (simp add: t)
qed

lemma apply_txs_effects:
  assumes "foldS (apply_tx nd h t) txs ap s = (Inr ap', s')" "inputs_ok s0 (ap_totals ap)" "same_but_relays s0 s"
  shows "inputs_ok s0 (ap_totals ap') \<and>
    tt_seen (ap_totals ap') = tt_seen (ap_totals ap) @ concat (map (\<lambda>tx. map input_key (inputs tx)) txs) \<and>
    ap_created ap' = ap_created ap @ concat (map (\<lambda>tx. created_by (txid (nd_sha nd) tx) 0 (outputs tx)) txs)"
  using assms
proof (induction txs arbitrary: ap s)
  case (Cons tx txs)
  obtain ap1 s1 where x: "apply_tx nd h t tx ap s = (Inr ap1, s1)"
    and r: "foldS (apply_tx nd h t) txs ap1 s1 = (Inr ap', s')"
    using Cons.prems(1) by (auto simp: bindS_eq_Inr)
  obtain tt where v: "validate_transaction_internal nd s tx h (ap_totals ap) = Inr tt"
    and o: "foldS (apply_tx_output nd h t (txid (nd_sha nd) tx)) (List.enumerate 0 (outputs tx))
      (ap\<lparr>ap_totals := tt\<rparr>) s = (Inr ap1, s1)"
    using x by (auto simp: apply_tx_def bindS_eq_Inr liftE_eq_Inr)
  have i: "inputs_ok s0 tt" "tt_seen tt = tt_seen (ap_totals ap) @ map input_key (inputs tx)"
    using validate_internal_inputs [OF v] Cons.prems(2,3) inputs_ok_relays by blast+
  have "same_but_relays s0 s1"
    using apply_tx_frame [of s nd h t tx ap] x Cons.prems(3) same_but_relays_trans by fastforce
  then show ?case
    using Cons.IH [OF r] i apply_outputs_Inr [OF o] by auto
qed simp

lemma coinbase_outputs_apply:
  assumes "foldS (apply_coinbase_output nd h t) outs cb s = (Inr cb', s')"
  shows "ap_totals (cb_apply cb') = ap_totals (cb_apply cb) \<and> ap_created (cb_apply cb') = ap_created (cb_apply cb)"
  using foldS_invariant [OF assms, where I = "\<lambda>c s. ap_totals (cb_apply c) = ap_totals (cb_apply cb) \<and>
      ap_created (cb_apply c) = ap_created (cb_apply cb)"] apply_coinbase_output_Inr
  unfolding coinbase_step_ok_def by metis

text \<open>
  The state an accepted block leaves and the undo record it writes. The relays are those of the last
  argument, which its record restores.
\<close>

lemma apply_effects:
  assumes "validate_and_apply_transactions nd blk reward h enf maxs s = (Inr (fees, tot, subsidy, undo), s')"
  obtains c s2 where "same_but_relays s s2" "consumed_ok (build_consensus_view s) c"
    "s' = s2\<lparr>ch_utxos := fold (insert_created h) (created_outputs nd blk)
              (fold (\<lambda>key m. m(key := None)) (spent_outpoints blk) (ch_utxos s)),
             ch_claimed_btc := ch_claimed_btc s \<union> set (cs_btc c),
             ch_claimed_ltc := ch_claimed_ltc s \<union> set (cs_ltc c)\<rparr>"
    "un_spent undo = spent_entries (ch_utxos s) (spent_outpoints blk)"
    "un_created undo = map fst (created_outputs nd blk)" "un_subsidy_created undo = subsidy"
    "un_claimed_btc_added undo = cs_btc c" "un_claimed_ltc_added undo = cs_ltc c"
    "relays_ok nd s \<Longrightarrow> relays_ok nd s2"
    "relays_ok nd s \<Longrightarrow> (case un_btc_relay_update undo of Some u \<Rightarrow> undo_btc_relay_update u (ch_btc s2) | None \<Rightarrow> ch_btc s2) = ch_btc s"
    "relays_ok nd s \<Longrightarrow> (case un_ltc_relay_update undo of Some u \<Rightarrow> undo_ltc_relay_update u (ch_ltc s2) | None \<Rightarrow> ch_ltc s2) = ch_ltc s"
proof -
  obtain coinbase txs ap s1 cb s2 where b: "transactions blk = coinbase # txs"
    and txs: "foldS (apply_tx nd h (hdr_time (header blk))) txs start_apply s = (Inr ap, s1)"
    and cbl: "foldS (apply_coinbase_output nd h (hdr_time (header blk))) (outputs coinbase)
       \<lparr>cb_apply = ap, cb_total = 0, cb_btc_count = 0, cb_ltc_count = 0\<rparr> s1 = (Inr cb, s2)"
    and fin: "finish_block nd coinbase reward h enf maxs cb s2 = (Inr (fees, tot, subsidy, undo), s')"
    using assms by (rule validate_and_apply_cases)
  have fr: "same_but_relays s s2"
    using foldS_frames(1) [of s nd h "hdr_time (header blk)" txs start_apply] txs
      foldS_frames(2) [of s1 nd h "hdr_time (header blk)" "outputs coinbase"] cbl
    by (metis same_but_relays_trans snd_conv)
  have i: "inputs_ok s (ap_totals ap)" "tt_seen (ap_totals ap) = spent_outpoints blk"
    "ap_created ap @ coinbase_created (txid (nd_sha nd) coinbase) (outputs coinbase) = created_outputs nd blk"
    using apply_txs_effects [OF txs inputs_ok_start same_but_relays_refl] b
    by (simp_all add: start_apply_def no_totals_def spent_outpoints_def created_outputs_def)
  have cb: "ap_totals (cb_apply cb) = ap_totals ap" "ap_created (cb_apply cb) = ap_created ap"
    using coinbase_outputs_apply [OF cbl] by simp_all
  let ?c = "tt_consumed (ap_totals ap)"
  have s': "s' = commit_block h (ap_totals ap) (created_outputs nd blk) s2"
    and u: "undo = \<lparr>un_spent = spent_entries (ch_utxos s2) (spent_outpoints blk),
        un_created = map fst (created_outputs nd blk), un_subsidy_created = subsidy,
        un_btc_relay_update = ap_btc_update (cb_apply cb), un_ltc_relay_update = ap_ltc_update (cb_apply cb),
        un_claimed_btc_added = cs_btc ?c, un_claimed_ltc_added = cs_ltc ?c\<rparr>"
    using fin i(2,3) by (auto simp: finish_block_def Let_def cb split: if_split_asm)
  have rel: "relays_inv nd s (cb_apply cb) s2" if "relays_ok nd s"
    using coinbase_outputs_relays [OF cbl] apply_txs_relays [OF txs that] by simp
  show thesis
  proof (rule that [of s2 ?c])
    show "consumed_ok (build_consensus_view s) ?c" using i(1) by (simp add: inputs_ok_def)
    show "relays_ok nd s \<Longrightarrow> relays_ok nd s2" using rel by (simp add: relays_inv_def)
    show "relays_ok nd s \<Longrightarrow> (case un_btc_relay_update undo of Some u \<Rightarrow> undo_btc_relay_update u (ch_btc s2) | None \<Rightarrow> ch_btc s2) = ch_btc s"
      "relays_ok nd s \<Longrightarrow> (case un_ltc_relay_update undo of Some u \<Rightarrow> undo_ltc_relay_update u (ch_ltc s2) | None \<Rightarrow> ch_ltc s2) = ch_ltc s"
      using rel u by (auto simp: relays_inv_def split: option.split_asm)
  qed (use fr s' u i(2) same_but_relaysD [OF fr] in \<open>simp_all add: commit_block_def\<close>)
qed

section \<open>Disconnecting undoes connecting\<close>

abbreviation restore_utxos :: "BlockUndo \<Rightarrow> (OutPoint \<rightharpoonup> UtxoEntry) \<Rightarrow> (OutPoint \<rightharpoonup> UtxoEntry)" where
  "restore_utxos undo m \<equiv> fold (\<lambda>(op, entry) m. m(op \<mapsto> entry)) (un_spent undo)
     (fold (\<lambda>op m. m(op := None)) (un_created undo) m)"

lemma fold_spent_entries:
  "fold (\<lambda>(op, entry) m. m(op \<mapsto> entry)) (spent_entries m ks) m' k = (if k \<in> set ks \<and> m k \<noteq> None then m k else m' k)"
proof (induction ks arbitrary: m')
  case (Cons j ks)
  then show ?case by (cases "m j") (auto simp: spent_entries_def)
qed (simp add: spent_entries_def)

lemma fold_insert_other:
  "k \<notin> fst ` set cs \<Longrightarrow> fold (insert_created h) cs m k = m k"
  proof (induction cs arbitrary: m)
  case (Cons c cs)
  obtain op out cb where "c = (op, out, cb)" by (cases c)
  then show ?case using Cons by (simp add: insert_created_def [of h])
qed simp

lemma restore_utxos_char:
  assumes "un_spent undo = spent_entries m (spent_outpoints blk)" "un_created undo = map fst (created_outputs nd blk)"
  shows "restore_utxos undo (fold (insert_created h) (created_outputs nd blk)
      (fold (\<lambda>key m. m(key := None)) (spent_outpoints blk) m)) =
    m |` {k. k \<notin> new_outpoints nd blk \<or> k \<in> set (spent_outpoints blk)}"
proof
  fix k
  show "restore_utxos undo (fold (insert_created h) (created_outputs nd blk)
      (fold (\<lambda>key m. m(key := None)) (spent_outpoints blk) m)) k =
    (m |` {k. k \<notin> new_outpoints nd blk \<or> k \<in> set (spent_outpoints blk)}) k"
    using fold_insert_other [of k "created_outputs nd blk" h]
    by (cases "k \<in> new_outpoints nd blk"; cases "k \<in> set (spent_outpoints blk)"; cases "m k")
      (auto simp: assms fold_spent_entries fold_delete_apply new_outpoints_def restrict_map_def)
qed

lemma undo_ledger_simps [simp]:
  "ch_params (undo_ledger undo s) = ch_params s" "ch_height (undo_ledger undo s) = ch_height s"
  "ch_chain (undo_ledger undo s) = ch_chain s" "ch_total_work (undo_ledger undo s) = ch_total_work s"
  "ch_undo_logs (undo_ledger undo s) = ch_undo_logs s" "ch_utxos (undo_ledger undo s) = restore_utxos undo (ch_utxos s)"
  "ch_issued (undo_ledger undo s) = sat_sub (ch_issued s) (un_subsidy_created undo)"
  "ch_claimed_btc (undo_ledger undo s) = ch_claimed_btc s - set (un_claimed_btc_added undo)"
  "ch_claimed_ltc (undo_ledger undo s) = ch_claimed_ltc s - set (un_claimed_ltc_added undo)"
  "ch_btc (undo_ledger undo s) =
     (case un_btc_relay_update undo of Some u \<Rightarrow> undo_btc_relay_update u (ch_btc s) | None \<Rightarrow> ch_btc s)"
  "ch_ltc (undo_ledger undo s) =
     (case un_ltc_relay_update undo of Some u \<Rightarrow> undo_ltc_relay_update u (ch_ltc s) | None \<Rightarrow> ch_ltc s)"
  "ch_orphan_pool (undo_ledger undo s) = ch_orphan_pool s" "ch_block_store (undo_ledger undo s) = ch_block_store s"
  "ch_finalized_height (undo_ledger undo s) = ch_finalized_height s"
  by ((simp add: undo_ledger_def; fail)+)

lemma pop_block_simps [simp]:
  "ch_params (pop_block nd b s) = ch_params s" "ch_utxos (pop_block nd b s) = ch_utxos s"
  "ch_issued (pop_block nd b s) = ch_issued s" "ch_undo_logs (pop_block nd b s) = ch_undo_logs s"
  "ch_btc (pop_block nd b s) = ch_btc s" "ch_ltc (pop_block nd b s) = ch_ltc s"
  "ch_claimed_btc (pop_block nd b s) = ch_claimed_btc s" "ch_claimed_ltc (pop_block nd b s) = ch_claimed_ltc s"
  "ch_chain (pop_block nd b s) = butlast (ch_chain s)"
  "ch_height (pop_block nd b s) = word_of_nat (length (ch_chain s) - 1)"
  "ch_total_work (pop_block nd b s) = ch_total_work s - block_work b"
  "ch_orphan_pool (pop_block nd b s) = ch_orphan_pool s" "ch_block_store (pop_block nd b s) = ch_block_store s"
  "ch_best_tip (pop_block nd b s) = (case last_block (butlast (ch_chain s)) of
     Some b \<Rightarrow> block_hash_at nd (header b) (sat_sub (word_of_nat (length (butlast (ch_chain s)))) 1) | None \<Rightarrow> replicate 32 0)"
  by (simp add: pop_block_def Let_def)+

definition disconnected :: "node \<Rightarrow> 'r Block \<Rightarrow> BlockUndo \<Rightarrow> ('r, 'p) ChainState \<Rightarrow> ('r, 'p) ChainState" where
  "disconnected nd tip undo s = pop_block nd tip (undo_ledger undo (s\<lparr>ch_undo_logs :=
     (ch_undo_logs s)(block_hash_at nd (header tip) (tip_height s) := None)\<rparr>))"

lemma disconnected_simps [simp]:
  "ch_params (disconnected nd tip undo s) = ch_params s"
  "ch_chain (disconnected nd tip undo s) = butlast (ch_chain s)"
  "ch_height (disconnected nd tip undo s) = word_of_nat (length (ch_chain s) - 1)"
  "ch_total_work (disconnected nd tip undo s) = ch_total_work s - block_work tip"
  "ch_utxos (disconnected nd tip undo s) = restore_utxos undo (ch_utxos s)"
  "ch_issued (disconnected nd tip undo s) = sat_sub (ch_issued s) (un_subsidy_created undo)"
  "ch_claimed_btc (disconnected nd tip undo s) = ch_claimed_btc s - set (un_claimed_btc_added undo)"
  "ch_claimed_ltc (disconnected nd tip undo s) = ch_claimed_ltc s - set (un_claimed_ltc_added undo)"
  "ch_btc (disconnected nd tip undo s) =
     (case un_btc_relay_update undo of Some u \<Rightarrow> undo_btc_relay_update u (ch_btc s) | None \<Rightarrow> ch_btc s)"
  "ch_ltc (disconnected nd tip undo s) =
     (case un_ltc_relay_update undo of Some u \<Rightarrow> undo_ltc_relay_update u (ch_ltc s) | None \<Rightarrow> ch_ltc s)"
  "ch_undo_logs (disconnected nd tip undo s) =
     (ch_undo_logs s)(block_hash_at nd (header tip) (tip_height s) := None)"
  "ch_orphan_pool (disconnected nd tip undo s) = ch_orphan_pool s"
  "ch_block_store (disconnected nd tip undo s) = ch_block_store s"
  by ((simp add: disconnected_def cong: option.case_cong; fail)+)

lemma disconnected_best_tip:
  assumes "ch_chain s = bs @ [tip]"
  shows "ch_best_tip (disconnected nd tip undo s) = (case last_block bs of
     Some b \<Rightarrow> block_hash_at nd (header b) (sat_sub (word_of_nat (length bs)) 1) | None \<Rightarrow> replicate 32 0)"
  by (simp add: disconnected_def assms cong: option.case_cong)

lemma disconnect_tip_block_eq:
  assumes "ch_chain s = bs @ [tip]" "bs \<noteq> []"
  shows "disconnect_tip_block px nd s =
    (case ch_undo_logs s (block_hash_at nd (header tip) (tip_height s)) of
       None \<Rightarrow> (Inl (Err ''missing undo data for tip block''), s)
     | Some undo \<Rightarrow>
         (Inr tip, (disconnected nd tip undo s)
            \<lparr>ch_poawx := px_revert px (disconnected nd tip undo s) tip (tip_height s),
             ch_reorg_signal := sat_add (ch_reorg_signal (disconnected nd tip undo s)) 1\<rparr>))"
proof -
  have l: "last_block (ch_chain s) = Some tip" "(length (ch_chain s) \<le> 1) = False"
    using assms by (simp_all add: last_block_def Suc_le_eq)
  show ?thesis
    unfolding disconnect_tip_block_def l option.case(2) if_False Let_def tip_height_def disconnected_def ..
qed

lemma disconnect_tip_block_cases:
  assumes "disconnect_tip_block px nd s = (r, s')"
  obtains (same) e where "r = Inl (Err e)" "s' = s"
  | (pop) bs tip undo p sig where "ch_chain s = bs @ [tip]" "bs \<noteq> []" "r = Inr tip"
      "ch_undo_logs s (block_hash_at nd (header tip) (tip_height s)) = Some undo"
      "s' = (disconnected nd tip undo s)\<lparr>ch_poawx := p, ch_reorg_signal := sig\<rparr>"
proof (cases "length (ch_chain s) \<le> 1")
  case True
  then have "\<exists>e. r = Inl (Err e) \<and> s' = s"
    using assms by (auto simp: disconnect_tip_block_def split: option.split_asm)
  then show thesis using same by blast
next
  case False
  then obtain bs tip where c: "ch_chain s = bs @ [tip]" "bs \<noteq> []"
    by (metis One_nat_def append_Nil le_refl length_0_conv length_Cons list.size(3) not_less_eq_eq rev_exhaust zero_le)
  show thesis
  proof (cases "ch_undo_logs s (block_hash_at nd (header tip) (tip_height s))")
    case None
    then show thesis using assms [unfolded disconnect_tip_block_eq [OF c] None option.case(1)] same by blast
  next
    case (Some undo)
    then show thesis using assms [unfolded disconnect_tip_block_eq [OF c] Some option.case(2)] pop [OF c] by blast
  qed
qed

lemma tip_height_next:
  assumes "ch_height s = word_of_nat (length (ch_chain s))" "length (ch_chain s) < MAX_VEC_LEN"
    and "ch_height s' = ch_height s + 1"
  shows "tip_height s' = ch_height s"
proof -
  let ?n = "length (ch_chain s)"
  have "ch_height s' = word_of_nat (Suc ?n)" using assms(1,3) by (simp add: add.commute)
  moreover have "unat (word_of_nat ?n :: u64) = ?n" "unat (word_of_nat (Suc ?n) :: u64) = Suc ?n"
    using assms(2) by (intro unat_word_of_nat_small; simp)+
  ultimately have "unat (tip_height s') = unat (ch_height s)"
    unfolding tip_height_def unat_sat_sub assms(1) by simp
  then show ?thesis by (simp add: word_unat_eq_iff)
qed

lemma sat_sub_checked_add: "checked_add a b = Some c \<Longrightarrow> sat_sub c b = a"
  by (auto simp: checked_add_def sat_sub_def word_less_nat_alt unat_word_ariths split: if_split_asm)

text \<open>The tip hash is recomputed from the block below, so it is restored whenever it was the hash of the tip.\<close>

lemma connect_disconnect:
  assumes c: "connect_block px nd now blk s = (Inr u, s1)"
    and h: "ch_height s = word_of_nat (length (ch_chain s))" and ne: "ch_chain s \<noteq> []" and r: "relays_ok nd s"
  obtains s2 where "disconnect_tip_block px nd s1 = (Inr blk, s2)"
    "ch_params s2 = ch_params s" "ch_chain s2 = ch_chain s" "ch_height s2 = ch_height s"
    "ch_total_work s2 = ch_total_work s" "ch_issued s2 = ch_issued s" "ch_best_tip s2 = tip_hash nd s"
    "ch_btc s2 = ch_btc s" "ch_ltc s2 = ch_ltc s"
    "ch_claimed_btc s2 = ch_claimed_btc s" "ch_claimed_ltc s2 = ch_claimed_ltc s"
    "ch_utxos s2 = ch_utxos s |` {k. k \<notin> new_outpoints nd blk \<or> k \<in> set (spent_outpoints blk)}"
    "ch_undo_logs s2 = (ch_undo_logs s)(block_hash_next nd blk s := None)"
proof -
  obtain fees tot subsidy undo sa iss where
    v: "validate_and_apply_transactions nd blk (block_reward (nd_env nd) (ch_height s)) (ch_height s) True
       (Some (MAX_MONEY - ch_issued s)) s = (Inr (fees, tot, subsidy, undo), sa)"
    and iss: "checked_add (ch_issued sa) subsidy = Some iss"
    and s1: "s1 = finish_connect px nd blk (ch_height s) iss undo sa" and l: "length (ch_chain s) < MAX_VEC_LEN"
    using c by (rule connect_block_Inr)
  obtain co sb where fr: "same_but_relays s sb" and co: "consumed_ok (build_consensus_view s) co"
    and sa: "sa = sb\<lparr>ch_utxos := fold (insert_created (ch_height s)) (created_outputs nd blk)
              (fold (\<lambda>key m. m(key := None)) (spent_outpoints blk) (ch_utxos s)),
             ch_claimed_btc := ch_claimed_btc s \<union> set (cs_btc co),
             ch_claimed_ltc := ch_claimed_ltc s \<union> set (cs_ltc co)\<rparr>"
    and u: "un_spent undo = spent_entries (ch_utxos s) (spent_outpoints blk)"
    "un_created undo = map fst (created_outputs nd blk)" "un_subsidy_created undo = subsidy"
    "un_claimed_btc_added undo = cs_btc co" "un_claimed_ltc_added undo = cs_ltc co"
    and rel: "(case un_btc_relay_update undo of Some u \<Rightarrow> undo_btc_relay_update u (ch_btc sb) | None \<Rightarrow> ch_btc sb) = ch_btc s"
    "(case un_ltc_relay_update undo of Some u \<Rightarrow> undo_ltc_relay_update u (ch_ltc sb) | None \<Rightarrow> ch_ltc sb) = ch_ltc s"
    by (rule apply_effects [OF v]) (use r in blast)
  note fs = finish_connect_simps [OF s1]
  have t: "tip_height s1 = ch_height s"
    by (rule tip_height_next [OF h l]) (simp add: fs sa same_but_relaysD [OF fr])
  have d: "disconnect_tip_block px nd s1 = (Inr blk, (disconnected nd blk undo s1)
            \<lparr>ch_poawx := px_revert px (disconnected nd blk undo s1) blk (tip_height s1),
             ch_reorg_signal := sat_add (ch_reorg_signal (disconnected nd blk undo s1)) 1\<rparr>)"
    using disconnect_tip_block_eq [of s1 "ch_chain s" blk px nd] ne
    by (simp add: fs sa same_but_relaysD [OF fr] t)
  have bt: "ch_best_tip (disconnected nd blk undo s1) = tip_hash nd s"
    using disconnected_best_tip [of s1 "ch_chain s" blk nd undo]
    by (simp add: fs sa same_but_relaysD [OF fr] tip_hash_def h cong: option.case_cong)
  show thesis
  proof (rule that [OF d])
    show "ch_issued ((disconnected nd blk undo s1)
            \<lparr>ch_poawx := px_revert px (disconnected nd blk undo s1) blk (tip_height s1),
             ch_reorg_signal := sat_add (ch_reorg_signal (disconnected nd blk undo s1)) 1\<rparr>) = ch_issued s"
      using iss by (simp add: fs sa same_but_relaysD [OF fr] u sat_sub_checked_add)
  next
    show "ch_utxos ((disconnected nd blk undo s1)
            \<lparr>ch_poawx := px_revert px (disconnected nd blk undo s1) blk (tip_height s1),
             ch_reorg_signal := sat_add (ch_reorg_signal (disconnected nd blk undo s1)) 1\<rparr>) =
       ch_utxos s |` {k. k \<notin> new_outpoints nd blk \<or> k \<in> set (spent_outpoints blk)}"
      using restore_utxos_char [OF u(1,2)] by (simp add: fs sa)
  qed (use co rel in \<open>simp_all add: fs sa same_but_relaysD [OF fr] t u h bt consumed_ok_def
      build_consensus_view_def Diff_triv Un_Diff Int_commute cong: option.case_cong\<close>)
qed

end
