(* ===== verification/ChainInv.thy ===== *)
theory ChainInv
  imports Connect
begin

text \<open>
  The invariant of the chain state and the states a node reaches: the money supply, the validity of
  every block on the chain and the blocks a reorganisation must keep. The contract that connecting and
  disconnecting meet is a locale; the operations built on the two keep any invariant that meets it.
\<close>

section \<open>What every operation keeps\<close>

text \<open>
  A method keeps an invariant whatever it returns, and what it returns on success has a property.
  The rules follow the combinators the operations are written with.
\<close>

definition keeps :: "('s \<Rightarrow> bool) \<Rightarrow> ('a \<Rightarrow> bool) \<Rightarrow> ('s \<Rightarrow> (err + 'a) \<times> 's) \<Rightarrow> bool" where
  "keeps I Q m \<longleftrightarrow> (\<forall>s r s'. I s \<longrightarrow> m s = (r, s') \<longrightarrow> I s' \<and> (\<forall>a. r = Inr a \<longrightarrow> Q a))"

named_theorems keeps_rules

lemma keepsI: "(\<And>s r s'. I s \<Longrightarrow> m s = (r, s') \<Longrightarrow> I s' \<and> (\<forall>a. r = Inr a \<longrightarrow> Q a)) \<Longrightarrow> keeps I Q m"
  by (auto simp: keeps_def)

lemma keepsD: "keeps I Q m \<Longrightarrow> m s = (r, s') \<Longrightarrow> I s \<Longrightarrow> I s' \<and> (\<forall>a. r = Inr a \<longrightarrow> Q a)"
  by (auto simp: keeps_def)

lemma keeps_state: "keeps I Q m \<Longrightarrow> I s \<Longrightarrow> I (snd (m s))"
  by (cases "m s") (auto dest: keepsD)

lemma keeps_weaken: "keeps I Q m \<Longrightarrow> (\<And>a. Q a \<Longrightarrow> R a) \<Longrightarrow> keeps I R m"
  by (auto simp: keeps_def)

lemma keeps_bindS [keeps_rules]:
  assumes "keeps I Q m" "\<And>a. Q a \<Longrightarrow> keeps I R (f a)"
  shows "keeps I R (bindS m f)"
proof (rule keepsI)
  fix s r s'
  assume s: "I s" and b: "bindS m f s = (r, s')"
  obtain x s1 where m: "m s = (x, s1)" by fastforce
  show "I s' \<and> (\<forall>b. r = Inr b \<longrightarrow> R b)"
  proof (cases x)
    case (Inl e)
    then show ?thesis using b m keepsD [OF assms(1) m s] by (auto simp: bindS_def)
  next
    case (Inr a)
    then show ?thesis using b m keepsD [OF assms(1) m s] keepsD [OF assms(2), of a s1 r s'] by (simp add: bindS_def)
  qed
qed

lemma keeps_liftE [keeps_rules]: "(\<And>a. r = Inr a \<Longrightarrow> Q a) \<Longrightarrow> keeps I Q (liftE r)"
  by (auto simp: keeps_def liftE_def)

lemma keeps_return: "Q a \<Longrightarrow> (\<And>s. I s \<Longrightarrow> I (g s)) \<Longrightarrow> keeps I Q (\<lambda>s. (Inr a, g s))"
  by (auto simp: keeps_def)

lemma keeps_foldS [keeps_rules]:
  assumes "\<And>x a. x \<in> set xs \<Longrightarrow> Q a \<Longrightarrow> keeps I Q (f x a)" "Q a"
  shows "keeps I Q (foldS f xs a)"
  using assms
proof (induction xs arbitrary: a)
  case Nil
  then show ?case by (simp add: keeps_def)
next
  case (Cons x xs)
  have "foldS f (x # xs) a = bindS (f x a) (foldS f xs)" by (rule ext) simp
  moreover have "keeps I Q (bindS (f x a) (foldS f xs))" 
    by (rule keeps_bindS [where Q = Q]) (use Cons in auto)
  ultimately show ?case by simp
qed

lemma keeps_ignore_err [keeps_rules]: "keeps I Q m \<Longrightarrow> keeps I (\<lambda>_. True) (ignore_err m)"
  by (rule keepsI) (auto simp: ignore_err_def dest!: keepsD split: prod.split_asm sum.split_asm err.split_asm)

lemma keeps_or_forget [keeps_rules]:
  "keeps I Q m \<Longrightarrow> (\<And>s. I s \<Longrightarrow> I (forget_block h s)) \<Longrightarrow> keeps I Q (or_forget h m)"
  by (rule keepsI) (auto simp: or_forget_def dest!: keepsD split: prod.split_asm sum.split_asm err.split_asm)

text \<open>The blocks a state holds, and the parts of it that its bookkeeping leaves alone.\<close>

definition stored_ok :: "('r Block \<Rightarrow> bool) \<Rightarrow> ('r, 'p) ChainState \<Rightarrow> bool" where
  "stored_ok ok s \<longleftrightarrow> (\<forall>b \<in> ran (ch_block_store s). ok b) \<and> (\<forall>b \<in> set (ch_chain s). ok b) \<and>
     (\<forall>(p, bs) \<in> set (ch_orphan_pool s). \<forall>b \<in> set bs. ok b)"

definition same_ledger :: "('r, 'p) ChainState \<Rightarrow> ('r, 'p) ChainState \<Rightarrow> bool" where
  "same_ledger s s' \<longleftrightarrow> ch_params s' = ch_params s \<and> ch_height s' = ch_height s \<and> ch_chain s' = ch_chain s \<and>
     ch_utxos s' = ch_utxos s \<and> ch_issued s' = ch_issued s \<and> ch_undo_logs s' = ch_undo_logs s \<and>
     ch_btc s' = ch_btc s \<and> ch_ltc s' = ch_ltc s \<and>
     ch_claimed_btc s' = ch_claimed_btc s \<and> ch_claimed_ltc s' = ch_claimed_ltc s"

lemma connect_block_Inl:
  assumes "connect_block px nd now blk s = (Inl e, s')"
  shows "same_but_relays s s' \<or> (\<exists>fees tot subsidy undo.
    validate_and_apply_transactions nd blk (block_reward (nd_env nd) (ch_height s)) (ch_height s) True
      (Some (MAX_MONEY - ch_issued s)) s = (Inr (fees, tot, subsidy, undo), s') \<and>
    checked_add (ch_issued s') subsidy = None)"
proof (cases "length (ch_chain s) \<ge> MAX_VEC_LEN")
  case False
  have b: "bindS (liftE (validate_block_header nd now s blk (ch_height s) (last_block (ch_chain s)))) (\<lambda>_.
      bindS (liftE (px_check px s blk (ch_height s))) (\<lambda>_.
      bindS (validate_and_apply_transactions nd blk (block_reward (nd_env nd) (ch_height s)) (ch_height s) True
               (Some (MAX_MONEY - ch_issued s))) (\<lambda>(_, _, subsidy_created, undo) s1.
      case checked_add (ch_issued s1) subsidy_created of
        None \<Rightarrow> (Inl (Err ''Supply overflow''), s1)
      | Some new_supply \<Rightarrow> (Inr (), finish_connect px nd blk (ch_height s) new_supply undo s1)))) s = (Inl e, s')"
    using assms False unfolding connect_block_def Let_def by simp
  show ?thesis
    using b by (auto elim!: bindS_Inl_cases simp: liftE_def validate_and_apply_Inl split: option.split_asm)
qed (use assms in \<open>simp add: connect_block_def\<close>)

section \<open>The invariant of the chain\<close>

text \<open>
  The coins in circulation do not exceed what was issued, nor that the cap; and they do not after any
  number of tip blocks have been taken off again with the undo records of the state.
\<close>

definition sound_coins :: "nat \<Rightarrow> (OutPoint \<rightharpoonup> UtxoEntry) \<Rightarrow> u64 \<Rightarrow> bool" where
  "sound_coins bound m iss \<longleftrightarrow>
     coins_ok m \<and> coin_supply m \<le> unat iss \<and> iss \<le> MAX_MONEY \<and> unat iss \<le> bound"

text \<open>What genesis pays and what the reward schedule adds to it with \<open>n\<close> blocks on top.\<close>

definition genesis_supply :: "'r ChainParams \<Rightarrow> nat" where
  "genesis_supply params = (\<Sum>out \<leftarrow> outputs (hd (transactions (genesis_block params))). unat (out_value out))"

definition scheduled :: "node \<Rightarrow> 'r ChainParams \<Rightarrow> nat \<Rightarrow> nat" where
  "scheduled nd params n = genesis_supply params + emission (nd_env nd) n"

fun undo_sound ::
  "node \<Rightarrow> (nat \<Rightarrow> nat) \<Rightarrow> 'r Block list \<Rightarrow> (bytes \<rightharpoonup> BlockUndo) \<Rightarrow> (OutPoint \<rightharpoonup> UtxoEntry) \<Rightarrow> u64 \<Rightarrow> bool" where
  "undo_sound nd sch (b # c # bs) logs m iss \<longleftrightarrow> sound_coins (sch (length (c # bs))) m iss \<and>
     (let h = block_hash_at nd (header b) (word_of_nat (length (c # bs)))
      in case logs h of
           None \<Rightarrow> True
         | Some undo \<Rightarrow>
             undo_sound nd sch (c # bs) (logs(h := None)) (restore_utxos undo m) (sat_sub iss (un_subsidy_created undo)))"
| "undo_sound nd sch bs logs m iss \<longleftrightarrow> sound_coins (sch (length bs - 1)) m iss"

text \<open>A block on top of the blocks below it: what \<open>validate_block_header\<close> checks, the clock apart.\<close>

definition block_valid :: "node \<Rightarrow> 'r ChainParams \<Rightarrow> 'r Block list \<Rightarrow> 'r Block \<Rightarrow> bool" where
  "block_valid nd params below blk \<longleftrightarrow>
     (let height = word_of_nat (length below) in
      hdr_prev_hash (header blk) = block_hash_at nd (header (last below)) (height - 1) \<and>
      hdr_time (header blk) >
        (if height \<ge> MTP_ACTIVATION_HEIGHT then median_time_past below else hdr_time (header (last below))) \<and>
      hdr_merkle_root (header blk) = merkle_root (nd_sha nd) blk \<and>
      target_for_height (nd_env nd) params below height = Inr (target (header blk)) \<and>
      check_pow nd params blk height (block_hash_at nd (header blk) height) (target (header blk))
        ''Block does not satisfy proof-of-work target'' = Inr ())"

fun valid_chain :: "node \<Rightarrow> 'r ChainParams \<Rightarrow> 'r Block list \<Rightarrow> bool" where
  "valid_chain nd params [] = False"
| "valid_chain nd params [genesis] = True"
| "valid_chain nd params (b # bs) = (valid_chain nd params bs \<and> block_valid nd params (rev bs) b)"

definition chain_inv :: "node \<Rightarrow> 'r ChainParams \<Rightarrow> ('r, 'p) ChainState \<Rightarrow> bool" where
  "chain_inv nd params s \<longleftrightarrow> ch_params s = params \<and> ch_height s = word_of_nat (length (ch_chain s)) \<and>
     length (ch_chain s) \<le> MAX_VEC_LEN \<and> valid_chain nd params (rev (ch_chain s)) \<and>
     undo_sound nd (scheduled nd params) (rev (ch_chain s)) (ch_undo_logs s) (ch_utxos s) (ch_issued s)"

lemma supply_mono: "m' \<subseteq>\<^sub>m m \<Longrightarrow> finite (dom m) \<Longrightarrow> coin_supply m' \<le> coin_supply m"
proof -
  assume m: "m' \<subseteq>\<^sub>m m" "finite (dom m)"
  have d: "dom m' \<subseteq> dom m" using m(1) by (rule map_le_implies_dom_le)
  have "coin_supply m' = (\<Sum>k \<in> dom m'. coin_value (ut_output (the (m k))))"
    unfolding coin_supply_def using m(1) by (intro sum.cong) (auto simp: map_le_def)
  also have "\<dots> \<le> coin_supply m"
    unfolding coin_supply_def using m(2) d by (intro sum_mono2) auto
  finally show ?thesis .
qed

lemma sound_coins_mono: "sound_coins b m iss \<Longrightarrow> m' \<subseteq>\<^sub>m m \<Longrightarrow> sound_coins b m' iss"
proof -
  assume s: "sound_coins b m iss" and m: "m' \<subseteq>\<^sub>m m"
  have "ran m' \<subseteq> ran m" using m by (force simp: ran_def map_le_def dom_def)
  moreover have "finite (dom m')"
    using s map_le_implies_dom_le [OF m] by (auto simp: sound_coins_def coins_ok_def intro: finite_subset)
  moreover have "coin_supply m' \<le> coin_supply m"
    using supply_mono [OF m] s by (auto simp: sound_coins_def coins_ok_def)
  ultimately show ?thesis using s by (auto simp: sound_coins_def coins_ok_def)
qed

lemma fold_upd_map_le:
  "m' \<subseteq>\<^sub>m m \<Longrightarrow> fold (\<lambda>(op, entry) m. m(op \<mapsto> entry)) xs m' \<subseteq>\<^sub>m fold (\<lambda>(op, entry) m. m(op \<mapsto> entry)) xs m"
proof (induction xs arbitrary: m m')
  case (Cons x xs)
  obtain op e where x: "x = (op, e)" by (cases x)
  have "m'(op \<mapsto> e) \<subseteq>\<^sub>m m(op \<mapsto> e)" using Cons.prems by (auto simp: map_le_def)
  from Cons.IH [OF this] show ?case by (simp add: x)
qed simp

lemma restore_utxos_mono: "m' \<subseteq>\<^sub>m m \<Longrightarrow> restore_utxos undo m' \<subseteq>\<^sub>m restore_utxos undo m"
proof (rule fold_upd_map_le)
  assume m: "m' \<subseteq>\<^sub>m m"
  show "fold (\<lambda>op m. m(op := None)) (un_created undo) m' \<subseteq>\<^sub>m fold (\<lambda>op m. m(op := None)) (un_created undo) m"
    unfolding map_le_def fold_delete_apply using m by (auto simp: map_le_def dom_def)
qed

lemma map_le_delete: "m' \<subseteq>\<^sub>m m \<Longrightarrow> m'(k := None) \<subseteq>\<^sub>m m(k := None)"
  by (auto simp: map_le_def)

lemma undo_sound_mono:
  "undo_sound nd sch bs logs m iss \<Longrightarrow> logs' \<subseteq>\<^sub>m logs \<Longrightarrow> m' \<subseteq>\<^sub>m m \<Longrightarrow> undo_sound nd sch bs logs' m' iss"
proof (induction nd sch bs logs m iss arbitrary: logs' m' rule: undo_sound.induct)
  case (1 nd sch b c bs logs m iss)
  let ?h = "block_hash_at nd (header b) (word_of_nat (length (c # bs)))"
  have s: "sound_coins (sch (length (c # bs))) m' iss" using 1(2,4) sound_coins_mono by auto
  show ?case
  proof (cases "logs' ?h")
    case None
    then show ?thesis using s by simp
  next
    case (Some undo)
    then have l: "logs ?h = Some undo" using 1(3) by (auto simp: map_le_def dom_def)
    have "undo_sound nd sch (c # bs) (logs(?h := None)) (restore_utxos undo m) (sat_sub iss (un_subsidy_created undo))"
      using 1(2) l by simp
    then have "undo_sound nd sch (c # bs) (logs'(?h := None)) (restore_utxos undo m') (sat_sub iss (un_subsidy_created undo))"
      by (rule 1(1) [OF refl l _ map_le_delete [OF 1(3)] restore_utxos_mono [OF 1(4)]])
    then show ?thesis using s Some by simp
  qed
qed (auto intro: sound_coins_mono)

lemma undo_sound_coins: "undo_sound nd sch bs logs m iss \<Longrightarrow> sound_coins (sch (length bs - 1)) m iss"
proof (induction nd sch bs logs m iss rule: undo_sound.induct)
qed (simp_all del: fun_upd_apply)

lemma chain_inv_nonempty: "chain_inv nd params s \<Longrightarrow> ch_chain s \<noteq> []"
  by (auto simp: chain_inv_def)

lemma chain_inv_height:
  assumes "chain_inv nd params s"
  shows "unat (ch_height s) = length (ch_chain s)" "ch_height s \<noteq> 0"
    "unat (tip_height s) = length (ch_chain s) - 1"
proof -
  show u: "unat (ch_height s) = length (ch_chain s)"
    using assms unat_word_of_nat_small [of "length (ch_chain s)", where 'a = 64] by (simp add: chain_inv_def)
  show "unat (tip_height s) = length (ch_chain s) - 1" by (simp add: tip_height_def unat_sat_sub u)
  show "ch_height s \<noteq> 0" using u chain_inv_nonempty [OF assms] by auto
qed

lemma chain_inv_frame:
  assumes "chain_inv nd params s" "ch_params s' = ch_params s" "ch_height s' = ch_height s" "ch_chain s' = ch_chain s"
    "ch_utxos s' = ch_utxos s" "ch_issued s' = ch_issued s" "ch_undo_logs s' = ch_undo_logs s"
  shows "chain_inv nd params s'"
  using assms by (simp add: chain_inv_def)

lemma reward_le_MAX_MONEY: "h \<noteq> 0 \<Longrightarrow> block_reward env h \<le> MAX_MONEY"
proof -
  assume "h \<noteq> 0"
  then have "unat (block_reward env h) \<le> 5000000000" by (simp add: unat_block_reward)
  then show ?thesis by (simp add: word_le_nat_alt)
qed

lemma validate_block_header_valid:
  assumes "validate_block_header nd now s blk (ch_height s) (last_block (ch_chain s)) = Inr ()"
    and i: "chain_inv nd params s"
  shows "block_valid nd params (ch_chain s) blk"
proof -
  have p: "last_block (ch_chain s) = Some (last (ch_chain s))"
    using chain_inv_nonempty [OF i] by (simp add: last_block_def)
  have h: "ch_height s > 0" "sat_sub (ch_height s) 1 = ch_height s - 1"
    using chain_inv_height(2) [OF i] by (auto simp: word_neq_0_conv sat_sub_def)
  have e: "ch_height s = word_of_nat (length (ch_chain s))" "ch_params s = params" using i by (simp_all add: chain_inv_def)
  show ?thesis
    unfolding block_valid_def Let_def e(1) [symmetric]
    using assms(1) unfolding validate_block_header_def p
    by (auto simp: bindE_eq_Inr ensure_eq_Inr h e(2) not_le split: if_split_asm)
qed

abbreviation (input) apply_next ::
  "node \<Rightarrow> 'r Block \<Rightarrow> ('r, 'p) ChainState \<Rightarrow> (err + u64 \<times> u64 \<times> u64 \<times> BlockUndo) \<times> ('r, 'p) ChainState" where
  "apply_next nd blk s \<equiv> validate_and_apply_transactions nd blk (block_reward (nd_env nd) (ch_height s)) (ch_height s)
     True (Some (MAX_MONEY - ch_issued s)) s"

definition block_counts_ok :: "'r Block \<Rightarrow> bool" where
  "block_counts_ok blk \<longleftrightarrow> (\<forall>tx \<in> set (tl (transactions blk)). tx_counts_ok tx)"

lemma apply_effects_fields:
  assumes v: "validate_and_apply_transactions nd blk reward h enf maxs s = (Inr (fees, tot, subsidy, undo), s')"
  shows "ch_utxos s' = fold (insert_created h) (created_outputs nd blk)
      (fold (\<lambda>key m. m(key := None)) (spent_outpoints blk) (ch_utxos s))"
    "ch_issued s' = ch_issued s" "ch_params s' = ch_params s" "ch_height s' = ch_height s"
    "ch_chain s' = ch_chain s" "ch_undo_logs s' = ch_undo_logs s"
    "un_spent undo = spent_entries (ch_utxos s) (spent_outpoints blk)"
    "un_created undo = map fst (created_outputs nd blk)" "un_subsidy_created undo = subsidy"
  by (rule apply_effects [OF v]; simp add: same_but_relaysD)+

lemma emission_Suc: "emission env (Suc n) = emission env n + unat (block_reward env (word_of_nat (Suc n)))"
  by (simp add: emission_def)

lemma scheduled_next:
  assumes "chain_inv nd params s"
  shows "scheduled nd params (length (ch_chain s)) =
    scheduled nd params (length (ch_chain s) - 1) + unat (block_reward (nd_env nd) (ch_height s))"
  using assms chain_inv_nonempty [OF assms] emission_Suc [of "nd_env nd" "length (ch_chain s) - 1"]
  by (simp add: scheduled_def chain_inv_def)

lemma apply_next_sound:
  assumes v: "apply_next nd blk s = (Inr (fees, tot, subsidy, undo), s1)" and ok: "block_counts_ok blk"
    and i: "chain_inv nd params s"
  shows "sound_coins (scheduled nd params (length (ch_chain s))) (ch_utxos s1) (ch_issued s + subsidy)"
    "unat (ch_issued s) + unat subsidy < 2 ^ 64"
proof -
  have sc: "sound_coins (scheduled nd params (length (ch_chain s) - 1)) (ch_utxos s) (ch_issued s)"
    using i undo_sound_coins by (fastforce simp: chain_inv_def)
  have b: "coins_ok (ch_utxos s1)" "coin_supply (ch_utxos s1) \<le> coin_supply (ch_utxos s) + unat subsidy"
    "subsidy \<le> MAX_MONEY - ch_issued s" "subsidy \<le> block_reward (nd_env nd) (ch_height s)"
    using block_conserves_coins [OF v] ok sc reward_le_MAX_MONEY [OF chain_inv_height(2) [OF i], of "nd_env nd"]
    by (auto simp: sound_coins_def block_counts_ok_def)
  have "unat (MAX_MONEY - ch_issued s) = unat MAX_MONEY - unat (ch_issued s)"
    using sc by (intro unat_sub) (simp add: sound_coins_def)
  then have m: "unat (ch_issued s) + unat subsidy \<le> 10 ^ 16"
    using b(3) sc unfolding sound_coins_def word_le_nat_alt by simp linarith
  then have u: "unat (ch_issued s + subsidy) = unat (ch_issued s) + unat subsidy"
    by (intro unat_add_no_wrap) simp
  have "unat (ch_issued s) + unat subsidy \<le> scheduled nd params (length (ch_chain s))"
    using sc b(4) scheduled_next [OF i] unfolding sound_coins_def word_le_nat_alt by linarith
  then show "sound_coins (scheduled nd params (length (ch_chain s))) (ch_utxos s1) (ch_issued s + subsidy)"
    using b(1,2) sc m u by (simp add: sound_coins_def word_le_nat_alt)
  show "unat (ch_issued s) + unat subsidy < 2 ^ 64" using m by simp
qed

lemma connected_undo_sound:
  assumes v: "apply_next nd blk s = (Inr (fees, tot, subsidy, undo), s1)" and ok: "block_counts_ok blk"
    and i: "chain_inv nd params s" and h: "h = block_hash_next nd blk s"
  shows "undo_sound nd (scheduled nd params) (blk # rev (ch_chain s)) ((ch_undo_logs s)(h \<mapsto> undo)) (ch_utxos s1) (ch_issued s + subsidy)"
proof -
  obtain c bs where c: "rev (ch_chain s) = c # bs"
    using chain_inv_nonempty [OF i] by (metis list.exhaust rev_is_Nil_conv)
  have len: "length (c # bs) = length (ch_chain s)" using arg_cong [OF c, of length] by simp
  have hh: "block_hash_at nd (header blk) (word_of_nat (length (c # bs))) = h"
    unfolding h len using i by (simp add: chain_inv_def)
  note ef = apply_effects_fields [OF v]
  have le: "restore_utxos undo (ch_utxos s1) \<subseteq>\<^sub>m ch_utxos s"
    using restore_utxos_char [OF ef(7,8)] by (simp add: ef(1) map_le_def)
  have iss: "sat_sub (ch_issued s + subsidy) subsidy = ch_issued s"
    using apply_next_sound(2) [OF v ok i] by (intro sat_sub_checked_add) (simp add: checked_add_def)
  have "undo_sound nd (scheduled nd params) (c # bs) (ch_undo_logs s) (ch_utxos s) (ch_issued s)"
    using i by (simp add: chain_inv_def c)
  then have "undo_sound nd (scheduled nd params) (c # bs) ((ch_undo_logs s)(h := None)) (restore_utxos undo (ch_utxos s1)) (ch_issued s)"
    by (rule undo_sound_mono) (use le in \<open>simp_all add: map_le_def\<close>)
  then show ?thesis
    unfolding c undo_sound.simps(1) hh Let_def using apply_next_sound(1) [OF v ok i, folded len] by (simp add: ef(9) iss)
qed

lemma connect_block_inv:
  assumes i: "chain_inv nd params s" and ok: "block_counts_ok blk"
  shows "chain_inv nd params (snd (connect_block px nd now blk s))"
proof -
  obtain r s' where c: "connect_block px nd now blk s = (r, s')" by fastforce
  show ?thesis
  proof (cases r)
    case (Inl e)
    consider "same_but_relays s s'" | fees tot subsidy undo where "apply_next nd blk s = (Inr (fees, tot, subsidy, undo), s')"
      "checked_add (ch_issued s') subsidy = None"
      using connect_block_Inl [of px nd now blk s e s'] c Inl by auto
    then show ?thesis
    proof cases
      case 1
      then show ?thesis using chain_inv_frame [OF i] same_but_relaysD [OF 1] c by simp
    next
      case 2
      then show ?thesis using apply_next_sound(2) [OF 2(1) ok i] apply_effects_fields(2) [OF 2(1)] by (simp add: checked_add_def)
    qed
  next
    case (Inr u)
    obtain fees tot subsidy undo s1 iss where v: "apply_next nd blk s = (Inr (fees, tot, subsidy, undo), s1)"
      and ca: "checked_add (ch_issued s1) subsidy = Some iss"
      and s': "s' = finish_connect px nd blk (ch_height s) iss undo s1" and l: "length (ch_chain s) < MAX_VEC_LEN"
      and vh: "validate_block_header nd now s blk (ch_height s) (last_block (ch_chain s)) = Inr ()"
      by (rule connect_block_Inr [OF c [unfolded Inr]])
    have iss: "iss = ch_issued s + subsidy" using ca apply_effects_fields [OF v] by (simp add: checked_add_def split: if_split_asm)
    have vc: "valid_chain nd params (blk # rev (ch_chain s))"
      using i validate_block_header_valid [OF vh i] chain_inv_nonempty [OF i]
      by (cases "rev (ch_chain s)") (auto simp: chain_inv_def)
    have us: "undo_sound nd (scheduled nd params) (blk # rev (ch_chain s)) ((ch_undo_logs s)(block_hash_next nd blk s \<mapsto> undo)) (ch_utxos s1)
        (ch_issued s + subsidy)"
      by (rule connected_undo_sound [OF v ok i refl])
    show ?thesis
      using i l vc us unfolding chain_inv_def c snd_conv finish_connect_simps [OF s'] apply_effects_fields [OF v] iss
      by (simp del: undo_sound.simps valid_chain.simps)
  qed
qed

lemma disconnect_tip_block_inv:
  assumes i: "chain_inv nd params s"
  shows "chain_inv nd params (snd (disconnect_tip_block px nd s))"
proof -
  obtain r s' where d: "disconnect_tip_block px nd s = (r, s')" by fastforce
  then show ?thesis
  proof (cases rule: disconnect_tip_block_cases)
    case (pop bs tip undo p sig)
    obtain c cs where c: "rev bs = c # cs" using pop(2) by (metis list.exhaust rev_is_Nil_conv)
    have len: "length (c # cs) = length bs" using arg_cong [OF c, of length] by simp
    have th: "tip_height s = word_of_nat (length (c # cs))"
      unfolding len using chain_inv_height(3) [OF i] i unat_word_of_nat_small [of "length bs", where 'a = 64]
      by (simp add: word_unat_eq_iff pop(1) chain_inv_def)
    have "undo_sound nd (scheduled nd params) (tip # c # cs) (ch_undo_logs s) (ch_utxos s) (ch_issued s)" "valid_chain nd params (c # cs)"
      using i by (simp_all add: chain_inv_def pop(1) c del: undo_sound.simps)
    then have "undo_sound nd (scheduled nd params) (c # cs) ((ch_undo_logs s)(block_hash_at nd (header tip) (tip_height s) := None))
        (restore_utxos undo (ch_utxos s)) (sat_sub (ch_issued s) (un_subsidy_created undo))"
      unfolding undo_sound.simps(1) Let_def th [symmetric] pop(4) by simp
    then show ?thesis
      using i \<open>valid_chain nd params (c # cs)\<close> by (simp add: d pop(5) chain_inv_def pop(1) c)
  qed (use i d in simp)
qed

section \<open>Operations built on connecting and disconnecting\<close>

lemma same_but_relays_store:
  assumes "same_but_relays s s'"
  shows "ch_block_store s' = ch_block_store s" "ch_orphan_pool s' = ch_orphan_pool s"
    "ch_finalized_height s' = ch_finalized_height s"
proof -
  have e: "s' = s\<lparr>ch_btc := ch_btc s', ch_ltc := ch_ltc s'\<rparr>" using assms by (simp add: same_but_relays_def)
  show "ch_block_store s' = ch_block_store s" "ch_orphan_pool s' = ch_orphan_pool s"
    "ch_finalized_height s' = ch_finalized_height s" by (subst e; simp)+
qed

lemma apply_effects_store:
  assumes v: "validate_and_apply_transactions nd blk reward h enf maxs s = (Inr (fees, tot, subsidy, undo), s')"
  shows "ch_block_store s' = ch_block_store s" "ch_orphan_pool s' = ch_orphan_pool s"
    "ch_finalized_height s' = ch_finalized_height s"
proof -
  show "ch_block_store s' = ch_block_store s"
    by (rule apply_effects [OF v]) (use same_but_relays_store(1) in fastforce)
  show "ch_orphan_pool s' = ch_orphan_pool s"
    by (rule apply_effects [OF v]) (use same_but_relays_store(2) in fastforce)
  show "ch_finalized_height s' = ch_finalized_height s"
    by (rule apply_effects [OF v]) (use same_but_relays_store(3) in fastforce)
qed

lemma stored_okI:
  assumes "stored_ok ok s" "ran (ch_block_store s') \<subseteq> Collect ok \<union> ran (ch_block_store s)"
    "set (ch_chain s') \<subseteq> Collect ok \<union> set (ch_chain s)" "set (ch_orphan_pool s') \<subseteq> set (ch_orphan_pool s)"
  shows "stored_ok ok s'"
  unfolding stored_ok_def
proof (intro conjI)
  show "\<forall>(p, bs) \<in> set (ch_orphan_pool s'). \<forall>b \<in> set bs. ok b" using assms(1,4) unfolding stored_ok_def by blast
qed (use assms(1,2,3) in \<open>auto simp: stored_ok_def\<close>)

lemma connect_block_stored:
  assumes "stored_ok ok s" "ok blk"
  shows "stored_ok ok (snd (connect_block px nd now blk s))"
proof -
  obtain r s' where c: "connect_block px nd now blk s = (r, s')" by fastforce
  show ?thesis
  proof (cases r)
    case (Inl e)
    consider (err) "same_but_relays s s'"
      | (over) fees tot subsidy undo where "apply_next nd blk s = (Inr (fees, tot, subsidy, undo), s')"
      using connect_block_Inl [OF c [unfolded Inl]] by blast
    then have "ch_block_store s' = ch_block_store s \<and> ch_orphan_pool s' = ch_orphan_pool s \<and> ch_chain s' = ch_chain s"
    proof cases
      case err
      then show ?thesis using same_but_relays_store [OF err] same_but_relaysD(6) [OF err] by simp
    next
      case over
      then show ?thesis using apply_effects_store [OF over] apply_effects_fields(5) [OF over] by simp
    qed
    then show ?thesis using assms(1) by (simp add: c stored_ok_def)
  next
    case (Inr u)
    obtain fees tot subsidy undo s1 iss where v: "apply_next nd blk s = (Inr (fees, tot, subsidy, undo), s1)"
      and s': "s' = finish_connect px nd blk (ch_height s) iss undo s1"
      by (rule connect_block_Inr [OF c [unfolded Inr]])
    note fs = finish_connect_simps [OF s'] apply_effects_fields [OF v] apply_effects_store [OF v]
    show ?thesis
      unfolding c snd_conv by (rule stored_okI [OF assms(1)]) (use assms(2) fs(14) in \<open>auto simp: fs(3,13) fs(15-)\<close>)
  qed
qed

lemma disconnect_tip_block_stored:
  assumes "stored_ok ok s" "disconnect_tip_block px nd s = (r, s')"
  shows "stored_ok ok s' \<and> (\<forall>b. r = Inr b \<longrightarrow> ok b)"
  using assms(2)
proof (cases rule: disconnect_tip_block_cases)
  case (pop bs tip undo p sig)
  have "stored_ok ok s'" by (rule stored_okI [OF assms(1)]) (auto simp: pop)
  then show ?thesis using assms(1) pop by (simp add: stored_ok_def)
qed (use assms in simp)

lemma find_reorg_path_ok:
  assumes "find_reorg_path nd s fuel cur branch = Inr (anc, br)" "stored_ok ok s" "list_all ok branch"
  shows "list_all ok br"
  using assms
proof (induction nd s fuel cur branch rule: find_reorg_path.induct)
  case (2 nd s fuel cur branch)
  have "ok b" if "block_by_hash s cur = Some b" for b
    using that 2(3)
    by (auto simp: block_by_hash_def stored_ok_def chain_at_def ran_def split: option.split_asm if_split_asm)
  then show ?case using 2 by (auto split: option.split_asm if_split_asm)
qed simp

lemma prune_pool_subset: "set (prune_pool pool) \<subseteq> set pool"
  by (induction pool rule: prune_pool.induct) auto

lemma set_update_alist: "set (AList.update k v al) \<subseteq> insert (k, v) (set al)"
  by (induction al) auto

lemma prune_caches_stored: "stored_ok ok s \<Longrightarrow> stored_ok ok (prune_caches nd s)"
  by (erule stored_okI) (use prune_block_store_le [of nd s] in auto)

lemma forget_block_keeps: "same_ledger s (forget_block h s)" "stored_ok ok s \<Longrightarrow> stored_ok ok (forget_block h s)"
proof -
  show "same_ledger s (forget_block h s)" by (simp add: forget_block_def same_ledger_def)
  assume "stored_ok ok s"
  moreover have "ran ((ch_block_store s)(h := None)) \<subseteq> ran (ch_block_store s)" by (auto simp: ran_def)
  ultimately show "stored_ok ok (forget_block h s)"
    by (elim stored_okI) (auto simp: forget_block_def)
qed

lemma store_orphan_stored: "stored_ok ok s \<Longrightarrow> ok blk \<Longrightarrow> stored_ok ok (store_orphan blk s)"
proof -
  assume s: "stored_ok ok s" and b: "ok blk"
  let ?p = "hdr_prev_hash (header blk)"
  define old where "old = (case map_of (ch_orphan_pool s) ?p of Some bs \<Rightarrow> bs | None \<Rightarrow> [])"
  have pool: "\<forall>(p, bs) \<in> set (ch_orphan_pool s). \<forall>b \<in> set bs. ok b" using s by (simp add: stored_ok_def)
  have "\<forall>x \<in> set old. ok x"
    using pool by (cases "map_of (ch_orphan_pool s) ?p") (auto simp: old_def dest!: map_of_SomeD)
  then have "\<forall>(p, bs) \<in> insert (?p, old @ [blk]) (set (ch_orphan_pool s)). \<forall>b \<in> set bs. ok b" using pool b by simp
  moreover have "set (ch_orphan_pool (store_orphan blk s)) \<subseteq> insert (?p, old @ [blk]) (set (ch_orphan_pool s))"
    unfolding store_orphan_def prune_orphan_pool_def Let_def old_def [symmetric]
    using prune_pool_subset set_update_alist by fastforce
  ultimately have "\<forall>(p, bs) \<in> set (ch_orphan_pool (store_orphan blk s)). \<forall>b \<in> set bs. ok b" by blast
  moreover have "ch_block_store (store_orphan blk s) = ch_block_store s" "ch_chain (store_orphan blk s) = ch_chain s"
    by (simp_all add: store_orphan_def prune_orphan_pool_def Let_def)
  ultimately show ?thesis using s by (simp add: stored_ok_def)
qed

text \<open>
  The contract of an invariant of the ledger: connecting and disconnecting keep it, and it does not
  depend on the bookkeeping. Every operation that is built on the two then keeps it, whether it
  succeeds or fails.
\<close>

locale ledger_contract =
  fixes inv :: "('r, 'p) ChainState \<Rightarrow> bool" and ok :: "'r Block \<Rightarrow> bool"
    and px :: "('r, 'p) poawx" and nd :: node
  assumes connect: "\<And>now blk s. inv s \<Longrightarrow> ok blk \<Longrightarrow> inv (snd (connect_block px nd now blk s))"
    and disconnect: "\<And>s. inv s \<Longrightarrow> inv (snd (disconnect_tip_block px nd s))"
    and bookkeeping: "\<And>s s'. inv s \<Longrightarrow> same_ledger s s' \<Longrightarrow> inv s'"
begin

definition held :: "('r, 'p) ChainState \<Rightarrow> bool" where
  "held s \<longleftrightarrow> inv s \<and> stored_ok ok s"

lemma held_connect: "ok blk \<Longrightarrow> keeps held (\<lambda>_. True) (connect_block px nd now blk)"
  by (rule keepsI) (metis connect connect_block_stored held_def snd_conv)

lemma held_disconnect: "keeps held ok (disconnect_tip_block px nd)"
  by (rule keepsI) (metis disconnect disconnect_tip_block_stored held_def snd_conv)

lemma held_forget: "held s \<Longrightarrow> held (forget_block h s)"
  using forget_block_keeps(2) [of ok s h] bookkeeping [of s "forget_block h s", OF _ forget_block_keeps(1)]
  by (simp add: held_def)

lemma held_disconnect_to: "list_all ok acc \<Longrightarrow> keeps held (list_all ok) (disconnect_to px nd anc fuel acc)"
proof (induction fuel arbitrary: acc)
  case (Suc fuel)
  have b: "keeps held (list_all ok) (bindS (disconnect_tip_block px nd) (\<lambda>b. disconnect_to px nd anc fuel (acc @ [b])))"
    by (rule keeps_bindS [OF held_disconnect]) (use Suc in simp)
  show ?case
  proof (rule keepsI)
    fix s r s'
    assume s: "held s" and d: "disconnect_to px nd anc (Suc fuel) acc s = (r, s')"
    show "held s' \<and> (\<forall>a. r = Inr a \<longrightarrow> list_all ok a)"
    proof (cases "tip_height s > anc")
      case True
      then show ?thesis using keepsD [OF b _ s] d by simp
    qed (use s d Suc in auto)
  qed
qed (auto simp: keeps_def)

lemma held_restore_branch:
  "list_all ok bs \<Longrightarrow> keeps held (\<lambda>_. True) (restore_branch px nd now n bs)"
  unfolding restore_branch_def
  by (intro keeps_bindS [where Q = "\<lambda>_. True"] keeps_foldS keeps_ignore_err [OF held_disconnect]
      keeps_ignore_err [OF held_connect]) (simp_all add: list_all_iff)

lemma held_connect_branch:
  "list_all ok ds \<Longrightarrow> list_all ok bs \<Longrightarrow> keeps held (\<lambda>_. True) (connect_branch px nd now ds n bs)"
proof (induction bs arbitrary: n)
  case (Cons b bs)
  have r: "keeps held (\<lambda>_. True) (bindS (restore_branch px nd now n ds) (\<lambda>_. liftE (Inl e)))" for e
    by (rule keeps_bindS [OF held_restore_branch [OF Cons.prems(1)]]) (rule keeps_liftE, simp)
  show ?case
  proof (rule keepsI)
    fix s r s'
    assume s: "held s" and c: "connect_branch px nd now ds n (b # bs) s = (r, s')"
    obtain x s1 where x: "connect_block px nd now b s = (x, s1)" by fastforce
    have s1: "held s1" using keepsD [OF held_connect x s] Cons.prems(2) by simp
    have "held s'"
    proof (cases x)
      case (Inl e)
      show ?thesis
        using c s1 keepsD [OF r _ s1] by (cases e) (auto simp: x Inl)
    next
      case (Inr u)
      then show ?thesis using c keepsD [OF Cons.IH _ s1] Cons.prems by (simp add: x)
    qed
    then show "held s' \<and> (\<forall>a. r = Inr a \<longrightarrow> True)" by simp
  qed
qed (auto simp: keeps_def)

lemma held_reorg: "keeps held (\<lambda>_. True) (reorg_to_tip px nd now fuel tip)"
proof (rule keepsI)
  fix s r s'
  assume s: "held s" and c: "reorg_to_tip px nd now fuel tip s = (r, s')"
  show "held s' \<and> (\<forall>a. r = Inr a \<longrightarrow> True)"
  proof (cases "find_reorg_path nd s fuel tip []")
    case (Inl e)
    then show ?thesis using c s by (simp add: reorg_to_tip_def bindS_def liftE_def)
  next
    case (Inr p)
    obtain anc br where p: "p = (anc, br)" by (cases p)
    have br: "list_all ok br" using find_reorg_path_ok [OF Inr [unfolded p]] s by (simp add: held_def)
    have k: "keeps held (\<lambda>_. True) (bindS (liftE (reorg_allowed nd s anc)) (\<lambda>_.
       bindS (disconnect_to px nd anc (Suc (length (ch_chain s))) []) (\<lambda>ds.
       bindS (connect_branch px nd now ds 0 br) (\<lambda>_ s.
       (Inr (), s\<lparr>ch_reorg_orphaned_blocks := ch_reorg_orphaned_blocks s @ filter has_receipts ds\<rparr>)))))"
      by (intro keeps_bindS [OF keeps_liftE [where Q = "\<lambda>_. True"]] keeps_bindS [OF held_disconnect_to] keeps_bindS [OF held_connect_branch]
          keeps_return) (auto simp: held_def stored_ok_def same_ledger_def br elim: bookkeeping)
    show ?thesis
      using c s keepsD [OF k _ s] by (auto simp: reorg_to_tip_def Inr p bindS_liftE split: if_split_asm)
  qed
qed

lemma held_choose_branch: "keeps held (\<lambda>_. True) (choose_branch px nd height h w)"
proof (rule keepsI)
  fix s r s'
  assume s: "held s" and c: "choose_branch px nd height h w s = (r, s')"
  have k: "keeps held (\<lambda>_. True) (or_forget h (liftE (px_better px s h)))"
    by (intro keeps_or_forget keeps_liftE held_forget) simp_all
  show "held s' \<and> (\<forall>a. r = Inr a \<longrightarrow> True)"
  proof (cases "proposer_vrf_enforced (nd_env nd) height")
    case True
    then show ?thesis using c keepsD [OF k _ s, of r s'] by (simp add: choose_branch_def)
  next
    case False
    then show ?thesis using c s by (auto simp: choose_branch_def)
  qed
qed

lemma held_index:
  assumes "held s" "ok blk"
  shows "held (s\<lparr>ch_block_store := (ch_block_store s)(h \<mapsto> blk), ch_heights := hs, ch_cumulative_work := ws\<rparr>)"
proof -
  have st: "stored_ok ok s" using assms(1) by (simp add: held_def)
  have "ran ((ch_block_store s)(h \<mapsto> blk)) \<subseteq> Collect ok \<union> ran (ch_block_store s)"
    using assms(2) by (auto simp: ran_def)
  then have "stored_ok ok (s\<lparr>ch_block_store := (ch_block_store s)(h \<mapsto> blk), ch_heights := hs, ch_cumulative_work := ws\<rparr>)"
    by (intro stored_okI [OF st]) simp_all
  moreover have "inv (s\<lparr>ch_block_store := (ch_block_store s)(h \<mapsto> blk), ch_heights := hs, ch_cumulative_work := ws\<rparr>)"
    by (rule bookkeeping [of s]) (use assms in \<open>simp_all add: held_def same_ledger_def\<close>)
  ultimately show ?thesis by (simp add: held_def)
qed

lemma held_if: "held (snd x) \<Longrightarrow> held (snd y) \<Longrightarrow> held (snd (if b then x else y))"
  by simp

lemma held_liftE: "held s \<Longrightarrow> (\<And>a. held (snd (f a s))) \<Longrightarrow> held (snd (bindS (liftE r) f s))"
  by (cases r) (simp_all add: bindS_def liftE_def)

lemma held_connect_or_forget:
  "ok blk \<Longrightarrow> keeps held (\<lambda>_. True) (bindS (or_forget h (connect_block px nd now blk)) (\<lambda>_. liftE (Inr (h, True))))"
  by (intro keeps_bindS [where Q = "\<lambda>_. True"] keeps_or_forget held_connect held_forget keeps_liftE) simp_all

lemma held_choose_and_reorg:
  "keeps held (\<lambda>_. True) (bindS (choose_branch px nd height h w) (\<lambda>do_reorg.
     if do_reorg then bindS (or_forget h (reorg_to_tip px nd now fuel h)) (\<lambda>_. liftE (Inr (h, True)))
     else liftE (Inr (h, False))))"
proof (rule keeps_bindS [OF held_choose_branch])
  fix x
  have "keeps held (\<lambda>_. True) (bindS (or_forget h (reorg_to_tip px nd now fuel h)) (\<lambda>_. liftE (Inr (h, True))))"
    by (intro keeps_bindS [where Q = "\<lambda>_. True"] keeps_or_forget held_reorg held_forget keeps_liftE) simp_all
  then show "keeps held (\<lambda>_. True) (if x then
       bindS (or_forget h (reorg_to_tip px nd now fuel h)) (\<lambda>_. liftE (Inr (h, True))) else liftE (Inr (h, False)))"
    by (simp add: keeps_liftE)
qed

lemma held_accept_block:
  assumes s: "held s" and ok: "ok blk"
  shows "held (snd (accept_block px nd now fuel blk s))"
proof -
  have o: "held (store_orphan blk s)"
    using s ok store_orphan_stored [of ok s blk] bookkeeping [of s "store_orphan blk s"]
    by (simp add: held_def store_orphan_def prune_orphan_pool_def same_ledger_def Let_def)
  show ?thesis
    unfolding accept_block_def Let_def
    by (intro held_if held_liftE keeps_state [OF held_connect_or_forget] keeps_state [OF held_choose_and_reorg]
        held_index s ok) (simp_all only: snd_conv o s)
qed

lemma held_bindS:
  assumes "held (snd (m s))" "\<And>a s'. held s' \<Longrightarrow> held (snd (f a s'))"
  shows "held (snd (bindS m f s))"
proof -
  obtain r s' where "m s = (r, s')" by fastforce
  then show ?thesis using assms by (cases r) (simp_all add: bindS_def)
qed

lemma held_prune: "held s \<Longrightarrow> held (prune_caches nd s)"
  using prune_caches_stored [of ok s nd] bookkeeping [of s "prune_caches nd s"] by (simp add: held_def same_ledger_def)

lemma held_take_children:
  assumes "held s" "map_of (ch_orphan_pool s) h = Some bs"
  shows "held (s\<lparr>ch_orphan_pool := AList.delete h (ch_orphan_pool s)\<rparr>)" "\<forall>b \<in> set bs. ok b"
proof -
  have st: "stored_ok ok s" using assms(1) by (simp add: held_def)
  have "set (AList.delete h (ch_orphan_pool s)) \<subseteq> set (ch_orphan_pool s)" by (auto simp: AList.delete_eq)
  then have "stored_ok ok (s\<lparr>ch_orphan_pool := AList.delete h (ch_orphan_pool s)\<rparr>)"
    by (intro stored_okI [OF st]) simp_all
  then show "held (s\<lparr>ch_orphan_pool := AList.delete h (ch_orphan_pool s)\<rparr>)"
    using assms(1) bookkeeping [of s "s\<lparr>ch_orphan_pool := AList.delete h (ch_orphan_pool s)\<rparr>"]
    by (simp add: held_def same_ledger_def)
  show "\<forall>b \<in> set bs. ok b"
    using st map_of_SomeD [OF assms(2)] by (auto simp: stored_ok_def)
qed

lemma held_try_reorg:
  assumes "\<forall>b \<in> set bs. ok b"
  shows "held s \<Longrightarrow> held (snd (try_reorg px nd now bs s))"
proof -
  assume s: "held s"
  have step: "keeps held (\<lambda>_. True) (try_reorg_step px nd now b h)" if "b \<in> set bs" for b h
    unfolding try_reorg_step_def
    by (intro keeps_bindS [where Q = "\<lambda>_. True"] keeps_liftE held_connect)
      (use assms that in \<open>auto simp: keeps_def\<close>)
  have "keeps held (\<lambda>_. True) (foldS (try_reorg_step px nd now) bs h)" for h
    by (rule keeps_foldS) (simp_all add: step)
  then have f: "held (snd (foldS (try_reorg_step px nd now) bs h s))" for h using s by (rule keeps_state)
  show ?thesis
  proof (cases "best_header_if_better s")
    case (Some hw)
    show ?thesis
      unfolding try_reorg_def Some option.case
    proof (rule held_bindS, rule f)
      fix a :: bytes and s'
      assume "held s'"
      then show "held (snd (Inr True, s'\<lparr>ch_headers := [], ch_header_chain := []\<rparr>))"
        using bookkeeping [of s' "s'\<lparr>ch_headers := [], ch_header_chain := []\<rparr>"]
        by (simp add: held_def same_ledger_def stored_ok_def)
    qed
  qed (simp add: try_reorg_def s)
qed

lemma held_process_all:
  "(\<forall>blk s. held s \<longrightarrow> ok blk \<longrightarrow> held (snd (process_block px nd now fuel blk s))) \<and>
   (\<forall>h s. held s \<longrightarrow> held (snd (drain_orphans px nd now fuel h s))) \<and>
   (\<forall>bs h s. held s \<longrightarrow> (\<forall>b \<in> set bs. ok b) \<longrightarrow> held (snd (process_children px nd now fuel bs h s)))"
proof (induction fuel)
  case 0
  have "held s \<Longrightarrow> held (snd (process_children px nd now 0 bs h s))" for bs h s by (cases bs) simp_all
  then show ?case by simp
next
  case (Suc fuel)
  have IHp: "held (snd (process_block px nd now fuel blk s))" if "held s" "ok blk" for blk s
    using Suc that by blast
  have IHd: "held (snd (drain_orphans px nd now fuel h s))" if "held s" for h s using Suc that by blast
  have IHc: "held (snd (process_children px nd now fuel bs h s))" if "held s" "\<forall>b \<in> set bs. ok b" for bs h s
    using Suc that by blast
  have p: "held (snd (process_block px nd now (Suc fuel) blk s))" if "held s" "ok blk" for blk s
    unfolding process_block.simps
  proof (rule held_bindS, rule held_accept_block [OF that])
    fix a :: "bytes \<times> bool" and s1
    assume s1: "held s1"
    obtain h adv where a: "a = (h, adv)" by (cases a)
    show "held (snd ((case a of (h, advanced_tip) \<Rightarrow> \<lambda>s.
       bindS (drain_orphans px nd now fuel (tip_hash nd s)) (\<lambda>_ s.
       let s = prune_caches nd s
       in if \<not> advanced_tip \<and> tip_hash nd s \<noteq> h then (Inl (Err ''block stored on side chain''), s)
          else (Inr (ch_height s, tip_hash nd s), s)) s) s1))"
      unfolding a prod.case Let_def
      by (rule held_bindS, rule IHd [OF s1], rule held_if) (simp_all only: snd_conv held_prune)
  qed
  have d: "held (snd (drain_orphans px nd now (Suc fuel) h s))" if "held s" for h s
  proof (cases "map_of (ch_orphan_pool s) h")
    case (Some bs)
    show ?thesis
      unfolding drain_orphans.simps Some option.case
      by (rule held_bindS, rule IHc, (rule held_take_children [OF that Some])+, rule IHd)
  qed (simp add: that)
  have c: "held (snd (process_children px nd now (Suc fuel) bs h s))" if "held s" "\<forall>b \<in> set bs. ok b" for bs h s
  proof (cases bs)
    case (Cons b bs')
    obtain r s' where p: "process_block px nd now fuel b s = (r, s')" by fastforce
    have s': "held s'" using IHp [OF that(1), of b] that(2) by (simp add: p Cons)
    have bs': "\<forall>b \<in> set bs'. ok b" using that(2) by (simp add: Cons)
    show ?thesis
      unfolding Cons process_children.simps p prod.case
      using s' IHc [OF s' bs'] by (cases r; cases "projl r") (auto split: prod.split)
  qed (simp add: that)
  show ?case using p d c by blast
qed

end

interpretation sound: ledger_contract "chain_inv nd params" block_counts_ok px nd for nd params px
proof
  show "chain_inv nd params s'" if "chain_inv nd params s" "same_ledger s s'" for s s'
    using that by (auto simp: same_ledger_def intro: chain_inv_frame)
qed (simp_all add: connect_block_inv disconnect_tip_block_inv)

section \<open>Reachable states\<close>

text \<open>
  The states a node goes through: a new state, and then any sequence of the public operations, at any
  times and with any outcomes. The blocks are those the wire format can carry.
\<close>

inductive reachable :: "('r, 'p) poawx \<Rightarrow> node \<Rightarrow> 'r ChainParams \<Rightarrow> ('r, 'p) ChainState \<Rightarrow> bool"
  for px nd params where
  new: "chain_state_new nd now params p = Inr s \<Longrightarrow> block_counts_ok (genesis_block params) \<Longrightarrow>
    reachable px nd params s"
| process: "reachable px nd params s \<Longrightarrow> block_counts_ok blk \<Longrightarrow>
    reachable px nd params (snd (process_block px nd now fuel blk s))"
| connect: "reachable px nd params s \<Longrightarrow> block_counts_ok blk \<Longrightarrow>
    reachable px nd params (snd (connect_block px nd now blk s))"
| try_connect: "reachable px nd params s \<Longrightarrow> block_counts_ok blk \<Longrightarrow>
    reachable px nd params (snd (try_connect_at px nd now height blk s))"
| disconnect: "reachable px nd params s \<Longrightarrow> reachable px nd params (snd (disconnect_tip_block px nd s))"
| reorg: "reachable px nd params s \<Longrightarrow> reachable px nd params (snd (reorg_to_tip px nd now fuel h s))"
| try_reorg: "reachable px nd params s \<Longrightarrow> \<forall>b \<in> set bs. block_counts_ok b \<Longrightarrow>
    reachable px nd params (snd (try_reorg px nd now bs s))"
| hdr: "reachable px nd params s \<Longrightarrow> reachable px nd params (snd (add_header nd bh s))"
| prune: "reachable px nd params s \<Longrightarrow> reachable px nd params (prune_caches nd s)"
| prune_orphans: "reachable px nd params s \<Longrightarrow> reachable px nd params (snd (prune_unadoptable_orphans nd s))"
| clear_orphans: "reachable px nd params s \<Longrightarrow> reachable px nd params (snd (clear_orphan_pool s))"

lemma coins_ok_empty: "coins_ok Map.empty" "coin_supply Map.empty = 0"
  by (simp_all add: coins_ok_def coin_supply_def)

lemma chain_state_new_cases:
  assumes "chain_state_new nd now params p = Inr s"
  obtains fees tot subsidy undo s1 where
    "validate_and_apply_transactions nd (genesis_block params) 0 0 False (Some MAX_MONEY) (empty_state params p) =
       (Inr (fees, tot, subsidy, undo), s1)"
    "ch_params s = ch_params s1" "ch_chain s = ch_chain s1 @ [genesis_block params]" "ch_height s = 1"
    "ch_utxos s = ch_utxos s1" "ch_issued s = subsidy" "ch_undo_logs s = ch_undo_logs s1"
    "ch_block_store s = (ch_block_store s1)(block_hash_at nd (header (genesis_block params)) 0 \<mapsto> genesis_block params)"
    "ch_orphan_pool s = ch_orphan_pool s1"
  using assms
  by (auto simp: chain_state_new_def Let_def connect_genesis_def bindS_eq_Inr liftE_eq_Inr
      split: sum.split_asm prod.split_asm if_split_asm)

lemma coinbase_total_le:
  assumes "foldS (apply_coinbase_output nd h t) outs cb s = (Inr cb', s')"
  shows "unat (cb_total cb') \<le> unat (cb_total cb) + (\<Sum>out \<leftarrow> outs. unat (out_value out))"
  using assms
proof (induction outs arbitrary: cb s)
  case (Cons out outs)
  obtain cb1 s1 where o: "apply_coinbase_output nd h t out cb s = (Inr cb1, s1)"
    and r: "foldS (apply_coinbase_output nd h t) outs cb1 s1 = (Inr cb', s')"
    using Cons.prems by (auto simp: bindS_eq_Inr)
  have "cb_total cb1 = cb_total cb \<or> checked_add (cb_total cb) (out_value out) = Some (cb_total cb1)"
    using o by (auto simp: apply_coinbase_output_def Let_def bindS_eq_Inr liftE_eq_Inr split: if_split_asm option.split_asm)
  then have "unat (cb_total cb1) \<le> unat (cb_total cb) + unat (out_value out)"
    using unat_add_no_wrap [of "cb_total cb" "out_value out"] by (auto simp: checked_add_def split: if_split_asm)
  then show ?case using Cons.IH [OF r] by simp
qed simp

lemma subsidy_le_coinbase:
  assumes v: "validate_and_apply_transactions nd blk reward h enf maxs s = (Inr (fees, tot, subsidy, undo), s')"
  shows "unat subsidy \<le> (\<Sum>out \<leftarrow> outputs (hd (transactions blk)). unat (out_value out))"
proof -
  obtain coinbase txs ap s1 cb s2 where b: "transactions blk = coinbase # txs"
    and cbl: "foldS (apply_coinbase_output nd h (hdr_time (header blk))) (outputs coinbase)
       \<lparr>cb_apply = ap, cb_total = 0, cb_btc_count = 0, cb_ltc_count = 0\<rparr> s1 = (Inr cb, s2)"
    and fin: "finish_block nd coinbase reward h enf maxs cb s2 = (Inr (fees, tot, subsidy, undo), s')"
    using v by (rule validate_and_apply_cases)
  have "subsidy = subsidy_of enf reward (tt_fees (ap_totals (cb_apply cb))) (cb_total cb)"
    using fin by (auto simp: finish_block_def Let_def split: if_split_asm option.split_asm)
  moreover have le: "sat_sub a b \<le> a" for a b :: u64
    by (auto simp: sat_sub_def word_le_nat_alt unat_sub not_less)
  ultimately have "subsidy \<le> cb_total cb"
    by (auto simp: subsidy_of_def Let_def min_def intro: order_trans [OF _ le])
  then show ?thesis using coinbase_total_le [OF cbl] b by (simp add: word_le_nat_alt)
qed

lemma chain_state_new_inv:
  assumes n: "chain_state_new nd now params p = Inr s" and ok: "block_counts_ok (genesis_block params)"
  shows "chain_inv nd params s \<and> stored_ok block_counts_ok s"
proof -
  obtain fees tot subsidy undo s1 where
    v: "validate_and_apply_transactions nd (genesis_block params) 0 0 False (Some MAX_MONEY) (empty_state params p) =
       (Inr (fees, tot, subsidy, undo), s1)"
    and f: "ch_params s = ch_params s1" "ch_chain s = ch_chain s1 @ [genesis_block params]" "ch_height s = 1"
    "ch_utxos s = ch_utxos s1" "ch_issued s = subsidy" "ch_undo_logs s = ch_undo_logs s1"
    "ch_block_store s = (ch_block_store s1)(block_hash_at nd (header (genesis_block params)) 0 \<mapsto> genesis_block params)"
    "ch_orphan_pool s = ch_orphan_pool s1"
    by (rule chain_state_new_cases [OF n])
  have e: "ch_utxos (empty_state params p) = Map.empty" "ch_chain (empty_state params p) = []"
    "ch_params (empty_state params p) = params" "ch_block_store (empty_state params p) = Map.empty"
    "ch_orphan_pool (empty_state params p) = []"
    by (simp_all add: empty_state_def)
  have "sound_coins (scheduled nd params 0) (ch_utxos s1) subsidy"
    using block_conserves_coins [OF v] ok subsidy_le_coinbase [OF v]
    by (simp add: block_counts_ok_def e coins_ok_empty sound_coins_def scheduled_def genesis_supply_def)
  moreover note ef = apply_effects_fields [OF v] apply_effects_store [OF v]
  ultimately show ?thesis
    using ok by (simp add: chain_inv_def f ef e stored_ok_def)
qed

lemma inv_bookkeeping:
  assumes "chain_inv nd params s \<and> stored_ok ok s" "same_ledger s s'" "ch_block_store s' = ch_block_store s"
    "set (ch_orphan_pool s') \<subseteq> set (ch_orphan_pool s)"
  shows "chain_inv nd params s' \<and> stored_ok ok s'"
proof
  show "chain_inv nd params s'" using assms(1,2) by (blast intro: sound.bookkeeping)
  show "stored_ok ok s'" using assms by (intro stored_okI [of ok s s']) (auto simp: same_ledger_def)
qed

lemma add_header_ledger:
  "same_ledger s (snd (add_header nd bh s))" "ch_block_store (snd (add_header nd bh s)) = ch_block_store s"
  "ch_orphan_pool (snd (add_header nd bh s)) = ch_orphan_pool s"
  by (simp add: add_header_def same_ledger_def Let_def split: option.split prod.split)+

lemma orphan_pool_ledger:
  "same_ledger s (snd (prune_unadoptable_orphans nd s))" "same_ledger s (snd (clear_orphan_pool s))"
  "ch_block_store (snd (prune_unadoptable_orphans nd s)) = ch_block_store s"
  "ch_block_store (snd (clear_orphan_pool s)) = ch_block_store s"
  "set (ch_orphan_pool (snd (prune_unadoptable_orphans nd s))) \<subseteq> set (ch_orphan_pool s)"
  "set (ch_orphan_pool (snd (clear_orphan_pool s))) \<subseteq> set (ch_orphan_pool s)"
  by (auto simp: prune_unadoptable_orphans_def clear_orphan_pool_def same_ledger_def Let_def)

lemma reachable_inv:
  "reachable px nd params s \<Longrightarrow> chain_inv nd params s \<and> stored_ok block_counts_ok s"
proof (induction rule: reachable.induct)
  case (new now p s)
  then show ?case by (rule chain_state_new_inv)
next
  case (process s blk now fuel)
  then show ?case using sound.held_process_all [of nd params px now fuel] by (simp add: sound.held_def)
next
  case (connect s blk now)
  then show ?case by (simp add: connect_block_inv connect_block_stored)
next
  case (try_connect s blk now height)
  then have "chain_inv nd params (snd (connect_block px nd now blk s)) \<and>
      stored_ok block_counts_ok (snd (connect_block px nd now blk s))"
    by (simp add: connect_block_inv connect_block_stored)
  then show ?case
    using try_connect by (auto simp: try_connect_at_def split: prod.split sum.split)
next
  case (disconnect s)
  then show ?case
    using disconnect_tip_block_stored [of block_counts_ok s px nd "fst (disconnect_tip_block px nd s)"]
    by (simp add: disconnect_tip_block_inv)
next
  case (reorg s now fuel h)
  then show ?case
    using keeps_state [OF sound.held_reorg, of nd params s px now fuel h] by (simp add: sound.held_def)
next
  case (try_reorg s bs now)
  then show ?case using sound.held_try_reorg [of bs nd params s px now] by (simp add: sound.held_def)
next
  case (hdr s bh)
  show ?case by (rule inv_bookkeeping [OF hdr.IH]) (simp_all add: add_header_ledger)
next
  case (prune s)
  then show ?case using sound.held_prune [of nd params s] by (simp add: sound.held_def)
next
  case (prune_orphans s)
  show ?case by (rule inv_bookkeeping [OF prune_orphans.IH]) (rule orphan_pool_ledger)+
next
  case (clear_orphans s)
  show ?case by (rule inv_bookkeeping [OF clear_orphans.IH]) (rule orphan_pool_ledger)+
qed

lemma valid_chain_nth:
  "valid_chain nd params (rev chain) \<Longrightarrow> 0 < i \<Longrightarrow> i < length chain \<Longrightarrow> block_valid nd params (take i chain) (chain ! i)"
proof (induction chain rule: rev_induct)
  case (snoc b bs)
  then obtain c cs where c: "rev bs = c # cs" by (cases "rev bs") auto
  have bs: "rev cs @ [c] = bs" using arg_cong [OF c, of rev] by simp
  have "valid_chain nd params (rev bs)" "block_valid nd params bs b"
    using snoc.prems(1) by (simp_all add: c bs)
  then show ?case using snoc by (cases "i = length bs") (auto simp: nth_append)
qed simp

section \<open>Reorganisation and finality\<close>

lemma connect_block_chain:
  assumes "connect_block px nd now blk s = (r, s')"
  shows "ch_chain s' = (case r of Inr _ \<Rightarrow> ch_chain s @ [blk] | Inl _ \<Rightarrow> ch_chain s)"
proof (cases r)
  case (Inl e)
  consider (err) "same_but_relays s s'"
    | (over) fees tot subsidy undo where "apply_next nd blk s = (Inr (fees, tot, subsidy, undo), s')"
    using connect_block_Inl [OF assms [unfolded Inl]] by blast
  then show ?thesis
  proof cases
    case err
    then show ?thesis using Inl same_but_relaysD(6) [OF err] by simp
  next
    case over
    then show ?thesis using Inl apply_effects_fields(5) [OF over] by simp
  qed
next
  case (Inr u)
  obtain fees tot subsidy undo s1 iss where v: "apply_next nd blk s = (Inr (fees, tot, subsidy, undo), s1)"
    and s': "s' = finish_connect px nd blk (ch_height s) iss undo s1"
    by (rule connect_block_Inr [OF assms [unfolded Inr]])
  show ?thesis using Inr finish_connect_simps(3) [OF s'] apply_effects_fields(5) [OF v] by simp
qed

text \<open>The first blocks of the chain are given ones and there are at least \<open>k\<close> more.\<close>

definition has_prefix :: "'r Block list \<Rightarrow> nat \<Rightarrow> ('r, 'p) ChainState \<Rightarrow> bool" where
  "has_prefix pre k s \<longleftrightarrow> (\<exists>bs. ch_chain s = pre @ bs \<and> k \<le> length bs)"

lemma has_prefix_connect:
  assumes "connect_block px nd now blk s = (r, s')" "has_prefix pre k s"
  shows "has_prefix pre (if isl r then k else Suc k) s'"
  using assms connect_block_chain [OF assms(1)] by (cases r) (auto simp: has_prefix_def)

lemma has_prefix_disconnect:
  assumes "has_prefix pre (Suc k) s"
  shows "has_prefix pre k (snd (disconnect_tip_block px nd s))"
proof -
  obtain r s' where d: "disconnect_tip_block px nd s = (r, s')" by fastforce
  obtain bs where b: "ch_chain s = pre @ bs" "Suc k \<le> length bs" using assms by (auto simp: has_prefix_def)
  from d show ?thesis
  proof (cases rule: disconnect_tip_block_cases)
    case (pop bs' tip undo p sig)
    have "ch_chain s' = butlast (pre @ bs)" by (simp add: pop(5) b)
    also have "\<dots> = pre @ butlast bs" using b(2) by (auto simp: butlast_append)
    finally show ?thesis using b(2) by (simp add: has_prefix_def d)
  qed (use b d in \<open>auto simp: has_prefix_def\<close>)
qed

lemma snd_ignore_err: "snd (ignore_err m s) = snd (m s)"
  by (simp add: ignore_err_def split: prod.split sum.split err.split)

lemma has_prefix_take_off:
  "has_prefix pre (length xs) s \<Longrightarrow>
     has_prefix pre 0 (snd (foldS (\<lambda>_ _. ignore_err (disconnect_tip_block px nd)) xs () s))"
proof (induction xs arbitrary: s)
  case (Cons x xs)
  obtain r s' where d: "ignore_err (disconnect_tip_block px nd) s = (r, s')" by fastforce
  have "has_prefix pre (length xs) s'"
    using has_prefix_disconnect [of pre "length xs" s px nd] Cons.prems d snd_ignore_err [of "disconnect_tip_block px nd" s]
    by simp
  moreover from this have "has_prefix pre 0 s'" by (auto simp: has_prefix_def)
  ultimately show ?case using Cons.IH by (cases r) (simp_all add: bindS_def d)
qed simp

lemma has_prefix_put_back:
  "has_prefix pre 0 s \<Longrightarrow>
     has_prefix pre 0 (snd (foldS (\<lambda>old _. ignore_err (connect_block px nd now old)) xs () s))"
proof (induction xs arbitrary: s)
  case (Cons x xs)
  obtain r s' where d: "ignore_err (connect_block px nd now x) s = (r, s')" by fastforce
  have "has_prefix pre 0 (snd (connect_block px nd now x s))"
    using has_prefix_connect [of px nd now x s _ _ pre 0] Cons.prems
    by (cases "connect_block px nd now x s") (fastforce simp: has_prefix_def)
  then have "has_prefix pre 0 s'" using snd_ignore_err [of "connect_block px nd now x" s] d by simp
  then show ?case using Cons.IH by (cases r) (simp_all add: bindS_def d)
qed simp

lemma has_prefix_restore:
  assumes "has_prefix pre k s"
  shows "has_prefix pre 0 (snd (restore_branch px nd now k ds s))"
proof -
  let ?m = "foldS (\<lambda>_ _. ignore_err (disconnect_tip_block px nd)) [0..<k] ()"
  obtain r s' where m: "?m s = (r, s')" by fastforce
  have "has_prefix pre 0 s'" using has_prefix_take_off [of pre "[0..<k]" s px nd] assms m by simp
  then show ?thesis
    using has_prefix_put_back [of pre s'] m unfolding restore_branch_def by (cases r) (simp_all add: bindS_def)
qed

lemma has_prefix_connect_branch:
  "has_prefix pre k s \<Longrightarrow> has_prefix pre 0 (snd (connect_branch px nd now ds k bs s))"
proof (induction bs arbitrary: k s)
  case (Cons b bs)
  obtain r s' where c: "connect_block px nd now b s = (r, s')" by fastforce
  have p: "has_prefix pre (if isl r then k else Suc k) s'" by (rule has_prefix_connect [OF c Cons.prems])
  show ?case
  proof (cases r)
    case (Inl e)
    then have k: "has_prefix pre k s'" "has_prefix pre 0 s'" using p by (auto simp: has_prefix_def)
    obtain r' s'' where r: "restore_branch px nd now k ds s' = (r', s'')" by fastforce
    then have "has_prefix pre 0 s''" using has_prefix_restore [OF k(1), of px nd now ds] by simp
    then show ?thesis using Inl k(2) by (cases e; cases r') (simp_all add: c r bindS_def liftE_def)
  next
    case (Inr u)
    then show ?thesis using Cons.IH [of "Suc k" s'] p by (simp add: c)
  qed
qed (auto simp: has_prefix_def)

lemma has_prefix_disconnect_to:
  assumes "chain_inv nd params s" "has_prefix pre 0 s" "length pre = Suc (unat anc)"
  shows "has_prefix pre 0 (snd (disconnect_to px nd anc fuel acc s))"
  using assms
proof (induction fuel arbitrary: acc s)
  case (Suc fuel)
  show ?case
  proof (cases "tip_height s > anc")
    case True
    obtain r s' where d: "disconnect_tip_block px nd s = (r, s')" by fastforce
    have "unat anc < length (ch_chain s) - 1"
      using True chain_inv_height(3) [OF Suc.prems(1)] by (simp add: word_less_nat_alt)
    then have "has_prefix pre (Suc 0) s" using Suc.prems(2,3) by (auto simp: has_prefix_def Suc_le_eq)
    then have "has_prefix pre 0 s'" using has_prefix_disconnect [of pre 0 s px nd] d by simp
    moreover have "chain_inv nd params s'" using disconnect_tip_block_inv [OF Suc.prems(1), of px] d by simp
    ultimately show ?thesis using Suc.IH Suc.prems(3) True by (cases r) (simp_all add: d bindS_def)
  qed (use Suc.prems in simp)
qed simp

lemma reorg_to_tip_prefix:
  assumes i: "chain_inv nd params s"
  shows "ch_chain (snd (reorg_to_tip px nd now fuel t s)) = ch_chain s \<or>
    (\<exists>anc. reorg_allowed nd s anc = Inr () \<and> anc < tip_height s \<and>
       take (Suc (unat anc)) (ch_chain (snd (reorg_to_tip px nd now fuel t s))) = take (Suc (unat anc)) (ch_chain s))"
proof (cases "find_reorg_path nd s fuel t []")
  case (Inr p)
  obtain anc br where p: "p = (anc, br)" by (cases p)
  show ?thesis
  proof (cases "anc \<ge> tip_height s \<or> isl (reorg_allowed nd s anc)")
    case True
    then have "ch_chain (snd (reorg_to_tip px nd now fuel t s)) = ch_chain s"
      by (cases "reorg_allowed nd s anc") (auto simp: reorg_to_tip_def Inr p bindS_def liftE_def)
    then show ?thesis by simp
  next
    case False
    then have lt: "anc < tip_height s" and al: "reorg_allowed nd s anc = Inr ()"
      by (auto simp: not_le split: sum.split_asm) (cases "reorg_allowed nd s anc"; simp)
    have nle: "\<not> tip_height s \<le> anc" using lt by simp
    let ?pre = "take (Suc (unat anc)) (ch_chain s)"
    have len: "length ?pre = Suc (unat anc)"
      using lt chain_inv_height(3) [OF i] by (simp add: word_less_nat_alt)
    have h: "has_prefix ?pre 0 s" unfolding has_prefix_def by (metis append_take_drop_id le0)
    obtain r s1 where d: "disconnect_to px nd anc (Suc (length (ch_chain s))) [] s = (r, s1)" by fastforce
    have h1: "has_prefix ?pre 0 s1" using has_prefix_disconnect_to [OF i h len, of px "Suc (length (ch_chain s))" "[]"] d by simp
    have "has_prefix ?pre 0 (snd (reorg_to_tip px nd now fuel t s))"
    proof (cases r)
      case (Inl e)
      then show ?thesis using h1 nle by (simp add: reorg_to_tip_def Inr p al liftE_def bindS_def d del: disconnect_to.simps)
    next
      case (Inr ds)
      obtain r2 s2 where c: "connect_branch px nd now ds 0 br s1 = (r2, s2)" by fastforce
      have "has_prefix ?pre 0 s2" using has_prefix_connect_branch [OF h1, of px nd now ds br] c by simp
      then show ?thesis
        using Inr \<open>find_reorg_path nd s fuel t [] = Inr p\<close> nle
        by (cases r2) (simp_all add: reorg_to_tip_def p al liftE_def bindS_def d c has_prefix_def del: disconnect_to.simps)
    qed
    then have "take (Suc (unat anc)) (ch_chain (snd (reorg_to_tip px nd now fuel t s))) = ?pre"
      using len by (auto simp: has_prefix_def)
    then show ?thesis using lt al by blast
  qed
qed (simp add: reorg_to_tip_def bindS_def liftE_def)

lemma take_eq_mono: "take n xs = take n ys \<Longrightarrow> m \<le> n \<Longrightarrow> take m xs = take m ys"
  by (metis min.absorb1 take_take)

lemma reorg_prefix:
  assumes i: "chain_inv nd params s" and "reorg_to_tip px nd now fuel t s = (r, s')"
  shows "take (Suc (unat (ch_finalized_height s))) (ch_chain s') = take (Suc (unat (ch_finalized_height s))) (ch_chain s) \<and>
    (fork_choice_hardening_active (nd_env nd) (tip_height s) \<longrightarrow>
      take (length (ch_chain s) - unat (max_reorg_depth (nd_env nd))) (ch_chain s') =
      take (length (ch_chain s) - unat (max_reorg_depth (nd_env nd))) (ch_chain s))"
proof -
  have "ch_chain s' = ch_chain s \<or> (\<exists>anc. reorg_allowed nd s anc = Inr () \<and> anc < tip_height s \<and>
       take (Suc (unat anc)) (ch_chain s') = take (Suc (unat anc)) (ch_chain s))"
    using reorg_to_tip_prefix [OF i, of px now fuel t] assms(2) by simp
  then consider "ch_chain s' = ch_chain s" | anc where "reorg_allowed nd s anc = Inr ()" "anc < tip_height s"
    "take (Suc (unat anc)) (ch_chain s') = take (Suc (unat anc)) (ch_chain s)" by blast
  then show ?thesis
  proof cases
    case 2
    have f: "unat (ch_finalized_height s) \<le> unat anc"
      using 2(1) by (simp add: reorg_allowed_def Let_def bindE_eq_Inr not_less word_le_nat_alt)
    have dd: "length (ch_chain s) - unat (max_reorg_depth (nd_env nd)) \<le> Suc (unat anc)"
      if "fork_choice_hardening_active (nd_env nd) (tip_height s)"
    proof -
      have "tip_height s - anc \<le> max_reorg_depth (nd_env nd)"
        using 2(1) that by (simp add: reorg_allowed_def Let_def bindE_eq_Inr not_less)
      moreover have "unat (tip_height s - anc) = unat (tip_height s) - unat anc"
        using 2(2) by (intro unat_sub) simp
      ultimately show ?thesis using chain_inv_height(3) [OF i] by (simp add: word_le_nat_alt)
    qed
    show ?thesis
      using take_eq_mono [OF 2(3)] f dd by simp
  qed simp
qed

end
