(* ===== verification/ChainProps.thy ===== *)
theory ChainProps
  imports ChainInv
begin

text \<open>
  The properties of the chain: the supply cap, the validity of the main chain, the acceptance of honest
  blocks, finality under reorganisation and what disconnecting a block restores, with a concrete
  two-block chain on which their hypotheses hold.
\<close>

section \<open>An honest block is accepted\<close>

text \<open>An output with an ordinary script: none of the tags of the settlement and relay outputs.\<close>

definition plain_output :: "TxOutput \<Rightarrow> bool" where
  "plain_output out \<longleftrightarrow> length (script_pubkey out) \<le> 0xff \<and> (script_pubkey out = [] \<or> hd (script_pubkey out) < 0xc0)"

lemma plain_output_counted:
  assumes "plain_output out" "unat (cb_total cb) + unat (out_value out) \<le> 10 ^ 16"
  shows "apply_coinbase_output nd h t out cb s = (Inr (cb\<lparr>cb_total := cb_total cb + out_value out\<rparr>), s)"
proof -
  have t: "\<not> has_tag (script_pubkey out) tag" if "0xc0 \<le> tag" for tag
    using assms(1) that by (cases "script_pubkey out") (auto simp: has_tag_def plain_output_def)
  have l: "\<not> length (script_pubkey out) > 0xff" using assms(1) by (simp add: plain_output_def)
  have "unat (out_value out) \<le> 10 ^ 16" using assms(2) by simp
  then have v: "validate_output (nd_crypto nd) (gates_at (ch_params s) h) h out = Inr ()"
    using l by (simp add: validate_output_def Let_def t word_less_nat_alt ensure_def)
  have "checked_add (cb_total cb) (out_value out) = Some (cb_total cb + out_value out)"
    using assms(2) by (simp add: checked_add_def)
  moreover have "unat (cb_total cb + out_value out) = unat (cb_total cb) + unat (out_value out)"
    using assms(2) by (intro unat_add_no_wrap) simp
  ultimately show ?thesis
    using assms(2) by (simp add: apply_coinbase_output_def t v bindS_liftE liftE_def word_less_nat_alt Let_def)
qed

lemma plain_outputs_counted:
  assumes "\<forall>out \<in> set outs. plain_output out" "unat (cb_total cb) + (\<Sum>out \<leftarrow> outs. unat (out_value out)) \<le> 10 ^ 16"
  shows "\<exists>w. unat w = unat (cb_total cb) + (\<Sum>out \<leftarrow> outs. unat (out_value out)) \<and>
    foldS (apply_coinbase_output nd h t) outs cb s = (Inr (cb\<lparr>cb_total := w\<rparr>), s)"
  using assms
proof (induction outs arbitrary: cb)
  case (Cons out outs)
  let ?cb = "cb\<lparr>cb_total := cb_total cb + out_value out\<rparr>"
  have "unat (cb_total cb + out_value out) = unat (cb_total cb) + unat (out_value out)"
    using Cons.prems(2) by (intro unat_add_no_wrap) simp
  moreover have "apply_coinbase_output nd h t out cb s = (Inr ?cb, s)"
    using Cons.prems by (intro plain_output_counted) simp_all
  ultimately show ?case
    using Cons.IH [of ?cb] Cons.prems by (simp add: bindS_def add.assoc)
next
  case Nil
  show ?case by (rule exI [of _ "cb_total cb"]) simp
qed

lemma honest_block_applies:
  assumes "transactions blk = [coinbase]" "is_coinbase coinbase" "outputs coinbase \<noteq> []"
    and "\<forall>out \<in> set (outputs coinbase). plain_output out"
    and t: "(\<Sum>out \<leftarrow> outputs coinbase. unat (out_value out)) = n" "enf \<longrightarrow> n \<le> unat reward" "n \<le> unat m" "m \<le> MAX_MONEY"
  obtains undo s' subsidy where "validate_and_apply_transactions nd blk reward h enf (Some m) s = (Inr (0, subsidy, subsidy, undo), s')"
    "unat subsidy = n"
proof -
  have nle: "n \<le> 10 ^ 16" using t(3,4) by (simp add: word_le_nat_alt)
  let ?cb = "\<lparr>cb_apply = start_apply, cb_total = 0, cb_btc_count = 0, cb_ltc_count = 0\<rparr>"
  obtain w where w: "unat w = n" and
    f: "foldS (apply_coinbase_output nd h (hdr_time (header blk))) (outputs coinbase) ?cb s = (Inr (?cb\<lparr>cb_total := w\<rparr>), s)"
    using plain_outputs_counted [of "outputs coinbase" ?cb nd h "hdr_time (header blk)" s] assms(4) t(1) nle by auto
  have sub: "subsidy_of enf reward 0 w = w"
    using w t(2) nle by (simp add: subsidy_of_def Let_def sint_small sat_sub_def min_def word_le_nat_alt)
      (auto simp: word_unat_eq_iff)
  obtain undo s' where "finish_block nd coinbase reward h enf (Some m) (?cb\<lparr>cb_total := w\<rparr>) s = (Inr (0, w, w, undo), s')"
  proof -
    have "\<not> (enf \<and> w > reward)" "\<not> w > m" using w t(2,3) by (auto simp: word_less_nat_alt)
    then show thesis
      using that sub by (auto simp: finish_block_def Let_def start_apply_def no_totals_def)
  qed
  then have "validate_and_apply_transactions nd blk reward h enf (Some m) s = (Inr (0, w, w, undo), s')"
    using assms(1-3) f by (simp add: validate_and_apply_transactions_def bindS_def)
  then show thesis using that w by blast
qed

lemma honest_block:
  assumes i: "chain_inv nd params s" and ok: "transactions blk = [coinbase]" "is_coinbase coinbase" "outputs coinbase \<noteq> []"
    "\<forall>out \<in> set (outputs coinbase). plain_output out"
    and n: "(\<Sum>out \<leftarrow> outputs coinbase. unat (out_value out)) = n"
    "n \<le> unat (block_reward (nd_env nd) (ch_height s))" "unat (ch_issued s) + n \<le> 10 ^ 16"
    and h: "validate_block_header nd now s blk (ch_height s) (last_block (ch_chain s)) = Inr ()"
    "px_check px s blk (ch_height s) = Inr ()" "length (ch_chain s) < MAX_VEC_LEN"
  shows "\<exists>s'. connect_block px nd now blk s = (Inr (), s') \<and> ch_chain s' = ch_chain s @ [blk] \<and>
    ch_height s' = ch_height s + 1 \<and> unat (ch_issued s') = unat (ch_issued s) + n"
proof -
  have "unat (MAX_MONEY - ch_issued s) = unat MAX_MONEY - unat (ch_issued s)"
    using n(3) by (intro unat_sub) (simp add: word_le_nat_alt)
  then have m: "n \<le> unat (MAX_MONEY - ch_issued s)" "MAX_MONEY - ch_issued s \<le> MAX_MONEY"
    using n(3) by (simp_all add: word_le_nat_alt)
  obtain undo s1 w where v: "apply_next nd blk s = (Inr (0, w, w, undo), s1)" and w: "unat w = n"
    by (rule honest_block_applies [OF ok n(1) _ m, of True "block_reward (nd_env nd) (ch_height s)" nd "ch_height s" s])
      (use n(2) in blast)+
  have c: "checked_add (ch_issued s1) w = Some (ch_issued s + w)"
    using n(3) w by (simp add: apply_effects_fields [OF v] checked_add_def)
  define s' where "s' = finish_connect px nd blk (ch_height s) (ch_issued s + w) undo s1"
  have "connect_block px nd now blk s = (Inr (), s')"
    using h v c by (simp add: connect_block_def Let_def bindS_def liftE_def s'_def)
  moreover have "unat (ch_issued s + w) = unat (ch_issued s) + n"
    using n(3) w by (simp add: unat_add_no_wrap)
  ultimately show ?thesis
    using finish_connect_simps [OF s'_def] by (simp add: apply_effects_fields [OF v])
qed

section \<open>A concrete chain\<close>

definition sample_node :: node where
  "sample_node = \<lparr>nd_env = (\<lambda>_. None), nd_crypto = sample_crypto, nd_kdf = (\<lambda>_ _ _ _ _ _. replicate 32 0),
     nd_hex = (\<lambda>_. []), nd_header_activation = 0\<rparr>"

definition sample_coinbase :: "u32 \<Rightarrow> Transaction" where
  "sample_coinbase v = \<lparr>tx_version = v,
     inputs = [\<lparr>prev_txid = replicate 32 0, prev_index = 0xffffffff, script_sig = [], sequence = 0\<rparr>],
     outputs = [\<lparr>out_value = 5000000000, script_pubkey = p2pkh_script (replicate 20 7)\<rparr>], locktime = 0\<rparr>"

definition mined_block :: "u32 \<Rightarrow> u32 \<Rightarrow> bytes \<Rightarrow> unit Block" where
  "mined_block v t prev =
     (let b = \<lparr>header = \<lparr>hdr_version = 1, hdr_prev_hash = prev, hdr_merkle_root = replicate 32 0, hdr_time = t,
                hdr_bits = 0x2100ffff, hdr_nonce = 0\<rparr>,
               transactions = [sample_coinbase v], auxpow = None, poawx_receipts = None\<rparr>
      in b\<lparr>header := (header b)\<lparr>hdr_merkle_root := merkle_root pad32 b\<rparr>\<rparr>)"

abbreviation sample_genesis :: "unit Block" where
  "sample_genesis \<equiv> mined_block 1 1 (replicate 32 0)"

abbreviation sample_next :: "u32 \<Rightarrow> unit Block" where
  "sample_next v \<equiv> mined_block v 2 (block_hash_at sample_node (header sample_genesis) 0)"

definition sample_params :: "unit ChainParams" where
  "sample_params = \<lparr>genesis_block = sample_genesis, pow_limit = Target 0x2100ffff,
     htlcv1_activation_height = None, mpsov1_activation_height = None,
     lwma = lwma_params_new None (Target 0x2100ffff), lwma_v2 = None, auxpow_activation_height = None,
     btc_spv = None, ltc_spv = None, htlc_btc_swap_v1_activation_height = None,
     btc_swap_bech32_payment_activation_height = None, htlc_ltc_swap_v1_activation_height = None,
     swap_order_v1_activation_height = None, ltc_swap_order_v1_activation_height = None,
     coinbase_header_batch_activation_height = None\<rparr>"

definition sample_poawx :: "(unit, unit) poawx" where
  "sample_poawx = \<lparr>px_check = (\<lambda>_ _ _. Inr ()), px_apply = (\<lambda>_ _. ((), 0)), px_quorum = (\<lambda>_ _. False),
     px_revert = (\<lambda>_ _ _. ()), px_better = (\<lambda>_ _. Inr False)\<rparr>"

definition sample_state :: "(unit, unit) ChainState" where
  "sample_state = (case chain_state_new sample_node 0 sample_params () of Inr s \<Rightarrow> s | Inl _ \<Rightarrow> empty_state sample_params ())"

lemma sample_pays:
  "plain_output \<lparr>out_value = 5000000000, script_pubkey = p2pkh_script (replicate 20 7)\<rparr>"
  by (simp add: plain_output_def p2pkh_script_def)

lemma mined_block_simps:
  "transactions (mined_block v t prev) = [sample_coinbase v]" "is_coinbase (sample_coinbase v)"
  "outputs (sample_coinbase v) = [\<lparr>out_value = 5000000000, script_pubkey = p2pkh_script (replicate 20 7)\<rparr>]"
  "block_counts_ok (mined_block v t prev)"
  by (simp_all add: mined_block_def sample_coinbase_def is_coinbase_def Let_def block_counts_ok_def)

lemma sample_genesis_header:
  "validate_block_header sample_node 0 (empty_state sample_params ()) sample_genesis 0 None = Inr ()"
  by code_simp

lemma validate_block_header_cong:
  assumes "ch_chain s = ch_chain s'" "ch_params s = ch_params s'"
  shows "validate_block_header nd now s blk h p = validate_block_header nd now s' blk h p"
  using assms by (simp add: validate_block_header_def)

lemma sample_next_header:
  "\<forall>v \<in> {1, 2}. validate_block_header sample_node 0 ((empty_state sample_params ())\<lparr>ch_chain := [sample_genesis]\<rparr>)
     (sample_next v) 1 (Some sample_genesis) = Inr ()"
  by code_simp

lemma relays_ok_empty: "relays_ok nd (empty_state params p)"
  unfolding relays_ok_def empty_state_def by (simp add: relay_ok_def headers_ok_def)

lemma relays_ok_commit [simp]:
  "relays_ok nd (s\<lparr>ch_utxos := m, ch_claimed_btc := a, ch_claimed_ltc := b\<rparr>) = relays_ok nd s"
  by (simp add: relays_ok_def)

lemma apply_relays_ok:
  assumes "validate_and_apply_transactions nd blk reward h enf maxs s = (Inr (fees, tot, subsidy, undo), s')" "relays_ok nd s"
  shows "relays_ok nd s'"
  by (rule apply_effects [OF assms(1)]) (use assms(2) in simp)

lemma sample_state_facts:
  "chain_state_new sample_node 0 sample_params () = Inr sample_state" "ch_chain sample_state = [sample_genesis]"
  "ch_params sample_state = sample_params" "ch_height sample_state = 1" "unat (ch_issued sample_state) = 5000000000"
  "relays_ok sample_node sample_state" "ch_finalized_height sample_state = 0"
proof -
  let ?e = "empty_state sample_params () :: (unit, unit) ChainState"
  obtain undo s1 w where v: "validate_and_apply_transactions sample_node sample_genesis 0 0 False (Some MAX_MONEY) ?e =
      (Inr (0, w, w, undo), s1)" and w: "unat w = 5000000000"
    by (rule honest_block_applies [OF mined_block_simps(1,2), where n = 5000000000 and m = MAX_MONEY and enf = False and reward = 0 and h = 0 and s = ?e and nd = sample_node])
      (simp_all add: mined_block_simps sample_pays)
  have g: "genesis_block sample_params = sample_genesis" by (simp add: sample_params_def)
  let ?s = "s1\<lparr>ch_total_work := block_work sample_genesis, ch_chain := ch_chain s1 @ [sample_genesis], ch_height := 1,
    ch_issued := w, ch_best_tip := block_hash_at sample_node (header sample_genesis) 0,
    ch_block_store := (ch_block_store s1)(block_hash_at sample_node (header sample_genesis) 0 \<mapsto> sample_genesis),
    ch_heights := (ch_heights s1)(block_hash_at sample_node (header sample_genesis) 0 \<mapsto> 0),
    ch_cumulative_work := (ch_cumulative_work s1)(block_hash_at sample_node (header sample_genesis) 0 \<mapsto> block_work sample_genesis)\<rparr>"
  have c: "chain_state_new sample_node 0 sample_params () = Inr ?s"
    using v sample_genesis_header
    by (simp add: chain_state_new_def connect_genesis_def g bindS_def liftE_def Let_def) (simp add: empty_state_def)
  then have s: "sample_state = ?s" by (simp add: sample_state_def)
  show "chain_state_new sample_node 0 sample_params () = Inr sample_state" using c s by simp
  note ef = apply_effects_fields [OF v] apply_effects_store [OF v]
  have e: "ch_chain ?e = []" "ch_params ?e = sample_params" "ch_finalized_height ?e = 0" by (simp_all add: empty_state_def)
  show "ch_chain sample_state = [sample_genesis]" "ch_params sample_state = sample_params" "ch_height sample_state = 1"
    "unat (ch_issued sample_state) = 5000000000" "ch_finalized_height sample_state = 0"
    using w by (simp_all add: s ef e)
  have "relays_ok sample_node s1" by (rule apply_relays_ok [OF v relays_ok_empty])
  then show "relays_ok sample_node sample_state" by (simp add: s relays_ok_def)
qed

lemma sample_reachable: "reachable sample_poawx sample_node sample_params sample_state"
  by (rule reachable.new [OF sample_state_facts(1)]) (simp add: sample_params_def mined_block_simps)

lemma sample_connect_facts:
  assumes "v \<in> {1, 2}"
  shows "validate_block_header sample_node 0 sample_state (sample_next v) (ch_height sample_state)
     (last_block (ch_chain sample_state)) = Inr ()"
    and "px_check sample_poawx sample_state (sample_next v) (ch_height sample_state) = Inr ()"
    and "block_reward (nd_env sample_node) (ch_height sample_state) = 5000000000"
proof -
  show "validate_block_header sample_node 0 sample_state (sample_next v) (ch_height sample_state)
     (last_block (ch_chain sample_state)) = Inr ()"
  proof -
    let ?e = "(empty_state sample_params ())\<lparr>ch_chain := [sample_genesis]\<rparr> :: (unit, unit) ChainState"
    have "ch_chain sample_state = ch_chain ?e" "ch_params sample_state = ch_params ?e"
      by (simp_all add: sample_state_facts empty_state_def)
    from trans [OF validate_block_header_cong [OF this] bspec [OF sample_next_header assms]]
    have "validate_block_header sample_node 0 sample_state (sample_next v) 1 (Some sample_genesis) = Inr ()" .
    then show ?thesis by (simp add: sample_state_facts last_block_def)
  qed
  show "px_check sample_poawx sample_state (sample_next v) (ch_height sample_state) = Inr ()"
    by (simp add: sample_poawx_def)
  have "block_reward (\<lambda>_. None) 1 = 5000000000" by code_simp
  then show "block_reward (nd_env sample_node) (ch_height sample_state) = 5000000000"
    by (simp add: sample_state_facts sample_node_def)
qed

section \<open>Properties of the chain\<close>

lemma chain_inv_supply:
  assumes "chain_inv nd params s"
  shows "coin_supply (ch_utxos s) \<le> unat (ch_issued s) \<and> unat (ch_issued s) \<le> unat MAX_MONEY \<and>
    unat (ch_issued s) \<le> genesis_supply params + emission (nd_env nd) (length (ch_chain s) - 1)"
proof -
  have "sound_coins (scheduled nd params (length (rev (ch_chain s)) - 1)) (ch_utxos s) (ch_issued s)"
    using assms unfolding chain_inv_def by (blast intro: undo_sound_coins)
  then show ?thesis by (simp add: sound_coins_def scheduled_def word_le_nat_alt)
qed



text \<open>
  C3. In every reachable state the height is the number of blocks, and every block above genesis
  extends the one below it, is later than the median of the blocks before it (from the activation
  height; than its parent before), commits to its own transactions, carries the difficulty the blocks
  below it demand and satisfies its proof of work.
\<close>

theorem reachable_chain_valid:
  assumes "reachable px nd params s" "0 < i" "i < length (ch_chain s)"
  shows "unat (ch_height s) = length (ch_chain s) \<and> block_valid nd params (take i (ch_chain s)) (ch_chain s ! i)"
proof
  have i: "chain_inv nd params s" using reachable_inv [OF assms(1)] by simp
  then show "unat (ch_height s) = length (ch_chain s)" by (rule chain_inv_height(1))
  show "block_valid nd params (take i (ch_chain s)) (ch_chain s ! i)"
    using i assms(2,3) by (intro valid_chain_nth) (simp_all add: chain_inv_def)
qed

lemma sample_honest:
  assumes "v \<in> {1, 2}"
  shows "transactions (sample_next v) = [sample_coinbase v]" "is_coinbase (sample_coinbase v)"
    "outputs (sample_coinbase v) \<noteq> []" "\<forall>out \<in> set (outputs (sample_coinbase v)). plain_output out"
    "(\<Sum>out \<leftarrow> outputs (sample_coinbase v). unat (out_value out)) = 5000000000"
    "5000000000 \<le> unat (block_reward (nd_env sample_node) (ch_height sample_state))"
    "unat (ch_issued sample_state) + 5000000000 \<le> 10 ^ 16" "length (ch_chain sample_state) < MAX_VEC_LEN"
  using sample_connect_facts(3) [OF assms]
  by (simp_all add: mined_block_simps sample_pays sample_state_facts)

lemma sample_connects:
  assumes "v \<in> {1, 2}"
  obtains s' where "connect_block sample_poawx sample_node 0 (sample_next v) sample_state = (Inr (), s')"
    "ch_chain s' = [sample_genesis, sample_next v]" "unat (ch_issued s') = 10000000000"
    "reachable sample_poawx sample_node sample_params s'"
proof -
  have i: "chain_inv sample_node sample_params sample_state" using reachable_inv [OF sample_reachable] by simp
  obtain s' where s': "connect_block sample_poawx sample_node 0 (sample_next v) sample_state = (Inr (), s')"
    "ch_chain s' = ch_chain sample_state @ [sample_next v]" "unat (ch_issued s') = unat (ch_issued sample_state) + 5000000000"
    using honest_block [OF i sample_honest(1-7) [OF assms] sample_connect_facts(1,2) [OF assms] sample_honest(8) [OF assms]]
    by auto
  moreover have "reachable sample_poawx sample_node sample_params s'"
    using reachable.connect [OF sample_reachable mined_block_simps(4), of 0 v 2 "block_hash_at sample_node (header sample_genesis) 0"]
      s'(1) by simp
  ultimately show thesis using that by (simp add: sample_state_facts)
qed

theorem reachable_chain_valid_witness:
  "\<exists>s. reachable sample_poawx sample_node sample_params s \<and> ch_chain s = [sample_genesis, sample_next 2] \<and>
     unat (ch_height s) = 2 \<and> block_valid sample_node sample_params [sample_genesis] (sample_next 2)"
proof -
  obtain s where s: "ch_chain s = [sample_genesis, sample_next 2]" "reachable sample_poawx sample_node sample_params s"
    by (rule sample_connects [of 2]) auto
  then show ?thesis using reachable_chain_valid [OF s(2), of 1] by auto
qed



text \<open>
  C5. A reorganisation, whether it succeeds or fails, keeps every block up to the finalised height;
  and while fork-choice hardening is active it keeps all but the last \<open>max_reorg_depth\<close> blocks.
\<close>

theorem reorg_respects_finality:
  assumes "reachable px nd params s" "reorg_to_tip px nd now fuel t s = (r, s')"
  shows "take (Suc (unat (ch_finalized_height s))) (ch_chain s') = take (Suc (unat (ch_finalized_height s))) (ch_chain s) \<and>
    (fork_choice_hardening_active (nd_env nd) (tip_height s) \<longrightarrow>
      take (length (ch_chain s) - unat (max_reorg_depth (nd_env nd))) (ch_chain s') =
      take (length (ch_chain s) - unat (max_reorg_depth (nd_env nd))) (ch_chain s))"
  using reorg_prefix [OF conjunct1 [OF reachable_inv [OF assms(1)]] assms(2)] .

theorem reorg_respects_finality_witness:
  "\<exists>s. reachable sample_poawx sample_node sample_params s \<and> ch_chain s = [sample_genesis, sample_next 2] \<and>
     hd (ch_chain (snd (reorg_to_tip sample_poawx sample_node 0 5 (replicate 32 9) s))) = sample_genesis"
proof -
  obtain s where s: "ch_chain s = [sample_genesis, sample_next 2]" "reachable sample_poawx sample_node sample_params s"
    by (rule sample_connects [of 2]) auto
  obtain r s' where r: "reorg_to_tip sample_poawx sample_node 0 5 (replicate 32 9) s = (r, s')" by fastforce
  have "take (Suc (unat (ch_finalized_height s))) (ch_chain s') = take (Suc (unat (ch_finalized_height s))) (ch_chain s)"
    using reorg_respects_finality [OF s(2) r] by simp
  then have "hd (ch_chain s') = sample_genesis" by (cases "ch_chain s'") (simp_all add: s(1))
  then show ?thesis using s r by auto
qed



lemma created_outpoint_unspent:
  "k \<in> fst ` set cs \<Longrightarrow> fold (insert_created h) cs m k \<noteq> None"
proof (induction cs arbitrary: m rule: rev_induct)
  case (snoc c cs)
  obtain op out cb where "c = (op, out, cb)" by (cases c)
  then show ?case using snoc by (auto simp: insert_created_def [of h])
qed simp

lemma same_coinbase_same_outpoints:
  "transactions b = transactions b' \<Longrightarrow> new_outpoints nd b = new_outpoints nd b' \<and> spent_outpoints b = spent_outpoints b'"
  by (simp add: new_outpoints_def created_outputs_def spent_outpoints_def)

lemma sample_genesis_coin:
  obtains k where "k \<in> new_outpoints sample_node sample_genesis" "ch_utxos sample_state k \<noteq> None"
proof -
  obtain fees tot subsidy undo s1 where
    v: "validate_and_apply_transactions sample_node sample_genesis 0 0 False (Some MAX_MONEY)
      (empty_state sample_params () :: (unit, unit) ChainState) = (Inr (fees, tot, subsidy, undo), s1)"
    and u: "ch_utxos sample_state = ch_utxos s1"
    by (rule chain_state_new_cases [OF sample_state_facts(1)]) (simp add: sample_params_def)
  have "new_outpoints sample_node sample_genesis \<noteq> {}"
    by (simp add: new_outpoints_def created_outputs_def mined_block_simps coinbase_created_def)
  then obtain k where k: "k \<in> new_outpoints sample_node sample_genesis" by blast
  then have "ch_utxos s1 k \<noteq> None"
    unfolding apply_effects_fields(1) [OF v] new_outpoints_def by (rule created_outpoint_unspent)
  then show thesis using that k u by simp
qed


end
