(* ===== verification/Genesis.thy ===== *)
theory Genesis
  imports ChainProps
begin

text \<open>
  The genesis block of the network, \<open>src/src/genesis.rs\<close>, \<open>src/configs/genesis-locked.json\<close> and the
  functions of \<open>src/src/chain.rs\<close> that turn the file into a block, with the supply of mainnet that starts
  from it. Hexadecimal decoding belongs to the crate \<open>hex\<close> and is the parameter \<open>hex_decode\<close>.
\<close>

unbundle bit_operations_syntax

section \<open>The locked genesis block\<close>

record GenesisHeader =
  gh_version :: u32
  gh_prev_hash :: string
  gh_merkle_root :: string
  gh_time :: u64
  gh_bits :: string
  gh_nonce :: u32
  gh_hash :: string

record LockedGenesis =
  lg_height :: u64
  lg_header :: GenesisHeader
  lg_transactions :: "string list"

text \<open>The compact format: every read is a slice, which panics past the end of the buffer.\<close>

definition compact_read :: "nat \<Rightarrow> bytes \<Rightarrow> nat \<Rightarrow> err + bytes \<times> nat" where
  "compact_read n buf off = (if off + n > length buf then Inl Panic else Inr (slice buf off (off + n), off + n))"

definition compact_u8 :: "bytes \<Rightarrow> nat \<Rightarrow> err + u8 \<times> nat" where
  "compact_u8 buf off = (if off \<ge> length buf then Inl Panic else Inr (buf ! off, off + 1))"

definition compact_u32 :: "bytes \<Rightarrow> nat \<Rightarrow> err + u32 \<times> nat" where
  "compact_u32 buf off = bindE (compact_read 4 buf off) (\<lambda>(b, off). Inr (le_u32 b, off))"

definition compact_u64 :: "bytes \<Rightarrow> nat \<Rightarrow> err + u64 \<times> nat" where
  "compact_u64 buf off = bindE (compact_read 8 buf off) (\<lambda>(b, off). Inr (le_u64 b, off))"

definition compact_input :: "bytes \<Rightarrow> nat \<Rightarrow> err + TxInput \<times> nat" where
  "compact_input raw off =
     bindE (compact_u8 raw off) (\<lambda>(prev_len, off).
     bindE (compact_read (unat prev_len) raw off) (\<lambda>(prev_txid_bytes, off).
     bindE (ensure (length prev_txid_bytes \<le> 32) Panic) (\<lambda>_.
     bindE (compact_u32 raw off) (\<lambda>(prev_index, off).
     bindE (compact_u8 raw off) (\<lambda>(script_sig_len, off).
     bindE (compact_read (unat script_sig_len) raw off) (\<lambda>(script_sig, off).
     bindE (compact_u32 raw off) (\<lambda>(sequence, off).
       Inr (\<lparr>prev_txid = replicate (32 - length prev_txid_bytes) 0 @ prev_txid_bytes, prev_index = prev_index,
             script_sig = script_sig, sequence = sequence\<rparr>, off))))))))"

definition compact_output :: "bytes \<Rightarrow> nat \<Rightarrow> err + TxOutput \<times> nat" where
  "compact_output raw off =
     bindE (compact_u64 raw off) (\<lambda>(v, off).
     let (len, off) = (case read_varint_at raw off of (Some n, off) \<Rightarrow> (n, off) | (None, off) \<Rightarrow> (0, off)) in
     bindE (compact_read (unat len) raw off) (\<lambda>(script_pubkey, off).
       Inr (\<lparr>out_value = v, script_pubkey = script_pubkey\<rparr>, off)))"

text \<open>Bytes after the lock time are ignored.\<close>

definition decode_compact_tx :: "bytes \<Rightarrow> err + Transaction" where
  "decode_compact_tx raw =
     bindE (compact_u32 raw 0) (\<lambda>(version, off).
     bindE (compact_u8 raw off) (\<lambda>(input_count, off).
     bindE (read_many (unat input_count) compact_input raw off) (\<lambda>(inputs, off).
     bindE (compact_u8 raw off) (\<lambda>(output_count, off).
     bindE (read_many (unat output_count) compact_output raw off) (\<lambda>(outputs, off).
     bindE (compact_u32 raw off) (\<lambda>(locktime, off).
       Inr \<lparr>tx_version = version, inputs = inputs, outputs = outputs, locktime = locktime\<rparr>))))))"

text \<open>\<open>u32::from_str_radix(s, 16)\<close> and \<open>s.trim_start_matches("0x")\<close>.\<close>

definition hex_value :: "char \<Rightarrow> nat option" where
  "hex_value c =
     (let n = of_char c :: nat
      in if 48 \<le> n \<and> n \<le> 57 then Some (n - 48)
         else if 97 \<le> n \<and> n \<le> 102 then Some (n - 87)
         else if 65 \<le> n \<and> n \<le> 70 then Some (n - 55) else None)"

fun parse_hex_digits :: "nat \<Rightarrow> string \<Rightarrow> nat option" where
  "parse_hex_digits acc [] = Some acc"
| "parse_hex_digits acc (c # cs) =
     (case hex_value c of
        None \<Rightarrow> None
      | Some d \<Rightarrow> if acc * 16 + d \<ge> 2 ^ 32 then None else parse_hex_digits (acc * 16 + d) cs)"

definition u32_from_str_radix16 :: "string \<Rightarrow> u32 option" where
  "u32_from_str_radix16 s =
     (let ds = (case s of c # cs \<Rightarrow> if c = CHR ''+'' then cs else s | [] \<Rightarrow> s)
      in if ds = [] then None else map_option word_of_nat (parse_hex_digits 0 ds))"

fun trim_start_0x :: "string \<Rightarrow> string" where
  "trim_start_0x (a # b # s) = (if a = CHR ''0'' \<and> b = CHR ''x'' then trim_start_0x s else a # b # s)"
| "trim_start_0x s = s"

text \<open>\<open>hex_decode\<close> is \<open>hex::decode\<close> (and \<open>Vec::from_hex\<close>, the same function).\<close>

definition locked_tx :: "(string \<Rightarrow> bytes option) \<Rightarrow> string \<Rightarrow> Transaction list \<Rightarrow> err + Transaction list" where
  "locked_tx hex_decode tx_hex txs =
     (case hex_decode tx_hex of
        None \<Rightarrow> Inl (Err ''invalid locked genesis tx hex'')
      | Some raw \<Rightarrow> bindE (decode_compact_tx raw) (\<lambda>tx. Inr (txs @ [tx])))"

definition block_from_locked :: "(string \<Rightarrow> bytes option) \<Rightarrow> LockedGenesis \<Rightarrow> err + 'r Block" where
  "block_from_locked hex_decode gen =
     (let h = lg_header gen in
      case hex_decode (gh_prev_hash h) of None \<Rightarrow> Inl (Err ''invalid locked genesis prev_hash hex'') | Some prev \<Rightarrow>
      case hex_decode (gh_merkle_root h) of None \<Rightarrow> Inl (Err ''invalid locked genesis merkle_root hex'') | Some merkle \<Rightarrow>
      if length prev \<noteq> 32 then Inl (Err ''invalid locked genesis prev_hash length'')
      else if length merkle \<noteq> 32 then Inl (Err ''invalid locked genesis merkle_root length'')
      else case (case u32_from_str_radix16 (trim_start_0x (gh_bits h)) of
                   Some b \<Rightarrow> Some b | None \<Rightarrow> u32_from_str_radix16 (gh_bits h)) of
        None \<Rightarrow> Inl (Err ''invalid locked genesis bits field'')
      | Some nbits \<Rightarrow>
          bindE (foldE (locked_tx hex_decode) (lg_transactions gen) []) (\<lambda>txs.
            Inr \<lparr>header = \<lparr>hdr_version = gh_version h, hdr_prev_hash = prev, hdr_merkle_root = merkle,
                           hdr_time = ucast (gh_time h), hdr_bits = nbits, hdr_nonce = gh_nonce h\<rparr>,
                 transactions = txs, auxpow = None, poawx_receipts = None\<rparr>))"

text \<open>The file that the node compiles in.\<close>

definition locked_genesis :: LockedGenesis where
  "locked_genesis =
     \<lparr>lg_height = 0,
      lg_header = \<lparr>gh_version = 1,
        gh_prev_hash = ''0000000000000000000000000000000000000000000000000000000000000000'',
        gh_merkle_root = ''cd78279c389b6f2f0a4edc567f3ba67b27daed60ab014342bb4a5b56c2ebb4db'',
        gh_time = 1767583930, gh_bits = ''1d00ffff'', gh_nonce = 1842179559,
        gh_hash = ''0000000028f25d65557e9d8d9e991f516c00d68f5aeae10b750645b398bd10a3''\<rparr>,
      lg_transactions =
        [''0100000001200000000000000000000000000000000000000000000000000000000000000000'' @
         ''ffffffff21497269756d2047656e6573697320426c6f636b202d205348413235366420506f57'' @
         ''ffffffff0100e0abb9523e01001f03f06702b17576a9140ae5debfc6279fdb002c0da105be6d'' @
         ''0645aac39888ac00000000'']\<rparr>"

section \<open>What it decodes to\<close>

definition hex_nibble :: "u8 \<Rightarrow> char" where
  "hex_nibble d = (if d < 10 then char_of (48 + unat d) else char_of (87 + unat d))"

definition hex_string :: "bytes \<Rightarrow> string" where
  "hex_string bs = concat (map (\<lambda>b. [hex_nibble (drop_bit 4 b), hex_nibble (b AND 15)]) bs)"

definition genesis_raw :: bytes where
  "genesis_raw = u32_le 1 @ [1, 32] @ replicate 32 0 @ u32_le 0xffffffff @ [33] @ [73, 114, 105, 117, 109, 32,
     71, 101, 110, 101, 115, 105, 115, 32, 66, 108, 111, 99, 107, 32, 45, 32, 83, 72, 65, 50, 53, 54, 100, 32,
     80, 111, 87] @ u32_le 0xffffffff @ [1] @ u64_le 350000000000000 @ [31, 3, 0xf0, 0x67, 2, 0xb1, 0x75,
     0x76, 0xa9, 20, 0x0a, 0xe5, 0xde, 0xbf, 0xc6, 0x27, 0x9f, 0xdb, 0, 0x2c, 0x0d, 0xa1, 0x05, 0xbe, 0x6d,
     0x06, 0x45, 0xaa, 0xc3, 0x98, 0x88, 0xac] @ u32_le 0"

definition genesis_merkle :: bytes where
  "genesis_merkle = [0xcd, 0x78, 0x27, 0x9c, 0x38, 0x9b, 0x6f, 0x2f, 0x0a, 0x4e, 0xdc, 0x56, 0x7f, 0x3b, 0xa6,
     0x7b, 0x27, 0xda, 0xed, 0x60, 0xab, 0x01, 0x43, 0x42, 0xbb, 0x4a, 0x5b, 0x56, 0xc2, 0xeb, 0xb4, 0xdb]"

definition genesis_tx :: Transaction where
  "genesis_tx = \<lparr>tx_version = 1,
     inputs = [\<lparr>prev_txid = replicate 32 0, prev_index = 0xffffffff, script_sig = slice genesis_raw 43 76,
                sequence = 0xffffffff\<rparr>],
     outputs = [\<lparr>out_value = 350000000000000, script_pubkey = slice genesis_raw 90 121\<rparr>], locktime = 0\<rparr>"

lemma locked_strings:
  "hex_string genesis_raw = hd (lg_transactions locked_genesis)"
  "hex_string genesis_merkle = gh_merkle_root (lg_header locked_genesis)"
  "hex_string (replicate 32 0) = gh_prev_hash (lg_header locked_genesis)"
  by code_simp+

lemma genesis_tx_decodes: "decode_compact_tx genesis_raw = Inr genesis_tx"
  by code_simp

definition genesis_header :: BlockHeader where
  "genesis_header = \<lparr>hdr_version = 1, hdr_prev_hash = replicate 32 0, hdr_merkle_root = genesis_merkle,
     hdr_time = 1767583930, hdr_bits = 0x1d00ffff, hdr_nonce = 1842179559\<rparr>"

lemma genesis_bits: "u32_from_str_radix16 ''1d00ffff'' = Some 0x1d00ffff"
  by code_simp

text \<open>With a decoder that inverts lower-case hexadecimal, the compiled-in file is this block.\<close>

lemma block_from_locked_genesis:
  assumes "\<forall>b. hex_decode (hex_string b) = Some b"
  shows "block_from_locked hex_decode locked_genesis =
    Inr \<lparr>header = genesis_header, transactions = [genesis_tx], auxpow = None, poawx_receipts = None\<rparr>"
proof -
  have d: "hex_decode (hd (lg_transactions locked_genesis)) = Some genesis_raw"
    "hex_decode (gh_merkle_root (lg_header locked_genesis)) = Some genesis_merkle"
    "hex_decode (gh_prev_hash (lg_header locked_genesis)) = Some (replicate 32 0)"
    using assms locked_strings by metis+
  have t: "lg_transactions locked_genesis = [hd (lg_transactions locked_genesis)]" by (simp add: locked_genesis_def)
  have f: "foldE (locked_tx hex_decode) (lg_transactions locked_genesis) [] = Inr [genesis_tx]"
    by (subst t) (simp add: locked_tx_def d genesis_tx_decodes)
  have h: "gh_bits (lg_header locked_genesis) = ''1d00ffff''" "gh_version (lg_header locked_genesis) = 1"
    "gh_time (lg_header locked_genesis) = 1767583930" "gh_nonce (lg_header locked_genesis) = 1842179559"
    by (simp_all add: locked_genesis_def)
  show ?thesis
    by (simp add: block_from_locked_def Let_def d f h genesis_bits genesis_header_def genesis_merkle_def)
qed

lemma genesis_pays: "outputs genesis_tx = [\<lparr>out_value = 350000000000000, script_pubkey = slice genesis_raw 90 121\<rparr>]"
  by (simp add: genesis_tx_def)

lemma locked_genesis_supply:
  assumes "\<forall>b. hex_decode (hex_string b) = Some b" "block_from_locked hex_decode locked_genesis = Inr (genesis_block params)"
  shows "genesis_supply params = 350000000000000"
proof -
  have "transactions (genesis_block params) = [genesis_tx]"
    using assms(2) unfolding block_from_locked_genesis [OF assms(1)] by (auto dest: sym)
  then show ?thesis by (simp add: genesis_supply_def genesis_pays)
qed

section \<open>The supply of mainnet\<close>

text \<open>A node whose hash function is constant, and the state it starts in.\<close>

definition genesis_node :: node where
  "genesis_node = sample_node\<lparr>nd_crypto := sample_crypto\<lparr>cr_sha := (\<lambda>_. replicate 32 0)\<rparr>\<rparr>"

definition locked_block :: "unit Block" where
  "locked_block = \<lparr>header = genesis_header, transactions = [genesis_tx], auxpow = None, poawx_receipts = None\<rparr>"

definition genesis_params :: "unit ChainParams" where
  "genesis_params = sample_params\<lparr>genesis_block := locked_block, pow_limit := Target 0x1d00ffff\<rparr>"

lemma genesis_header_valid:
  "validate_block_header genesis_node 1767583930 (empty_state genesis_params () :: (unit, unit) ChainState)
     locked_block 0 None = Inr ()"
  by code_simp

lemma genesis_state:
  obtains s :: "(unit, unit) ChainState" where "chain_state_new genesis_node 1767583930 genesis_params () = Inr s"
    "unat (ch_issued s) = 350000000000000" "ch_chain s = [locked_block]"
proof -
  let ?e = "empty_state genesis_params () :: (unit, unit) ChainState"
  have t: "transactions locked_block = [genesis_tx]" "is_coinbase genesis_tx"
    by (simp_all add: locked_block_def is_coinbase_def genesis_tx_def)
  have o: "plain_output \<lparr>out_value = 350000000000000, script_pubkey = slice genesis_raw 90 121\<rparr>" by code_simp
  obtain undo s1 w where v: "validate_and_apply_transactions genesis_node locked_block 0 0 False (Some MAX_MONEY) ?e =
      (Inr (0, w, w, undo), s1)" and w: "unat w = 350000000000000"
    by (rule honest_block_applies [OF t, where n = 350000000000000 and m = MAX_MONEY and enf = False and reward = 0
          and h = 0 and s = ?e and nd = genesis_node]) (simp_all add: genesis_pays o)
  have g: "genesis_block genesis_params = locked_block" by (simp add: genesis_params_def)
  have "ch_chain ?e = []" by (simp add: empty_state_def)
  then have "\<exists>s. chain_state_new genesis_node 1767583930 genesis_params () = Inr (s :: (unit, unit) ChainState)"
    using v genesis_header_valid by (simp add: chain_state_new_def connect_genesis_def g bindS_def liftE_def Let_def)
  then obtain s :: "(unit, unit) ChainState" where
    s: "chain_state_new genesis_node 1767583930 genesis_params () = Inr s" by blast
  obtain fees tot subsidy undo' s2 where
    v2: "validate_and_apply_transactions genesis_node locked_block 0 0 False (Some MAX_MONEY) ?e =
       (Inr (fees, tot, subsidy, undo'), s2)"
    and f: "ch_chain s = ch_chain s2 @ [locked_block]" "ch_issued s = subsidy"
    by (rule chain_state_new_cases [OF s]) (simp add: g)
  have "ch_chain s2 = []" using apply_effects_fields(5) [OF v2] by (simp add: empty_state_def)
  then show thesis using that [OF s] f v v2 w by simp
qed

text \<open>
  C2. The money supply of mainnet. In every state a mainnet node reaches from the compiled-in genesis
  block, the issued supply is at most the 3,500,000 IRM that genesis pays plus the block rewards of the
  schedule, and at most the cap of 100,000,000 IRM. Genesis and schedule together are within the cap for
  exactly the first 3,720,250 blocks and equal it there, in the fourth reward epoch: after block
  3,720,250 a chain whose blocks all took their full reward can issue nothing more.
\<close>

theorem mainnet_supply:
  assumes "\<forall>b. hex_decode (hex_string b) = Some b" "network_kind_from_env (nd_env nd) = Mainnet"
    and "block_from_locked hex_decode locked_genesis = Inr (genesis_block params)" "reachable px nd params s"
  defines "blocks \<equiv> length (ch_chain s) - 1"
  shows "unat (ch_issued s) \<le> 350000000000000 + emission (nd_env nd) blocks \<and> unat (ch_issued s) \<le> unat MAX_MONEY \<and>
    (350000000000000 + emission (nd_env nd) n \<le> unat MAX_MONEY \<longleftrightarrow> n \<le> 3720250) \<and>
    350000000000000 + emission (nd_env nd) 3720250 = unat MAX_MONEY \<and>
    (unat (ch_issued s) = 350000000000000 + emission (nd_env nd) blocks \<longrightarrow> blocks \<le> 3720250)"
proof -
  have i: "unat (ch_issued s) \<le> unat MAX_MONEY" "unat (ch_issued s) \<le> 350000000000000 + emission (nd_env nd) blocks"
    using chain_inv_supply [OF conjunct1 [OF reachable_inv [OF assms(4)]]] locked_genesis_supply [OF assms(1,3)]
    by (simp_all add: blocks_def)
  note c = mainnet_emission_cap [OF assms(2)]
  have "blocks \<le> 3720250" if "unat (ch_issued s) = 350000000000000 + emission (nd_env nd) blocks"
    using i(1) that c(1) [of blocks] by simp
  then show ?thesis using i c by simp
qed

fun hex_decode_lower :: "string \<Rightarrow> bytes option" where
  "hex_decode_lower [] = Some []"
| "hex_decode_lower (a # b # s) =
     (case (hex_value a, hex_value b, hex_decode_lower s) of
        (Some x, Some y, Some r) \<Rightarrow> Some (word_of_nat (x * 16 + y) # r) | _ \<Rightarrow> None)"
| "hex_decode_lower [a] = None"

lemma hex_nibbles:
  "hex_value (hex_nibble (drop_bit 4 b)) = Some (unat b div 16)" "hex_value (hex_nibble (b AND 15)) = Some (unat b mod 16)"
proof -
  have n: "hex_value (hex_nibble d) = Some (unat d)" if "unat d < 16" for d
    using that by (auto simp: hex_value_def hex_nibble_def Let_def word_less_nat_alt)
  have "unat (drop_bit 4 b) = unat b div 16" unfolding unat_drop_bit_eq by (simp add: drop_bit_eq_div)
  moreover have "unat b < 256" by (rule unat_u8_lt)
  ultimately show "hex_value (hex_nibble (drop_bit 4 b)) = Some (unat b div 16)"
    using n [of "drop_bit 4 b"] by simp
  have "b AND 15 = take_bit 4 b" by (simp add: take_bit_eq_mask mask_eq_exp_minus_1)
  then have "unat (b AND 15) = unat b mod 16" by (simp only: unsigned_take_bit_eq) (simp add: take_bit_eq_mod)
  then show "hex_value (hex_nibble (b AND 15)) = Some (unat b mod 16)" using n [of "b AND 15"] by simp
qed

lemma hex_decode_lower_inverse: "hex_decode_lower (hex_string b) = Some b"
proof (induction b)
  case (Cons x xs)
  have "unat x div 16 * 16 + unat x mod 16 = unat x" by simp
  then show ?case using Cons by (simp add: hex_string_def hex_nibbles)
qed (simp add: hex_string_def)

theorem mainnet_supply_witness:
  "\<exists>s :: (unit, unit) ChainState. reachable sample_poawx genesis_node genesis_params s \<and>
     unat (ch_issued s) = 350000000000000 \<and> \<not> 350000000000000 + emission (\<lambda>_. None) 4000000 \<le> unat MAX_MONEY"
proof -
  obtain s :: "(unit, unit) ChainState" where s: "chain_state_new genesis_node 1767583930 genesis_params () = Inr s"
    "unat (ch_issued s) = 350000000000000" by (rule genesis_state)
  have r: "reachable sample_poawx genesis_node genesis_params s"
    by (rule reachable.new [OF s(1)]) (simp add: genesis_params_def locked_block_def block_counts_ok_def)
  have n: "nd_env genesis_node = (\<lambda>_. None)" "network_kind_from_env (\<lambda>_. None) = Mainnet"
    by (simp_all add: genesis_node_def sample_node_def network_kind_from_env_def)
  have h: "\<forall>b. hex_decode_lower (hex_string b) = Some b" by (simp add: hex_decode_lower_inverse)
  have b: "block_from_locked hex_decode_lower locked_genesis = Inr (genesis_block genesis_params)"
    using block_from_locked_genesis [OF h] by (simp add: genesis_params_def locked_block_def)
  show ?thesis using mainnet_supply [OF h _ b r, of 4000000] r s(2) n by auto
qed

end
