(* ===== verification/Mempool.thy ===== *)
theory Mempool
  imports Genesis "HOL-Library.AList"
begin

text \<open>
  The pool of unconfirmed transactions, \<open>src/src/mempool.rs\<close>: admission with fee floors, priority
  classes, eviction and rate limits, queries and removal, the file it is saved in, the sweep after a
  block, and the handler of a transaction from a peer (\<open>src/src/p2p.rs\<close>, with the priority class of
  \<open>src/src/chain.rs\<close>). The map of entries is an association list, so one order of iteration stands for the unspecified one of the code.
  Fee rates are any linear order \<open>'f\<close>, since the code only compares and never combines them (they come
  from quotients of non-negative numbers, so no \<open>NaN\<close> occurs); clock readings and the outcome of a write
  are arguments.
\<close>

section \<open>Data\<close>

datatype IpAddr = V4 u8 u8 u8 u8 | V6 "128 word"

definition is_loopback :: "IpAddr \<Rightarrow> bool" where
  "is_loopback ip = (case ip of V4 a _ _ _ \<Rightarrow> a = 127 | V6 w \<Rightarrow> w = 1)"

datatype MempoolPriority = ZeroFeeAllowed | Standard

fun rank :: "MempoolPriority \<Rightarrow> u8" where
  "rank ZeroFeeAllowed = 0"
| "rank Standard = 1"

fun as_disk_str :: "MempoolPriority \<Rightarrow> string" where
  "as_disk_str ZeroFeeAllowed = ''zero_fee_allowed''"
| "as_disk_str Standard = ''standard''"

definition from_disk_str :: "string \<Rightarrow> MempoolPriority option" where
  "from_disk_str s =
     (if s = ''zero_fee_allowed'' then Some ZeroFeeAllowed
      else if s = ''standard'' then Some Standard else None)"

record 'f MempoolEntry =
  me_tx :: Transaction
  me_raw :: bytes
  me_fee :: u64
  me_size :: nat
  me_fee_per_byte :: 'f
  me_added :: u64
  me_relays :: "string list"
  me_relay_addresses :: "string list"
  me_priority :: MempoolPriority

record AddOutcome =
  ao_txid :: bytes
  ao_evicted :: "bytes option"

record 'f DiskEntry =
  de_hex :: string
  de_fee :: "u64 option"
  de_size :: "nat option"
  de_fee_per_byte :: "'f option"
  de_added :: "u64 option"
  de_txid :: "string option"
  de_relays :: "string list option"
  de_relay_addresses :: "string list option"
  de_priority :: "string option"

record 'f MempoolManager =
  mp_entries :: "(bytes \<times> 'f MempoolEntry) list"
  mp_max_entries :: nat
  mp_min_fee_per_byte :: 'f
  mp_min_total_fee :: u64
  mp_header_relay_last_seen :: "IpAddr \<rightharpoonup> int"

text \<open>What the pool takes from the node: the hash, hexadecimal, and \<open>fee as f64 / size as f64\<close>.\<close>

record 'f pool_env =
  pe_sha :: "bytes \<Rightarrow> bytes"
  pe_hex_decode :: "string \<Rightarrow> bytes option"
  pe_hex_encode :: "bytes \<Rightarrow> string"
  pe_ratio :: "u64 \<Rightarrow> nat \<Rightarrow> 'f"
  pe_zero :: 'f

definition fee_rate :: "'f pool_env \<Rightarrow> u64 \<Rightarrow> nat \<Rightarrow> 'f" where
  "fee_rate pe fee sz = (if sz > 0 then pe_ratio pe fee sz else pe_zero pe)"

abbreviation (input) NANOS :: int where "NANOS \<equiv> 1000000000"

definition now_secs :: "int \<Rightarrow> u64" where
  "now_secs now = (if now < 0 then 0 else word_of_int (now div NANOS))"

section \<open>The file\<close>

text \<open>An entry that does not decode is skipped; a panic of the decoder is not caught.\<close>

definition load_entry ::
  "'f pool_env \<Rightarrow> int \<Rightarrow> 'f DiskEntry \<Rightarrow> (bytes \<times> 'f MempoolEntry) list \<Rightarrow> err + (bytes \<times> 'f MempoolEntry) list" where
  "load_entry pe now entry entries =
     (case pe_hex_decode pe (de_hex entry) of
        None \<Rightarrow> Inr entries
      | Some raw \<Rightarrow>
          (case decode_full_tx raw of
             Inl (Err _) \<Rightarrow> Inr entries
           | Inl e \<Rightarrow> Inl e
           | Inr tx \<Rightarrow>
               let sz = (case de_size entry of Some n \<Rightarrow> n | None \<Rightarrow> length raw);
                   fee = (case de_fee entry of Some f \<Rightarrow> f | None \<Rightarrow> 0)
               in Inr (AList.update (txid (pe_sha pe) tx)
                    \<lparr>me_tx = tx, me_raw = raw, me_fee = fee, me_size = sz,
                     me_fee_per_byte = (case de_fee_per_byte entry of Some f \<Rightarrow> f | None \<Rightarrow> fee_rate pe fee sz),
                     me_added = (case de_added entry of Some t \<Rightarrow> t | None \<Rightarrow> now_secs now),
                     me_relays = (case de_relays entry of Some r \<Rightarrow> r | None \<Rightarrow> []),
                     me_relay_addresses = (case de_relay_addresses entry of Some r \<Rightarrow> r | None \<Rightarrow> []),
                     me_priority = (case Option.bind (de_priority entry) from_disk_str of
                        Some p \<Rightarrow> p | None \<Rightarrow> Standard)\<rparr> entries)))"

text \<open>\<open>file\<close> is the parsed file, \<open>None\<close> when it cannot be read or parsed.\<close>

definition load_from_disk ::
  "'f pool_env \<Rightarrow> int \<Rightarrow> 'f DiskEntry list option \<Rightarrow> 'f MempoolManager \<Rightarrow> err + 'f MempoolManager" where
  "load_from_disk pe now file mp =
     (case file of
        None \<Rightarrow> Inr mp
      | Some parsed \<Rightarrow>
          bindE (foldE (load_entry pe now) parsed (mp_entries mp)) (\<lambda>entries. Inr (mp\<lparr>mp_entries := entries\<rparr>)))"

definition mempool_new ::
  "'f pool_env \<Rightarrow> int \<Rightarrow> 'f DiskEntry list option \<Rightarrow> nat \<Rightarrow> 'f \<Rightarrow> u64 \<Rightarrow> err + 'f MempoolManager" where
  "mempool_new pe now file max_entries min_fee_per_byte min_total_fee =
     load_from_disk pe now file
       \<lparr>mp_entries = [], mp_max_entries = max_entries, mp_min_fee_per_byte = min_fee_per_byte,
        mp_min_total_fee = min_total_fee, mp_header_relay_last_seen = Map.empty\<rparr>"

definition disk_entry :: "'f pool_env \<Rightarrow> bytes \<times> 'f MempoolEntry \<Rightarrow> 'f DiskEntry" where
  "disk_entry pe = (\<lambda>(tid, entry).
     \<lparr>de_hex = pe_hex_encode pe (me_raw entry), de_fee = Some (me_fee entry), de_size = Some (me_size entry),
      de_fee_per_byte = Some (me_fee_per_byte entry), de_added = Some (me_added entry),
      de_txid = Some (pe_hex_encode pe tid), de_relays = Some (me_relays entry),
      de_relay_addresses = Some (me_relay_addresses entry),
      de_priority = Some (as_disk_str (me_priority entry))\<rparr>)"

text \<open>What \<open>persist\<close> writes; whether the write succeeds is up to the file system.\<close>

definition persisted :: "'f pool_env \<Rightarrow> 'f MempoolManager \<Rightarrow> 'f DiskEntry list" where
  "persisted pe mp = map (disk_entry pe) (mp_entries mp)"

section \<open>Admission\<close>

definition carries_btc :: "Transaction \<Rightarrow> bool" where
  "carries_btc tx = list_ex (\<lambda>o'. \<not> isl (parse_btc_header_batch (script_pubkey o'))) (outputs tx)"

definition carries_ltc :: "Transaction \<Rightarrow> bool" where
  "carries_ltc tx = list_ex (\<lambda>o'. \<not> isl (parse_ltc_header_batch (script_pubkey o'))) (outputs tx)"

fun duplicate_carrier :: "bool \<Rightarrow> bool \<Rightarrow> (bytes \<times> 'f MempoolEntry) list \<Rightarrow> err + unit" where
  "duplicate_carrier new_has_btc new_has_ltc [] = Inr ()"
| "duplicate_carrier new_has_btc new_has_ltc ((_, entry) # entries) =
     (if new_has_btc \<and> carries_btc (me_tx entry) then Inl (Err ''duplicate_btc_header_batch_pending'')
      else if new_has_ltc \<and> carries_ltc (me_tx entry) then Inl (Err ''duplicate_ltc_header_batch_pending'')
      else duplicate_carrier new_has_btc new_has_ltc entries)"

abbreviation (input) HEADER_RELAY_PER_IP_INTERVAL_SECS :: int where
  "HEADER_RELAY_PER_IP_INTERVAL_SECS \<equiv> 600"

definition gc_header_relay_rate_table :: "int \<Rightarrow> 'f MempoolManager \<Rightarrow> 'f MempoolManager" where
  "gc_header_relay_rate_table now mp =
     mp\<lparr>mp_header_relay_last_seen := (\<lambda>ip.
       case mp_header_relay_last_seen mp ip of
         Some t \<Rightarrow> if now \<ge> t \<and> now - t < HEADER_RELAY_PER_IP_INTERVAL_SECS * NANOS then Some t else None
       | None \<Rightarrow> None)\<rparr>"

definition throttled :: "MempoolPriority \<Rightarrow> IpAddr option \<Rightarrow> IpAddr option" where
  "throttled priority peer_ip =
     (if priority = ZeroFeeAllowed then
        (case peer_ip of Some ip \<Rightarrow> if \<not> is_loopback ip then Some ip else None | None \<Rightarrow> None)
      else None)"

definition check_rate ::
  "int \<Rightarrow> MempoolPriority \<Rightarrow> IpAddr option \<Rightarrow> 'f MempoolManager \<Rightarrow> (err + unit) \<times> 'f MempoolManager" where
  "check_rate now priority peer_ip mp =
     (case throttled priority peer_ip of
        None \<Rightarrow> (Inr (), mp)
      | Some ip \<Rightarrow>
          let mp = gc_header_relay_rate_table now mp
          in case mp_header_relay_last_seen mp ip of
               Some prev \<Rightarrow>
                 if now \<ge> prev \<and> (now - prev) div NANOS < HEADER_RELAY_PER_IP_INTERVAL_SECS
                 then (Inl (Err ''header_relay_rate_limit_per_ip''), mp) else (Inr (), mp)
             | None \<Rightarrow> (Inr (), mp))"

text \<open>\<open>Iterator::min_by\<close> keeps the first of several minima.\<close>

definition evict_before :: "'f::linorder MempoolEntry \<Rightarrow> 'f MempoolEntry \<Rightarrow> bool" where
  "evict_before a b \<longleftrightarrow> rank (me_priority a) < rank (me_priority b) \<or>
     rank (me_priority a) = rank (me_priority b) \<and> me_fee_per_byte a < me_fee_per_byte b"

fun min_entry :: "(bytes \<times> 'f::linorder MempoolEntry) list \<Rightarrow> (bytes \<times> 'f MempoolEntry) option" where
  "min_entry [] = None"
| "min_entry (x # xs) = Some (foldl (\<lambda>best y. if evict_before (snd y) (snd best) then y else best) x xs)"

definition pick_eviction_target :: "MempoolPriority \<Rightarrow> 'f::linorder \<Rightarrow> 'f MempoolManager \<Rightarrow> bytes option" where
  "pick_eviction_target incoming_priority incoming_fpb mp =
     (case min_entry (mp_entries mp) of
        None \<Rightarrow> None
      | Some (lowest_txid, lowest_entry) \<Rightarrow>
          if rank incoming_priority > rank (me_priority lowest_entry) \<or>
             rank incoming_priority = rank (me_priority lowest_entry) \<and> incoming_fpb > me_fee_per_byte lowest_entry
          then Some lowest_txid else None)"

text \<open>The eviction and the insertion; \<open>Inl\<close> when the pool is full of better entries.\<close>

definition make_room ::
  "MempoolPriority \<Rightarrow> 'f::linorder \<Rightarrow> 'f MempoolManager \<Rightarrow> err + bytes option" where
  "make_room priority fee_per_byte mp =
     (if length (mp_entries mp) \<ge> mp_max_entries mp then
        (case pick_eviction_target priority fee_per_byte mp of
           Some t \<Rightarrow> Inr (Some t)
         | None \<Rightarrow> Inl (Err ''Mempool full and fee/priority too low''))
      else Inr None)"

text \<open>
  \<open>now\<close> is the clock of the rate limit and of the entry, \<open>later\<close> its second reading after the write;
  \<open>disk\<close> is the result of \<open>persist\<close>.
\<close>

definition add_transaction_with_priority ::
  "'f::linorder pool_env \<Rightarrow> int \<Rightarrow> int \<Rightarrow> err + unit \<Rightarrow> Transaction \<Rightarrow> bytes \<Rightarrow> u64 \<Rightarrow> MempoolPriority \<Rightarrow> IpAddr option \<Rightarrow>
     'f MempoolManager \<Rightarrow> (err + AddOutcome) \<times> 'f MempoolManager" where
  "add_transaction_with_priority pe now later disk tx raw fee priority peer_ip mp =
     (let tid = txid (pe_sha pe) tx in
      if map_of (mp_entries mp) tid \<noteq> None then (Inl (Err ''Transaction already in mempool''), mp)
      else
        bindS (liftE (duplicate_carrier (carries_btc tx) (carries_ltc tx) (mp_entries mp))) (\<lambda>_.
        bindS (check_rate now priority peer_ip) (\<lambda>_ mp.
        let sz = length raw; fee_per_byte = fee_rate pe fee sz in
        if priority = Standard \<and> fee_per_byte < mp_min_fee_per_byte mp then
          (Inl (Err ''Fee per byte below minimum policy''), mp)
        else if priority = Standard \<and> fee < mp_min_total_fee mp then
          (Inl (Err ''Fee below minimum total policy''), mp)
        else
          bindS (liftE (make_room priority fee_per_byte mp)) (\<lambda>evicted mp.
          let entries = (case evicted of Some e \<Rightarrow> AList.delete e (mp_entries mp) | None \<Rightarrow> mp_entries mp);
              entry = \<lparr>me_tx = tx, me_raw = raw, me_fee = fee, me_size = sz, me_fee_per_byte = fee_per_byte,
                       me_added = now_secs now, me_relays = [], me_relay_addresses = [], me_priority = priority\<rparr>;
              mp = mp\<lparr>mp_entries := AList.update tid entry entries\<rparr>
          in bindS (liftE disk) (\<lambda>_ mp.
             (Inr \<lparr>ao_txid = tid, ao_evicted = evicted\<rparr>,
              case throttled priority peer_ip of
                Some ip \<Rightarrow> mp\<lparr>mp_header_relay_last_seen := (mp_header_relay_last_seen mp)(ip \<mapsto> later)\<rparr>
              | None \<Rightarrow> mp)) mp) mp)) mp)"

definition add_transaction ::
  "'f::linorder pool_env \<Rightarrow> int \<Rightarrow> int \<Rightarrow> err + unit \<Rightarrow> Transaction \<Rightarrow> bytes \<Rightarrow> u64 \<Rightarrow>
     'f MempoolManager \<Rightarrow> (err + AddOutcome) \<times> 'f MempoolManager" where
  "add_transaction pe now later disk tx raw fee =
     add_transaction_with_priority pe now later disk tx raw fee Standard None"

section \<open>Queries and removal\<close>

definition update_entry ::
  "bytes \<Rightarrow> ('f MempoolEntry \<Rightarrow> 'f MempoolEntry) \<Rightarrow> 'f MempoolManager \<Rightarrow> 'f MempoolManager" where
  "update_entry tid f mp =
     mp\<lparr>mp_entries := map (\<lambda>(k, e). if k = tid then (k, f e) else (k, e)) (mp_entries mp)\<rparr>"

definition record_relay :: "bytes \<Rightarrow> string \<Rightarrow> 'f MempoolManager \<Rightarrow> 'f MempoolManager" where
  "record_relay tid peer =
     update_entry tid (\<lambda>e. if List.member (me_relays e) peer then e else e\<lparr>me_relays := me_relays e @ [peer]\<rparr>)"

definition record_relay_address :: "bytes \<Rightarrow> string \<Rightarrow> 'f MempoolManager \<Rightarrow> 'f MempoolManager" where
  "record_relay_address tid address =
     update_entry tid (\<lambda>e. if List.member (me_relay_addresses e) address then e
       else e\<lparr>me_relay_addresses := me_relay_addresses e @ [address]\<rparr>)"

definition mp_remove :: "bytes \<Rightarrow> 'f MempoolManager \<Rightarrow> bool \<times> 'f MempoolManager" where
  "mp_remove tid mp =
     (map_of (mp_entries mp) tid \<noteq> None, mp\<lparr>mp_entries := AList.delete tid (mp_entries mp)\<rparr>)"

definition mp_contains :: "'f MempoolManager \<Rightarrow> bytes \<Rightarrow> bool" where
  "mp_contains mp tid \<longleftrightarrow> map_of (mp_entries mp) tid \<noteq> None"

definition mp_len :: "'f MempoolManager \<Rightarrow> nat" where
  "mp_len mp = length (mp_entries mp)"

text \<open>A stable sort by descending fee rate.\<close>

definition ordered_entries :: "'f::linorder MempoolManager \<Rightarrow> 'f MempoolEntry list" where
  "ordered_entries mp = rev (sort_key me_fee_per_byte (rev (map snd (mp_entries mp))))"

definition ordered_transactions :: "'f::linorder MempoolManager \<Rightarrow> Transaction list" where
  "ordered_transactions mp = map me_tx (rev (sort_key me_fee_per_byte (rev (map snd (mp_entries mp)))))"

definition txids_hex :: "'f pool_env \<Rightarrow> 'f MempoolManager \<Rightarrow> string list" where
  "txids_hex pe mp = map (pe_hex_encode pe \<circ> fst) (mp_entries mp)"

definition raw_tx :: "'f MempoolManager \<Rightarrow> bytes \<Rightarrow> bytes option" where
  "raw_tx mp tid = map_option me_raw (map_of (mp_entries mp) tid)"

definition mp_entry :: "'f MempoolManager \<Rightarrow> bytes \<Rightarrow> 'f MempoolEntry option" where
  "mp_entry mp tid = map_of (mp_entries mp) tid"

definition spends :: "bytes \<times> u32 \<Rightarrow> Transaction \<Rightarrow> bool" where
  "spends outpoint tx = list_ex (\<lambda>i. (prev_txid i, prev_index i) = outpoint) (inputs tx)"

definition find_conflicting :: "'f MempoolManager \<Rightarrow> bytes \<times> u32 \<Rightarrow> bytes option" where
  "find_conflicting mp outpoint =
     map_option fst (find (\<lambda>(tid, e). spends outpoint (me_tx e)) (mp_entries mp))"

definition relays_for :: "'f MempoolManager \<Rightarrow> bytes \<Rightarrow> string list" where
  "relays_for mp tid = (case map_of (mp_entries mp) tid of Some e \<Rightarrow> me_relays e | None \<Rightarrow> [])"

definition relay_addresses_for :: "'f MempoolManager \<Rightarrow> bytes \<Rightarrow> string list" where
  "relay_addresses_for mp tid = (case map_of (mp_entries mp) tid of Some e \<Rightarrow> me_relay_addresses e | None \<Rightarrow> [])"

definition evict_one ::
  "node \<Rightarrow> ('r, 'p) ChainState \<Rightarrow> Transaction \<Rightarrow> nat \<Rightarrow> 'f MempoolManager \<Rightarrow> (err + nat) \<times> 'f MempoolManager" where
  "evict_one nd s tx evicted mp =
     (case validate_transaction nd s tx of
        Inr _ \<Rightarrow> (Inr evicted, mp)
      | Inl (Err _) \<Rightarrow>
          (let (removed, mp) = mp_remove (txid (nd_sha nd) tx) mp
           in (Inr (if removed then evicted + 1 else evicted), mp))
      | Inl e \<Rightarrow> (Inl e, mp))"

definition evict_invalid_mempool_entries ::
  "node \<Rightarrow> ('r, 'p) ChainState \<Rightarrow> 'f::linorder MempoolManager \<Rightarrow> (err + nat) \<times> 'f MempoolManager" where
  "evict_invalid_mempool_entries nd s mp = foldS (evict_one nd s) (ordered_transactions mp) 0 mp"

section \<open>Admission keeps the pool well-formed\<close>

definition new_entry ::
  "'f pool_env \<Rightarrow> int \<Rightarrow> Transaction \<Rightarrow> bytes \<Rightarrow> u64 \<Rightarrow> MempoolPriority \<Rightarrow> 'f MempoolEntry" where
  "new_entry pe now tx raw fee priority =
     \<lparr>me_tx = tx, me_raw = raw, me_fee = fee, me_size = length raw, me_fee_per_byte = fee_rate pe fee (length raw),
      me_added = now_secs now, me_relays = [], me_relay_addresses = [], me_priority = priority\<rparr>"

abbreviation without :: "bytes option \<Rightarrow> (bytes \<times> 'f MempoolEntry) list \<Rightarrow> (bytes \<times> 'f MempoolEntry) list" where
  "without ev es \<equiv> (case ev of Some e \<Rightarrow> AList.delete e es | None \<Rightarrow> es)"

definition admitted ::
  "'f::linorder pool_env \<Rightarrow> int \<Rightarrow> Transaction \<Rightarrow> bytes \<Rightarrow> u64 \<Rightarrow> MempoolPriority \<Rightarrow> bytes option \<Rightarrow>
     'f MempoolManager \<Rightarrow> 'f MempoolManager \<Rightarrow> bool" where
  "admitted pe now tx raw fee priority ev mp mp' \<longleftrightarrow>
     map_of (mp_entries mp) (txid (pe_sha pe) tx) = None \<and>
     duplicate_carrier (carries_btc tx) (carries_ltc tx) (mp_entries mp) = Inr () \<and>
     (priority = Standard \<longrightarrow> mp_min_fee_per_byte mp \<le> fee_rate pe fee (length raw) \<and> mp_min_total_fee mp \<le> fee) \<and>
     make_room priority (fee_rate pe fee (length raw)) mp = Inr ev \<and>
     mp_entries mp' = AList.update (txid (pe_sha pe) tx) (new_entry pe now tx raw fee priority) (without ev (mp_entries mp))"

lemma check_rate_frame:
  assumes "check_rate now priority ip mp = (r, mp')"
  shows "mp_entries mp' = mp_entries mp" "mp_max_entries mp' = mp_max_entries mp"
    "mp_min_fee_per_byte mp' = mp_min_fee_per_byte mp" "mp_min_total_fee mp' = mp_min_total_fee mp"
  using assms
  by (auto simp: check_rate_def Let_def gc_header_relay_rate_table_def split: option.split_asm if_split_asm)

lemma make_room_frame:
  assumes "mp_entries mp' = mp_entries mp" "mp_max_entries mp' = mp_max_entries mp"
  shows "make_room p f mp' = make_room p f mp"
  using assms by (simp add: make_room_def pick_eviction_target_def)

lemma add_cases:
  assumes a: "add_transaction_with_priority pe now later disk tx raw fee priority ip mp = (r, mp')"
  obtains (refused) e where "r = Inl e" "mp_entries mp' = mp_entries mp"
  | (unsaved) e ev where "disk = Inl e" "r = Inl e" "admitted pe now tx raw fee priority ev mp mp'"
  | (added) ev where "disk = Inr ()" "r = Inr \<lparr>ao_txid = txid (pe_sha pe) tx, ao_evicted = ev\<rparr>"
      "admitted pe now tx raw fee priority ev mp mp'"
proof -
  let ?tid = "txid (pe_sha pe) tx" and ?fpb = "fee_rate pe fee (length raw)"
  consider (early) e where "r = Inl e" "mp_entries mp' = mp_entries mp"
    | (late) mp1 where "map_of (mp_entries mp) ?tid = None"
        "duplicate_carrier (carries_btc tx) (carries_ltc tx) (mp_entries mp) = Inr ()"
        "check_rate now priority ip mp = (Inr (), mp1)"
        "priority = Standard \<longrightarrow> mp_min_fee_per_byte mp1 \<le> ?fpb \<and> mp_min_total_fee mp1 \<le> fee"
        "bindS (liftE (make_room priority ?fpb mp1)) (\<lambda>ev mp1.
           bindS (liftE disk) (\<lambda>_ mp.
             (Inr \<lparr>ao_txid = ?tid, ao_evicted = ev\<rparr>,
              case throttled priority ip of
                Some ip \<Rightarrow> mp\<lparr>mp_header_relay_last_seen := (mp_header_relay_last_seen mp)(ip \<mapsto> later)\<rparr>
              | None \<Rightarrow> mp))
             (mp1\<lparr>mp_entries := AList.update ?tid (new_entry pe now tx raw fee priority) (without ev (mp_entries mp1))\<rparr>)) mp1 =
         (r, mp')"
  proof (cases "map_of (mp_entries mp) ?tid")
    case None
    obtain c mp1 where c: "check_rate now priority ip mp = (c, mp1)" by fastforce
    show thesis
      using a None early late c check_rate_frame(1) [OF c]
      by (cases "duplicate_carrier (carries_btc tx) (carries_ltc tx) (mp_entries mp)"; cases c)
        (auto simp: add_transaction_with_priority_def Let_def bindS_def liftE_def new_entry_def not_less
          split: if_split_asm)
  qed (use a early in \<open>auto simp: add_transaction_with_priority_def\<close>)
  then show thesis
  proof cases
    case (late mp1)
    note fr = check_rate_frame [OF late(3)]
    show thesis
    proof (cases "make_room priority ?fpb mp1")
      case (Inl e)
      then show thesis using late(5) refused fr(1) by (auto simp: bindS_def liftE_def)
    next
      case (Inr ev)
      then have "admitted pe now tx raw fee priority ev mp mp'"
        using late fr make_room_frame [OF fr(1,2)]
        by (cases disk) (auto simp: admitted_def bindS_def liftE_def split: option.split_asm)
      then show thesis
        using late(5) Inr unsaved added by (cases disk) (auto simp: bindS_def liftE_def)
    qed
  qed (rule refused)
qed

text \<open>The keys are the transaction ids; no id occurs twice.\<close>

definition keyed :: "'f pool_env \<Rightarrow> 'f MempoolManager \<Rightarrow> bool" where
  "keyed pe mp \<longleftrightarrow> distinct (map fst (mp_entries mp)) \<and> (\<forall>(k, e) \<in> set (mp_entries mp). k = txid (pe_sha pe) (me_tx e))"

text \<open>
  The policy: at most one pending carrier per relay, every standard entry above both fee floors, and no
  more entries than the capacity.
\<close>

definition policy_ok :: "'f::linorder MempoolManager \<Rightarrow> bool" where
  "policy_ok mp \<longleftrightarrow> length (filter (\<lambda>(_, e). carries_btc (me_tx e)) (mp_entries mp)) \<le> 1 \<and>
     length (filter (\<lambda>(_, e). carries_ltc (me_tx e)) (mp_entries mp)) \<le> 1 \<and>
     (\<forall>(_, e) \<in> set (mp_entries mp). me_priority e = Standard \<longrightarrow>
        mp_min_fee_per_byte mp \<le> me_fee_per_byte e \<and> mp_min_total_fee mp \<le> me_fee e) \<and>
     length (mp_entries mp) \<le> mp_max_entries mp"

lemma add_params:
  assumes "add_transaction_with_priority pe now later disk tx raw fee priority ip mp = (r, mp')"
  shows "mp_max_entries mp' = mp_max_entries mp" "mp_min_fee_per_byte mp' = mp_min_fee_per_byte mp"
    "mp_min_total_fee mp' = mp_min_total_fee mp"
proof -
  obtain c mp1 where c: "check_rate now priority ip mp = (c, mp1)" by fastforce
  note fr = check_rate_frame [OF c]
  have "mp_max_entries mp' = mp_max_entries mp \<and> mp_min_fee_per_byte mp' = mp_min_fee_per_byte mp \<and>
      mp_min_total_fee mp' = mp_min_total_fee mp"
    using assms c fr
    by (cases "duplicate_carrier (carries_btc tx) (carries_ltc tx) (mp_entries mp)"; cases c; cases disk;
        cases "make_room priority (fee_rate pe fee (length raw)) mp1")
      (auto simp: add_transaction_with_priority_def Let_def bindS_def liftE_def split: if_split_asm option.split_asm)
  then show "mp_max_entries mp' = mp_max_entries mp" "mp_min_fee_per_byte mp' = mp_min_fee_per_byte mp"
    "mp_min_total_fee mp' = mp_min_total_fee mp" by simp_all
qed

lemma alist_update_new: "k \<notin> fst ` set es \<Longrightarrow> AList.update k v es = es @ [(k, v)]"
  by (induction es) auto

lemma duplicate_carrier_ok:
  "duplicate_carrier b l es = Inr () \<longleftrightarrow>
     (\<forall>(k, e) \<in> set es. (b \<longrightarrow> \<not> carries_btc (me_tx e)) \<and> (l \<longrightarrow> \<not> carries_ltc (me_tx e)))"
  by (induction b l es rule: duplicate_carrier.induct) auto

lemma evict_before_trans: "\<not> evict_before a b \<Longrightarrow> \<not> evict_before b c \<Longrightarrow> \<not> evict_before a c"
  unfolding evict_before_def by (cases "me_priority a"; cases "me_priority b"; cases "me_priority c") auto

lemma evict_before_asym: "evict_before a b \<Longrightarrow> \<not> evict_before b a"
  unfolding evict_before_def by (cases "me_priority a"; cases "me_priority b") auto

lemma foldl_min:
  assumes "b = foldl (\<lambda>best y. if evict_before (snd y) (snd best) then y else best) x xs"
  shows "b \<in> insert x (set xs) \<and> (\<forall>y \<in> insert x (set xs). \<not> evict_before (snd y) (snd b))"
  using assms
proof (induction xs arbitrary: x)
  case Nil
  then show ?case using evict_before_asym by auto
next
  case (Cons y ys)
  let ?x = "if evict_before (snd y) (snd x) then y else x"
  have b: "b \<in> insert ?x (set ys)" "\<forall>z \<in> insert ?x (set ys). \<not> evict_before (snd z) (snd b)"
    using Cons.IH [of ?x] Cons.prems by simp_all
  have "\<not> evict_before (snd x) (snd b)" "\<not> evict_before (snd y) (snd b)"
    using b(2) evict_before_trans evict_before_asym by (cases "evict_before (snd y) (snd x)"; fastforce)+
  then show ?case using b by (auto split: if_split_asm)
qed

lemma min_entry_Some:
  assumes "min_entry es = Some x"
  shows "x \<in> set es \<and> (\<forall>y \<in> set es. \<not> evict_before (snd y) (snd x))"
proof (cases es)
  case (Cons y ys)
  then show ?thesis using assms foldl_min [of x y ys] by simp
qed (use assms in simp)

lemma make_room_Some:
  assumes "make_room p f mp = Inr (Some t)"
  obtains e where "(t, e) \<in> set (mp_entries mp)" "\<forall>(k, e') \<in> set (mp_entries mp). \<not> evict_before e' e"
    "rank (me_priority e) < rank p \<or> rank (me_priority e) = rank p \<and> me_fee_per_byte e < f"
    "mp_max_entries mp \<le> length (mp_entries mp)"
proof -
  obtain x where "min_entry (mp_entries mp) = Some x" "fst x = t"
    "rank (me_priority (snd x)) < rank p \<or> rank (me_priority (snd x)) = rank p \<and> me_fee_per_byte (snd x) < f"
    "mp_max_entries mp \<le> length (mp_entries mp)"
    using assms by (auto simp: make_room_def pick_eviction_target_def split: option.split_asm if_split_asm)
  then show thesis using that [of "snd x"] min_entry_Some [of "mp_entries mp" x] by force
qed

lemma keyed_map_of: "keyed pe mp \<Longrightarrow> (k, e) \<in> set (mp_entries mp) \<Longrightarrow> map_of (mp_entries mp) k = Some e"
  by (simp add: keyed_def)

lemma delete_filter: "AList.delete k es = filter (\<lambda>(k', _). k' \<noteq> k) es"
  by (induction es) (auto simp: AList.delete_eq)

lemma length_delete:
  assumes "distinct (map fst es)" "(k, e) \<in> set es"
  shows "length (AList.delete k es) = length es - 1"
  using assms
proof (induction es)
  case (Cons x xs)
  show ?case
  proof (cases "fst x = k")
    case True
    then have "\<forall>y \<in> set xs. fst y \<noteq> k" using Cons.prems(1) by (auto simp: image_iff)
    then have "filter (\<lambda>(k', _). k' \<noteq> k) xs = xs" by (auto simp: filter_id_conv)
    then show ?thesis using True by (simp add: delete_filter split_beta)
  next
    case False
    then have "(k, e) \<in> set xs" using Cons.prems(2) by auto
    then have "0 < length xs" "length (AList.delete k xs) = length xs - 1" using Cons by (auto intro: length_pos_if_in_set)
    then show ?thesis using False by (simp add: delete_filter split_beta)
  qed
qed simp

lemma without_subset: "set (without ev es) \<subseteq> set es"
  by (auto simp: delete_filter split: option.split)

lemma without_distinct: "distinct (map fst es) \<Longrightarrow> distinct (map fst (without ev es))"
  by (auto simp: delete_filter distinct_map_filter split: option.split)

lemma admitted_entries:
  assumes "admitted pe now tx raw fee priority ev mp mp'"
  shows "mp_entries mp' = without ev (mp_entries mp) @ [(txid (pe_sha pe) tx, new_entry pe now tx raw fee priority)]"
proof -
  have "txid (pe_sha pe) tx \<notin> fst ` set (mp_entries mp)"
    using assms by (simp add: admitted_def map_of_eq_None_iff)
  then have "txid (pe_sha pe) tx \<notin> fst ` set (without ev (mp_entries mp))" using without_subset by blast
  then show ?thesis using assms by (simp add: admitted_def alist_update_new)
qed

lemma admitted_keyed:
  assumes "admitted pe now tx raw fee priority ev mp mp'" "keyed pe mp"
  shows "keyed pe mp'"
proof -
  have "txid (pe_sha pe) tx \<notin> fst ` set (without ev (mp_entries mp))"
    using assms(1) without_subset [of "mp_entries mp" ev] by (auto simp: admitted_def map_of_eq_None_iff)
  then show ?thesis
    using assms(2) without_distinct [of "mp_entries mp" ev] without_subset [of "mp_entries mp" ev]
    unfolding keyed_def admitted_entries [OF assms(1)] by (auto simp: new_entry_def)
qed

lemma length_filter_without: "length (filter P (without ev es)) \<le> length (filter P es)"
proof (cases ev)
  case (Some k)
  have "filter P (AList.delete k es) = filter (\<lambda>(k', _). k' \<noteq> k) (filter P es)"
    by (simp add: delete_filter conj_commute)
  then show ?thesis using Some by (metis length_filter_le option.simps(5))
qed simp

lemma one_more_carrier:
  assumes "length (filter (\<lambda>(_, e). P (me_tx e)) es) \<le> 1" "P tx \<Longrightarrow> \<forall>(k, e) \<in> set es. \<not> P (me_tx e)" "me_tx n = tx"
  shows "length (filter (\<lambda>(_, e). P (me_tx e)) (without ev es @ [(k, n)])) \<le> 1"
proof (cases "P tx")
  case True
  then have "filter (\<lambda>(_, e). P (me_tx e)) (without ev es) = []"
    using assms(2) without_subset [of es ev] by (auto simp: filter_empty_conv split_beta)
  then show ?thesis using assms(3) by simp
next
  case False
  then show ?thesis
    using assms(1,3) length_filter_without [of "\<lambda>(_, e). P (me_tx e)" es ev] by simp
qed

lemma admitted_length:
  assumes "admitted pe now tx raw fee priority ev mp mp'" "keyed pe mp" "length (mp_entries mp) \<le> mp_max_entries mp"
  shows "length (mp_entries mp') \<le> mp_max_entries mp"
proof (cases ev)
  case None
  then have "length (mp_entries mp) < mp_max_entries mp"
    using assms(1) by (auto simp: admitted_def make_room_def split: if_split_asm option.split_asm)
  then show ?thesis using None admitted_entries [OF assms(1)] by simp
next
  case (Some t)
  have "make_room priority (fee_rate pe fee (length raw)) mp = Inr (Some t)"
    using assms(1) Some by (simp add: admitted_def)
  then obtain e where e: "(t, e) \<in> set (mp_entries mp)" by (rule make_room_Some)
  have "length (AList.delete t (mp_entries mp)) = length (mp_entries mp) - 1"
    using assms(2) e by (intro length_delete) (simp_all add: keyed_def)
  moreover have "0 < length (mp_entries mp)" using e by (rule length_pos_if_in_set)
  ultimately show ?thesis using assms(3) admitted_entries [OF assms(1)] Some by simp
qed

lemma admitted_policy:
  assumes a: "admitted pe now tx raw fee priority ev mp mp'" and k: "keyed pe mp" and p: "policy_ok mp"
    and e: "mp_max_entries mp' = mp_max_entries mp" "mp_min_fee_per_byte mp' = mp_min_fee_per_byte mp"
      "mp_min_total_fee mp' = mp_min_total_fee mp"
  shows "policy_ok mp'"
proof -
  let ?n = "new_entry pe now tx raw fee priority"
  have d: "duplicate_carrier (carries_btc tx) (carries_ltc tx) (mp_entries mp) = Inr ()"
    using a by (simp add: admitted_def)
  have b: "length (filter (\<lambda>(_, e). carries_btc (me_tx e)) (mp_entries mp')) \<le> 1"
    unfolding admitted_entries [OF a] using p d
    by (intro one_more_carrier [of _ _ tx]) (auto simp: policy_ok_def duplicate_carrier_ok new_entry_def)
  have l: "length (filter (\<lambda>(_, e). carries_ltc (me_tx e)) (mp_entries mp')) \<le> 1"
    unfolding admitted_entries [OF a] using p d
    by (intro one_more_carrier [of _ _ tx]) (auto simp: policy_ok_def duplicate_carrier_ok new_entry_def)
  have n: "me_priority ?n = Standard \<longrightarrow>
      mp_min_fee_per_byte mp \<le> me_fee_per_byte ?n \<and> mp_min_total_fee mp \<le> me_fee ?n"
    using a by (simp add: admitted_def new_entry_def)
  have f: "\<forall>(_, e) \<in> set (mp_entries mp'). me_priority e = Standard \<longrightarrow>
      mp_min_fee_per_byte mp \<le> me_fee_per_byte e \<and> mp_min_total_fee mp \<le> me_fee e"
    using p n without_subset [of "mp_entries mp" ev]
    unfolding admitted_entries [OF a] policy_ok_def by auto
  have "length (mp_entries mp') \<le> mp_max_entries mp"
    using admitted_length [OF a k] p by (simp add: policy_ok_def)
  then show ?thesis using b l f by (simp add: policy_ok_def e)
qed

lemma keyed_cong: "mp_entries mp' = mp_entries mp \<Longrightarrow> keyed pe mp' = keyed pe mp"
  by (simp add: keyed_def)

lemma add_keeps:
  assumes a: "add_transaction_with_priority pe now later disk tx raw fee priority ip mp = (r, mp')"
    and k: "keyed pe mp" and p: "policy_ok mp"
  shows "keyed pe mp' \<and> policy_ok mp'"
  using a
proof (cases rule: add_cases)
  case (refused e)
  then show ?thesis using k p add_params [OF a] by (simp add: keyed_def policy_ok_def)
qed (use admitted_keyed admitted_policy k p add_params [OF a] in blast)+

lemma add_evicts:
  assumes a: "add_transaction_with_priority pe now later disk tx raw fee priority ip mp = (Inr out, mp')"
    and k: "keyed pe mp" and t: "ao_evicted out = Some t"
  obtains e where "map_of (mp_entries mp) t = Some e" "evict_before e (new_entry pe now tx raw fee priority)"
    "\<forall>(k, e') \<in> set (mp_entries mp). \<not> evict_before e' e"
    "length (mp_entries mp) \<ge> mp_max_entries mp"
    "mp_entries mp' = AList.delete t (mp_entries mp) @ [(txid (pe_sha pe) tx, new_entry pe now tx raw fee priority)]"
  using a
proof (cases rule: add_cases)
  case (added ev)
  have ev: "ev = Some t" using added(2) t by simp
  have "make_room priority (fee_rate pe fee (length raw)) mp = Inr (Some t)"
    using added(3) ev by (simp add: admitted_def)
  then obtain e where e: "(t, e) \<in> set (mp_entries mp)" "\<forall>(k, e') \<in> set (mp_entries mp). \<not> evict_before e' e"
    "rank (me_priority e) < rank priority \<or>
     rank (me_priority e) = rank priority \<and> me_fee_per_byte e < fee_rate pe fee (length raw)"
    "mp_max_entries mp \<le> length (mp_entries mp)" by (rule make_room_Some)
  have "evict_before e (new_entry pe now tx raw fee priority)"
    using e(3) by (simp add: evict_before_def new_entry_def)
  then show thesis
    using that [OF keyed_map_of [OF k e(1)] _ e(2) e(4)] admitted_entries [OF added(3)] ev by simp
qed simp_all

section \<open>Rate limit\<close>

abbreviation (input) INTERVAL :: int where "INTERVAL \<equiv> HEADER_RELAY_PER_IP_INTERVAL_SECS * NANOS"

lemma throttled_Some: "throttled priority ip = Some a \<longleftrightarrow> priority = ZeroFeeAllowed \<and> ip = Some a \<and> \<not> is_loopback a"
  by (auto simp: throttled_def split: option.split)

lemma check_rate_throttled:
  assumes "throttled priority ip = Some a"
  shows "fst (check_rate now priority ip mp) =
    (case mp_header_relay_last_seen mp a of
       Some t \<Rightarrow> if t \<le> now \<and> now < t + INTERVAL then Inl (Err ''header_relay_rate_limit_per_ip'') else Inr ()
     | None \<Rightarrow> Inr ())"
  using assms
  by (auto simp: check_rate_def gc_header_relay_rate_table_def Let_def split: option.split)

lemma add_success_stamps:
  assumes a: "add_transaction_with_priority pe now later disk tx raw fee priority ip mp = (Inr out, mp')"
    and t: "throttled priority ip = Some a"
  shows "mp_header_relay_last_seen mp' a = Some later"
proof -
  obtain c mp1 where c: "check_rate now priority ip mp = (c, mp1)" by fastforce
  show ?thesis
    using a c t
    by (cases "duplicate_carrier (carries_btc tx) (carries_ltc tx) (mp_entries mp)"; cases c; cases disk;
        cases "make_room priority (fee_rate pe fee (length raw)) mp1")
      (auto simp: add_transaction_with_priority_def Let_def bindS_def liftE_def split: if_split_asm)
qed

lemma add_rate_limited:
  assumes t: "throttled priority ip = Some a" and l: "mp_header_relay_last_seen mp a = Some t"
    and n: "t \<le> now" "now < t + INTERVAL"
  obtains e mp' where "add_transaction_with_priority pe now later disk tx raw fee priority ip mp = (Inl e, mp')"
    "mp_entries mp' = mp_entries mp"
proof -
  obtain c mp1 where c: "check_rate now priority ip mp = (c, mp1)" by fastforce
  have "c = Inl (Err ''header_relay_rate_limit_per_ip'')"
    using check_rate_throttled [OF t, of now mp] l n c by simp
  then have "\<exists>e mp'. add_transaction_with_priority pe now later disk tx raw fee priority ip mp = (Inl e, mp') \<and>
      mp_entries mp' = mp_entries mp"
    using c check_rate_frame(1) [OF c]
    by (cases "duplicate_carrier (carries_btc tx) (carries_ltc tx) (mp_entries mp)")
      (auto simp: add_transaction_with_priority_def Let_def bindS_def liftE_def)
  then show thesis using that by blast
qed

section \<open>Restart\<close>

text \<open>What a saved entry needs to be read back: hexadecimal round-trips and the raw bytes decode to the transaction.\<close>

definition restorable :: "'f pool_env \<Rightarrow> bytes \<times> 'f MempoolEntry \<Rightarrow> bool" where
  "restorable pe = (\<lambda>(k, e). k = txid (pe_sha pe) (me_tx e) \<and> decode_full_tx (me_raw e) = Inr (me_tx e))"

lemma from_as_disk_str: "from_disk_str (as_disk_str p) = Some p"
  by (cases p) (simp_all add: from_disk_str_def)

lemma load_entry_disk_entry:
  assumes "\<forall>b. pe_hex_decode pe (pe_hex_encode pe b) = Some b" "restorable pe (k, e)"
  shows "load_entry pe now (disk_entry pe (k, e)) es = Inr (AList.update k e es)"
  using assms by (cases e) (simp add: load_entry_def disk_entry_def restorable_def from_as_disk_str)

lemma foldE_load_entry:
  assumes "\<forall>b. pe_hex_decode pe (pe_hex_encode pe b) = Some b" "\<forall>x \<in> set xs. restorable pe x"
    "distinct (map fst (es @ xs))"
  shows "foldE (load_entry pe now) (map (disk_entry pe) xs) es = Inr (es @ xs)"
  using assms
proof (induction xs arbitrary: es)
  case (Cons x xs)
  obtain k e where x: "x = (k, e)" by fastforce
  have "load_entry pe now (disk_entry pe x) es = Inr (es @ [x])"
    using Cons.prems unfolding x by (subst load_entry_disk_entry) (auto simp: alist_update_new)
  then show ?case using Cons by (simp add: bindE_def)
qed simp

section \<open>Eviction of what a new block made invalid\<close>

lemma mp_remove_filter:
  "mp_remove t mp = (t \<in> fst ` set (mp_entries mp), mp\<lparr>mp_entries := filter (\<lambda>(k, _). k \<noteq> t) (mp_entries mp)\<rparr>)"
  by (simp add: mp_remove_def delete_filter map_of_eq_None_iff)

text \<open>The verdict on a transaction is an answer: no panic on the way.\<close>

definition answers :: "err + 'a \<Rightarrow> bool" where
  "answers r = (case r of Inl (Err _) \<Rightarrow> True | Inl _ \<Rightarrow> False | Inr _ \<Rightarrow> True)"

lemma evict_one_answers:
  assumes "answers (validate_transaction nd s tx)"
  shows "evict_one nd s tx n mp =
    (if isl (validate_transaction nd s tx) then
       (Inr (if txid (nd_sha nd) tx \<in> fst ` set (mp_entries mp) then n + 1 else n),
        mp\<lparr>mp_entries := filter (\<lambda>(k, _). k \<noteq> txid (nd_sha nd) tx) (mp_entries mp)\<rparr>)
     else (Inr n, mp))"
  using assms by (auto simp: evict_one_def answers_def mp_remove_filter split: sum.split err.split)

lemma length_filter_key:
  assumes "distinct (map fst es)"
  shows "length es = length (filter (\<lambda>(k, _). k \<noteq> t) es) + (if t \<in> fst ` set es then 1 else 0)"
  using assms
proof (cases "t \<in> fst ` set es")
  case True
  then obtain e where e: "(t, e) \<in> set es" by force
  then have "0 < length es" by (rule length_pos_if_in_set)
  then show ?thesis using length_delete [OF assms e] True by (simp add: delete_filter)
next
  case False
  then have "filter (\<lambda>(k, _). k \<noteq> t) es = es" by (force simp: filter_id_conv)
  then show ?thesis using False by simp
qed

definition survivors ::
  "node \<Rightarrow> ('r, 'p) ChainState \<Rightarrow> Transaction list \<Rightarrow> (bytes \<times> 'f MempoolEntry) list \<Rightarrow> (bytes \<times> 'f MempoolEntry) list" where
  "survivors nd s txs es =
     filter (\<lambda>(k, _). \<forall>tx \<in> set txs. k = txid (nd_sha nd) tx \<longrightarrow> \<not> isl (validate_transaction nd s tx)) es"

lemma survivors_Cons:
  "survivors nd s (tx # txs) es =
     (if isl (validate_transaction nd s tx) then survivors nd s txs (filter (\<lambda>(k, _). k \<noteq> txid (nd_sha nd) tx) es)
      else survivors nd s txs es)"
  by (auto simp: survivors_def split_beta intro!: filter_cong)

lemma foldS_evict_one:
  assumes "\<forall>tx \<in> set txs. answers (validate_transaction nd s tx)" "distinct (map fst (mp_entries mp))"
  shows "foldS (evict_one nd s) txs n mp =
    (Inr (n + (length (mp_entries mp) - length (survivors nd s txs (mp_entries mp)))),
     mp\<lparr>mp_entries := survivors nd s txs (mp_entries mp)\<rparr>)"
  using assms
proof (induction txs arbitrary: n mp)
  case Nil
  show ?case by (simp add: survivors_def filter_True split_beta)
next
  case (Cons tx txs)
  let ?t = "txid (nd_sha nd) tx"
  let ?D = "filter (\<lambda>(k, _). k \<noteq> ?t) (mp_entries mp)"
  have ans: "answers (validate_transaction nd s tx)" "\<forall>tx \<in> set txs. answers (validate_transaction nd s tx)"
    using Cons.prems(1) by simp_all
  show ?case
  proof (cases "isl (validate_transaction nd s tx)")
    case True
    define n' where "n' = (if ?t \<in> fst ` set (mp_entries mp) then n + 1 else n)"
    define mp1 where "mp1 = mp\<lparr>mp_entries := ?D\<rparr>"
    have d: "distinct (map fst (mp_entries mp1))"
      unfolding mp1_def using Cons.prems(2) by (simp add: distinct_map_filter)
    have one: "evict_one nd s tx n mp = (Inr n', mp1)"
      using True by (simp add: evict_one_answers [OF ans(1)] n'_def mp1_def)
    have le: "length (survivors nd s txs ?D) \<le> length ?D" unfolding survivors_def by (rule length_filter_le)
    have cnt: "n' + (length ?D - length (survivors nd s txs ?D)) =
        n + (length (mp_entries mp) - length (survivors nd s txs ?D))"
      using length_filter_key [OF Cons.prems(2), of ?t] le unfolding n'_def by (auto split: if_split_asm)
    have "foldS (evict_one nd s) (tx # txs) n mp = foldS (evict_one nd s) txs n' mp1"
      by (simp add: bindS_def one)
    also have "\<dots> = (Inr (n' + (length ?D - length (survivors nd s txs ?D))), mp\<lparr>mp_entries := survivors nd s txs ?D\<rparr>)"
      unfolding Cons.IH [OF ans(2) d] by (simp add: mp1_def)
    finally show ?thesis unfolding cnt survivors_Cons using True by simp
  next
    case False
    then show ?thesis
      by (simp add: bindS_def evict_one_answers [OF ans(1)] survivors_Cons Cons.IH [OF ans(2) Cons.prems(2)])
  qed
qed

lemma ordered_transactions_set: "set (ordered_transactions mp) = (\<lambda>(_, e). me_tx e) ` set (mp_entries mp)"
  by (force simp: ordered_transactions_def)

lemma ball_unique:
  "a \<in> A \<Longrightarrow> Q a \<Longrightarrow> (\<And>x. x \<in> A \<Longrightarrow> Q x \<Longrightarrow> x = a) \<Longrightarrow> (\<forall>x \<in> A. Q x \<longrightarrow> P x) = P a"
  by blast

lemma evict_invalid_keeps_valid:
  assumes k: "keyed pe mp" "pe_sha pe = nd_sha nd"
    and a: "\<forall>(_, e) \<in> set (mp_entries mp). answers (validate_transaction nd s (me_tx e))"
  defines "valid \<equiv> filter (\<lambda>(_, e). \<not> isl (validate_transaction nd s (me_tx e))) (mp_entries mp)"
  shows "evict_invalid_mempool_entries nd s mp =
    (Inr (length (mp_entries mp) - length valid), mp\<lparr>mp_entries := valid\<rparr>)"
proof -
  have own: "e' = e" if "(k, e) \<in> set (mp_entries mp)" "(k', e') \<in> set (mp_entries mp)" "k = txid (nd_sha nd) (me_tx e')" for k k' e e'
  proof -
    have "k' = k" using k that(2,3) by (auto simp: keyed_def)
    then show ?thesis using keyed_map_of [OF k(1) that(1)] keyed_map_of [OF k(1) that(2)] by simp
  qed
  have own_all: "(\<forall>tx \<in> (\<lambda>(_, e). me_tx e) ` set (mp_entries mp). k = txid (nd_sha nd) tx \<longrightarrow> P tx) = P (me_tx e)"
    if i: "(k, e) \<in> set (mp_entries mp)" for k e and P :: "Transaction \<Rightarrow> bool"
  proof -
    have "me_tx e \<in> (\<lambda>(_, e). me_tx e) ` set (mp_entries mp)"
      by (rule image_eqI [OF _ i]) simp
    moreover have "k = txid (nd_sha nd) (me_tx e)" using k i by (auto simp: keyed_def)
    moreover have "tx = me_tx e" if "tx \<in> (\<lambda>(_, e). me_tx e) ` set (mp_entries mp)" "k = txid (nd_sha nd) tx" for tx
      using that own [OF i] by auto
    ultimately show ?thesis by (intro ball_unique)
  qed
  have "survivors nd s (ordered_transactions mp) (mp_entries mp) = valid"
    unfolding valid_def survivors_def
  proof (rule filter_cong [OF refl], clarify)
    fix k e assume i: "(k, e) \<in> set (mp_entries mp)"
    show "(\<forall>tx \<in> set (ordered_transactions mp). k = txid (nd_sha nd) tx \<longrightarrow> \<not> isl (validate_transaction nd s tx)) =
        (\<not> isl (validate_transaction nd s (me_tx e)))"
      unfolding ordered_transactions_set by (rule own_all [OF i])
  qed
  moreover have "\<forall>tx \<in> set (ordered_transactions mp). answers (validate_transaction nd s tx)"
    unfolding ordered_transactions_set using a by auto
  ultimately show ?thesis
    using foldS_evict_one [of "ordered_transactions mp" nd s mp 0] k(1)
    unfolding evict_invalid_mempool_entries_def keyed_def by simp
qed

section \<open>Transactions from peers\<close>

definition buyer_claim :: "bytes \<Rightarrow> bytes \<Rightarrow> bool" where
  "buyer_claim script script_sig' =
     (let claim = (script_sig' \<noteq> [] \<and> script_sig' ! 0 = 1)
      in parse_htlc_btc_swap_v1_script script \<noteq> None \<and> claim \<or>
         (case parse_swap_order_script script of
            Some order \<Rightarrow> so_direction order = SWAP_ORDER_DIRECTION_SELL \<and> claim | None \<Rightarrow> False) \<or>
         parse_htlc_ltc_swap_v1_script script \<noteq> None \<and> claim \<or>
         (case parse_ltc_swap_order_script script of
            Some order \<Rightarrow> lo_direction order = LTC_SWAP_ORDER_DIRECTION_SELL \<and> claim | None \<Rightarrow> False))"

definition classify_tx_priority :: "Transaction \<Rightarrow> ('r, 'p) ChainState \<Rightarrow> MempoolPriority" where
  "classify_tx_priority tx s =
     (if list_ex (\<lambda>o'. has_tag (script_pubkey o') BTC_HEADER_BATCH_TAG \<or>
                       has_tag (script_pubkey o') LTC_HEADER_BATCH_TAG) (outputs tx) then ZeroFeeAllowed
      else (case inputs tx of
              [] \<Rightarrow> Standard
            | input0 # _ \<Rightarrow>
                (case ch_utxos s \<lparr>op_txid = prev_txid input0, op_index = prev_index input0\<rparr> of
                   None \<Rightarrow> Standard
                 | Some utxo \<Rightarrow>
                     if buyer_claim (script_pubkey (ut_output utxo)) (script_sig input0)
                     then ZeroFeeAllowed else Standard)))"

text \<open>
  The handler of a \<open>Tx\<close> message up to the announcement to the other peers: \<open>addr\<close> is the printed
  address of the peer, \<open>relay_addr\<close> the relay address it advertised.
\<close>

definition receive_tx ::
  "'f::linorder pool_env \<Rightarrow> node \<Rightarrow> ('r, 'p) ChainState \<Rightarrow> int \<Rightarrow> int \<Rightarrow> err + unit \<Rightarrow> IpAddr \<Rightarrow> string \<Rightarrow>
     string option \<Rightarrow> bytes \<Rightarrow> 'f MempoolManager \<Rightarrow> (err + unit) \<times> 'f MempoolManager" where
  "receive_tx pe nd s now later disk ip addr relay_addr tx_data =
     bindS (liftE (decode_full_tx tx_data)) (\<lambda>tx.
     bindS (liftE (calculate_fees nd s tx)) (\<lambda>fee mp.
       let (r, mp) = add_transaction_with_priority pe now later disk tx tx_data fee (classify_tx_priority tx s) (Some ip) mp;
           mp = record_relay (case r of Inr outcome \<Rightarrow> ao_txid outcome | Inl _ \<Rightarrow> txid (pe_sha pe) tx) addr mp;
           mp = (case relay_addr of Some a \<Rightarrow> record_relay_address (txid (pe_sha pe) tx) a mp | None \<Rightarrow> mp)
       in (Inr (), mp)))"

text \<open>
  Every pool of a node that starts empty, hears transactions from peers, drops what
  a block confirmed or made invalid, and restarts from the file of the pool it had (the file is written
  after every change); \<open>on\<close> holds of the chain states it passes through.
\<close>

inductive pool_reachable ::
  "'f::linorder pool_env \<Rightarrow> node \<Rightarrow> (('r, 'p) ChainState \<Rightarrow> bool) \<Rightarrow> nat \<Rightarrow> 'f \<Rightarrow> u64 \<Rightarrow> 'f MempoolManager \<Rightarrow> bool"
  for pe :: "'f::linorder pool_env" and nd :: node and on :: "('r, 'p) ChainState \<Rightarrow> bool" and cap :: nat and min_fpb :: 'f and min_fee :: u64 where
  start: "mempool_new pe now None cap min_fpb min_fee = Inr mp \<Longrightarrow> pool_reachable pe nd on cap min_fpb min_fee mp"
| restart: "pool_reachable pe nd on cap min_fpb min_fee mp \<Longrightarrow>
    mempool_new pe now (Some (persisted pe mp)) cap min_fpb min_fee = Inr mp' \<Longrightarrow>
    pool_reachable pe nd on cap min_fpb min_fee mp'"
| receive: "pool_reachable pe nd on cap min_fpb min_fee mp \<Longrightarrow> on s \<Longrightarrow>
    receive_tx pe nd s now later disk ip addr relay_addr tx_data mp = (r, mp') \<Longrightarrow>
    pool_reachable pe nd on cap min_fpb min_fee mp'"
| remove: "pool_reachable pe nd on cap min_fpb min_fee mp \<Longrightarrow> mp_remove t mp = (b, mp') \<Longrightarrow>
    pool_reachable pe nd on cap min_fpb min_fee mp'"
| evict: "pool_reachable pe nd on cap min_fpb min_fee mp \<Longrightarrow> on s \<Longrightarrow>
    evict_invalid_mempool_entries nd s mp = (r', mp') \<Longrightarrow>
    pool_reachable pe nd on cap min_fpb min_fee mp'"

definition pool_inv :: "'f::linorder pool_env \<Rightarrow> nat \<Rightarrow> 'f \<Rightarrow> u64 \<Rightarrow> 'f MempoolManager \<Rightarrow> bool" where
  "pool_inv pe cap min_fpb min_fee mp \<longleftrightarrow> keyed pe mp \<and> policy_ok mp \<and> (\<forall>x \<in> set (mp_entries mp). restorable pe x) \<and>
     mp_max_entries mp = cap \<and> mp_min_fee_per_byte mp = min_fpb \<and> mp_min_total_fee mp = min_fee"

lemma pool_inv_filter:
  assumes "pool_inv pe cap f t mp"
  shows "pool_inv pe cap f t (mp\<lparr>mp_entries := filter P (mp_entries mp)\<rparr>)"
proof -
  have "length (filter Q (filter P es)) \<le> length (filter Q es)" for Q and es :: "(bytes \<times> 'a MempoolEntry) list"
    by (induction es) auto
  then have "length (filter Q (filter P (mp_entries mp))) \<le> n" if "length (filter Q (mp_entries mp)) \<le> n" for Q n
    using that le_trans by blast
  moreover have "length (filter P (mp_entries mp)) \<le> n" if "length (mp_entries mp) \<le> n" for n
    using that le_trans length_filter_le by blast
  ultimately show ?thesis
    using assms unfolding pool_inv_def keyed_def policy_ok_def by (auto simp del: filter_filter simp: distinct_map_filter)
qed

lemma pool_inv_update_entry:
  assumes i: "pool_inv pe cap m t mp"
    and f: "\<And>e. me_tx (f e) = me_tx e \<and> me_raw (f e) = me_raw e \<and> me_fee (f e) = me_fee e \<and>
      me_fee_per_byte (f e) = me_fee_per_byte e \<and> me_priority (f e) = me_priority e"
  shows "pool_inv pe cap m t (update_entry k f mp)"
proof -
  define g where "g = (\<lambda>(k', e). if k' = k then (k', f e) else (k', e))"
  have g: "fst (g x) = fst x" "me_tx (snd (g x)) = me_tx (snd x)" "me_raw (snd (g x)) = me_raw (snd x)"
    "me_fee (snd (g x)) = me_fee (snd x)" "me_fee_per_byte (snd (g x)) = me_fee_per_byte (snd x)"
    "me_priority (snd (g x)) = me_priority (snd x)" for x
    using f by (simp_all add: g_def split_beta)
  have "map fst (map g es) = map fst es" "length (filter (\<lambda>(_, e). P (me_tx e)) (map g es)) =
      length (filter (\<lambda>(_, e). P (me_tx e)) es)" for es and P :: "Transaction \<Rightarrow> bool"
    by (simp_all add: g filter_map o_def case_prod_unfold)
  then show ?thesis
    using i unfolding pool_inv_def keyed_def policy_ok_def restorable_def update_entry_def g_def [symmetric]
    by (auto simp: g split_beta o_def)
qed

lemma pool_inv_record:
  "pool_inv pe cap f t mp \<Longrightarrow> pool_inv pe cap f t (record_relay k p mp)"
  "pool_inv pe cap f t mp \<Longrightarrow> pool_inv pe cap f t (record_relay_address k p mp)"
  unfolding record_relay_def record_relay_address_def by (rule pool_inv_update_entry; simp)+

lemma foldS_state:
  assumes "\<And>x a s. I s \<Longrightarrow> I (snd (f x a s))" "I s"
  shows "I (snd (foldS f xs a s))"
  using assms(2)
proof (induction xs arbitrary: a s)
  case (Cons x xs)
  then have "I (snd (f x a s))" by (intro assms(1))
  then show ?case using Cons.IH by (auto simp: bindS_def split: prod.split sum.split)
qed simp

lemma pool_inv_evict:
  assumes "pool_inv pe cap f t mp"
  shows "pool_inv pe cap f t (snd (evict_invalid_mempool_entries nd s mp))"
proof -
  have "pool_inv pe cap f t (snd (evict_one nd s tx n mp))" if "pool_inv pe cap f t mp" for tx n mp
    using that pool_inv_filter [OF that]
    by (cases "validate_transaction nd s tx") (auto simp: evict_one_def mp_remove_filter split: err.split)
  then show ?thesis unfolding evict_invalid_mempool_entries_def using assms by (rule foldS_state)
qed

lemma admitted_restorable:
  assumes "admitted pe now tx raw fee priority ev mp mp'" "\<forall>x \<in> set (mp_entries mp). restorable pe x"
    "decode_full_tx raw = Inr tx"
  shows "\<forall>x \<in> set (mp_entries mp'). restorable pe x"
  using assms(2,3) without_subset [of "mp_entries mp" ev]
  unfolding admitted_entries [OF assms(1)] by (auto simp: restorable_def new_entry_def)

lemma pool_inv_add:
  assumes i: "pool_inv pe cap f t mp" and d: "decode_full_tx raw = Inr tx"
    and a: "add_transaction_with_priority pe now later disk tx raw fee priority ip mp = (r, mp')"
  shows "pool_inv pe cap f t mp'"
proof -
  have "\<forall>x \<in> set (mp_entries mp'). restorable pe x"
    using a
  proof (cases rule: add_cases)
    case (refused e)
    then show ?thesis using i by (simp add: pool_inv_def)
  qed (use i d in \<open>auto simp: pool_inv_def dest: admitted_restorable\<close>)
  then show ?thesis using add_keeps [OF a] add_params [OF a] i by (simp add: pool_inv_def)
qed

lemma pool_inv_receive:
  assumes i: "pool_inv pe cap f t mp"
    and r: "receive_tx pe nd s now later disk ip addr relay_addr tx_data mp = (r, mp')"
  shows "pool_inv pe cap f t mp'"
proof (cases "decode_full_tx tx_data")
  case d: (Inr tx)
  show ?thesis
  proof (cases "calculate_fees nd s tx")
    case (Inr fee)
    obtain c mp1 where a: "add_transaction_with_priority pe now later disk tx tx_data fee (classify_tx_priority tx s)
        (Some ip) mp = (c, mp1)" by fastforce
    have "pool_inv pe cap f t mp1" by (rule pool_inv_add [OF i d a])
    then show ?thesis
      using r d Inr a by (auto simp: receive_tx_def Let_def intro!: pool_inv_record split: option.splits)
  qed (use r d i in \<open>simp add: receive_tx_def\<close>)
qed (use r i in \<open>simp add: receive_tx_def\<close>)

lemma pool_inv_restart:
  assumes h: "\<forall>b. pe_hex_decode pe (pe_hex_encode pe b) = Some b" and i: "pool_inv pe cap f t mp"
  shows "mempool_new pe now (Some (persisted pe mp)) cap f t = Inr (mp\<lparr>mp_header_relay_last_seen := Map.empty\<rparr>)"
proof -
  have "foldE (load_entry pe now) (map (disk_entry pe) (mp_entries mp)) [] = Inr ([] @ mp_entries mp)"
    using i by (intro foldE_load_entry [OF h]) (simp_all add: pool_inv_def keyed_def)
  then show ?thesis
    using i by (cases mp) (simp add: mempool_new_def load_from_disk_def persisted_def pool_inv_def)
qed

lemma pool_reachable_inv:
  assumes "pool_reachable pe nd on cap f t mp" and h: "\<forall>b. pe_hex_decode pe (pe_hex_encode pe b) = Some b"
  shows "pool_inv pe cap f t mp"
  using assms(1)
proof (induction rule: pool_reachable.induct)
  case (start now mp)
  then show ?case by (auto simp: mempool_new_def load_from_disk_def pool_inv_def keyed_def policy_ok_def)
next
  case (restart mp now mp')
  then have "mp' = mp\<lparr>mp_header_relay_last_seen := Map.empty\<rparr>" using pool_inv_restart [OF h restart.IH] by simp
  then show ?case using restart.IH by (auto simp: pool_inv_def keyed_def policy_ok_def)
next
  case (receive mp s now later disk ip addr relay_addr tx_data r mp')
  show ?case by (rule pool_inv_receive [OF receive.IH receive.hyps(3)])
next
  case (remove mp t b mp')
  then show ?case using pool_inv_filter [OF remove.IH] by (auto simp: mp_remove_filter)
next
  case (evict mp s r mp')
  then show ?case using pool_inv_evict [OF evict.IH, of nd s] by simp
qed

section \<open>A run of admissions\<close>

record admission =
  ad_now :: int
  ad_later :: int
  ad_disk :: "err + unit"
  ad_tx :: Transaction
  ad_raw :: bytes
  ad_fee :: u64
  ad_priority :: MempoolPriority
  ad_ip :: "IpAddr option"

definition admit :: "'f::linorder pool_env \<Rightarrow> admission \<Rightarrow> 'f MempoolManager \<Rightarrow> (err + AddOutcome) \<times> 'f MempoolManager" where
  "admit pe ad = add_transaction_with_priority pe (ad_now ad) (ad_later ad) (ad_disk ad) (ad_tx ad) (ad_raw ad)
     (ad_fee ad) (ad_priority ad) (ad_ip ad)"

fun admit_all ::
  "'f::linorder pool_env \<Rightarrow> admission list \<Rightarrow> 'f MempoolManager \<Rightarrow> (err + AddOutcome) list" where
  "admit_all pe [] mp = []"
| "admit_all pe (ad # ads) mp = (let (r, mp) = admit pe ad mp in r # admit_all pe ads mp)"

text \<open>The clock never runs backwards.\<close>

fun clock_ok :: "int \<Rightarrow> admission list \<Rightarrow> bool" where
  "clock_ok t [] = True"
| "clock_ok t (ad # ads) = (t \<le> ad_now ad \<and> ad_now ad \<le> ad_later ad \<and> clock_ok (ad_later ad) ads)"

lemma clock_ok_mono: "clock_ok t ads \<Longrightarrow> t' \<le> t \<Longrightarrow> clock_ok t' ads"
  by (cases ads) auto

lemma clock_ok_nth: "clock_ok t ads \<Longrightarrow> j < length ads \<Longrightarrow> t \<le> ad_now (ads ! j)"
proof (induction ads arbitrary: t j)
  case (Cons ad ads)
  then show ?case by (cases j) (fastforce dest: clock_ok_mono)+
qed simp

lemma check_rate_stamp:
  assumes "check_rate now priority ip mp = (r, mp')" "mp_header_relay_last_seen mp a = Some t" "t \<le> now" "now < t + INTERVAL"
  shows "mp_header_relay_last_seen mp' a = Some t"
  using assms
  by (auto simp: check_rate_def gc_header_relay_rate_table_def Let_def split: option.split_asm if_split_asm)

lemma add_keeps_stamp:
  assumes add: "add_transaction_with_priority pe now later disk tx raw fee priority ip mp = (r, mp')"
    and s: "mp_header_relay_last_seen mp a = Some t" "t \<le> now" "now < t + INTERVAL"
  shows "mp_header_relay_last_seen mp' a = Some t" "throttled priority ip = Some a \<Longrightarrow> isl r"
proof -
  obtain c mp1 where c: "check_rate now priority ip mp = (c, mp1)" by fastforce
  note st = check_rate_stamp [OF c s]
  have lim: "isl c" if "throttled priority ip = Some a"
    using check_rate_throttled [OF that, of now mp] s c by simp
  show "mp_header_relay_last_seen mp' a = Some t"
    using add c s(1) st lim
    by (cases "duplicate_carrier (carries_btc tx) (carries_ltc tx) (mp_entries mp)"; cases c; cases disk;
        cases "make_room priority (fee_rate pe fee (length raw)) mp1"; cases "throttled priority ip = Some a")
      (auto simp: add_transaction_with_priority_def Let_def bindS_def liftE_def split: if_split_asm option.split_asm)
  show "isl r" if "throttled priority ip = Some a"
    using add c lim [OF that]
    by (cases "duplicate_carrier (carries_btc tx) (carries_ltc tx) (mp_entries mp)"; cases c)
      (auto simp: add_transaction_with_priority_def Let_def bindS_def liftE_def split: if_split_asm)
qed

lemma admit_all_length: "length (admit_all pe ads mp) = length ads"
  by (induction pe ads mp rule: admit_all.induct) (auto split: prod.split)

lemma stamped_run:
  assumes "clock_ok t ads" "mp_header_relay_last_seen mp a = Some t" "j < length ads"
    and "\<not> isl (admit_all pe ads mp ! j)" "throttled (ad_priority (ads ! j)) (ad_ip (ads ! j)) = Some a"
  shows "t + INTERVAL \<le> ad_now (ads ! j)"
  using assms
proof (induction ads arbitrary: mp j)
  case (Cons ad ads)
  obtain r mp' where r: "admit pe ad mp = (r, mp')" by fastforce
  show ?case
  proof (cases "ad_now ad < t + INTERVAL")
    case True
    note k = add_keeps_stamp [OF r [unfolded admit_def] Cons.prems(2)]
    have t: "t \<le> ad_now ad" "clock_ok t ads" using Cons.prems(1) clock_ok_mono by fastforce+
    show ?thesis
    proof (cases j)
      case 0
      then show ?thesis using Cons.prems(4,5) k(2) t(1) True r by simp
    next
      case (Suc i)
      then show ?thesis using Cons.IH [OF t(2) k(1) [OF t(1) True], of i] Cons.prems r by simp
    qed
  next
    case False
    have "clock_ok (ad_now ad) (ad # ads)" using Cons.prems(1) by simp
    from clock_ok_nth [OF this Cons.prems(3)] show ?thesis using False by linarith
  qed
qed simp

lemma rate_limit:
  assumes "clock_ok t0 ads" "i < j" "j < length ads"
    and "\<not> isl (admit_all pe ads mp ! i)" "\<not> isl (admit_all pe ads mp ! j)"
    and "throttled (ad_priority (ads ! i)) (ad_ip (ads ! i)) = Some a" "throttled (ad_priority (ads ! j)) (ad_ip (ads ! j)) = Some a"
  shows "ad_later (ads ! i) + INTERVAL \<le> ad_now (ads ! j)"
  using assms
proof (induction ads arbitrary: mp i j t0)
  case (Cons ad ads)
  obtain r mp' where r: "admit pe ad mp = (r, mp')" by fastforce
  obtain j' where j: "j = Suc j'" using Cons.prems(2) by (cases j) auto
  have c: "clock_ok (ad_later ad) ads" using Cons.prems(1) by simp
  show ?case
  proof (cases i)
    case 0
    then obtain out where out: "r = Inr out" using Cons.prems(4) r by (cases r) auto
    have "mp_header_relay_last_seen mp' a = Some (ad_later ad)"
      by (rule add_success_stamps [OF r [unfolded admit_def out]]) (use Cons.prems(6) 0 in simp)
    then show ?thesis using stamped_run [OF c, of mp' a j' pe] Cons.prems 0 j r by simp
  next
    case (Suc i')
    then show ?thesis using Cons.IH [OF c, of i' j' mp'] Cons.prems j r by simp
  qed
qed simp

section \<open>A concrete pool\<close>

definition sample_pool_env :: "nat pool_env" where
  "sample_pool_env = \<lparr>pe_sha = pad32, pe_hex_decode = hex_decode_lower, pe_hex_encode = hex_string,
     pe_ratio = (\<lambda>fee sz. unat fee div sz), pe_zero = 0\<rparr>"

definition coin_state :: "(unit, unit) ChainState" where
  "coin_state = (empty_state sample_params ())\<lparr>ch_height := 200, ch_utxos :=
     [\<lparr>op_txid = replicate 32 1, op_index = 0\<rparr> \<mapsto>
        \<lparr>ut_output = \<lparr>out_value = 50000, script_pubkey = p2pkh_script (replicate 20 2)\<rparr>, ut_height = 1,
         ut_is_coinbase = False\<rparr>]\<rparr>"

definition pool_tx :: Transaction where
  "pool_tx = \<lparr>tx_version = 1,
     inputs = [\<lparr>prev_txid = replicate 32 1, prev_index = 0,
                script_sig = [3, 0x30, 0, 1, 33] @ replicate 33 2, sequence = 0\<rparr>],
     outputs = [\<lparr>out_value = 49000, script_pubkey = p2pkh_script (replicate 20 5)\<rparr>], locktime = 0\<rparr>"

lemma pool_tx_facts:
  "decode_full_tx (serialize_tx pool_tx) = Inr pool_tx" "calculate_fees sample_node coin_state pool_tx = Inr 1000"
  "validate_transaction sample_node coin_state pool_tx = Inr ()" "classify_tx_priority pool_tx coin_state = Standard"
  by code_simp+

lemma sample_pool:
  obtains mp where "pool_reachable sample_pool_env sample_node (\<lambda>s. s = coin_state) 1 0 500 mp"
    "map (me_tx \<circ> snd) (mp_entries mp) = [pool_tx]"
proof -
  let ?m = "\<lparr>mp_entries = [], mp_max_entries = 1, mp_min_fee_per_byte = 0, mp_min_total_fee = 500,
    mp_header_relay_last_seen = Map.empty\<rparr> :: nat MempoolManager"
  have s: "pool_reachable sample_pool_env sample_node (\<lambda>s. s = coin_state) 1 0 500 ?m"
    by (rule pool_reachable.start [of _ 0]) (simp add: mempool_new_def load_from_disk_def)
  obtain r mp where r: "receive_tx sample_pool_env sample_node coin_state 0 0 (Inr ()) (V4 1 2 3 4) ''peer'' None
      (serialize_tx pool_tx) ?m = (r, mp)" by fastforce
  have "pool_reachable sample_pool_env sample_node (\<lambda>s. s = coin_state) 1 0 500 mp"
    by (rule pool_reachable.receive [OF s refl r])
  moreover have "map (me_tx \<circ> snd) (mp_entries mp) = [pool_tx]"
    using r by (auto simp: receive_tx_def pool_tx_facts bindS_def liftE_def Let_def add_transaction_with_priority_def
        check_rate_def throttled_def make_room_def record_relay_def update_entry_def)
  ultimately show thesis by (rule that)
qed

lemma sample_hex: "\<forall>b. pe_hex_decode sample_pool_env (pe_hex_encode sample_pool_env b) = Some b"
  by (simp add: sample_pool_env_def hex_decode_lower_inverse)

section \<open>Properties\<close>

text \<open>
  C21. In every pool a node reaches by hearing transactions, dropping confirmed or invalid ones and
  restarting from its file, no transaction id occurs twice and each entry is filed under the id of its
  transaction; there is at most one pending carrier of Bitcoin headers and one of Litecoin headers; every
  entry that is not exempt from fees is above both fee floors; and there are no more entries than the
  capacity.
\<close>

theorem pool_well_formed:
  assumes "pool_reachable pe nd on cap min_fpb min_fee mp" "\<forall>b. pe_hex_decode pe (pe_hex_encode pe b) = Some b"
  shows "keyed pe mp \<and> policy_ok mp \<and> mp_max_entries mp = cap \<and> mp_min_fee_per_byte mp = min_fpb \<and> mp_min_total_fee mp = min_fee"
  using pool_reachable_inv [OF assms] by (simp add: pool_inv_def)

theorem pool_well_formed_witness:
  "\<exists>mp. pool_reachable sample_pool_env sample_node (\<lambda>s. s = coin_state) 1 0 500 mp \<and>
     map (me_tx \<circ> snd) (mp_entries mp) = [pool_tx] \<and> policy_ok mp"
proof -
  obtain mp where m: "pool_reachable sample_pool_env sample_node (\<lambda>s. s = coin_state) 1 0 500 mp"
    "map (me_tx \<circ> snd) (mp_entries mp) = [pool_tx]" by (rule sample_pool)
  then show ?thesis using pool_well_formed [OF m(1) sample_hex] by (intro exI [of _ mp]) simp
qed

text \<open>
  C22. Eviction never costs a better entry: an entry is evicted only from a full pool, no other entry
  ranks below it, and the newcomer ranks strictly above it, by priority class first and fee rate second.
  So a transaction exempt from fees never displaces a paying one. Everything else in the pool stays.
\<close>

theorem eviction_only_upgrades:
  assumes "add_transaction_with_priority pe now later disk tx raw fee priority ip mp = (Inr out, mp')"
    and "keyed pe mp" "ao_evicted out = Some t"
  shows "\<exists>e. map_of (mp_entries mp) t = Some e \<and> evict_before e (new_entry pe now tx raw fee priority) \<and>
    (\<forall>(k, e') \<in> set (mp_entries mp). \<not> evict_before e' e) \<and> mp_max_entries mp \<le> length (mp_entries mp) \<and>
    (priority = ZeroFeeAllowed \<longrightarrow> me_priority e = ZeroFeeAllowed) \<and>
    mp_entries mp' = AList.delete t (mp_entries mp) @ [(txid (pe_sha pe) tx, new_entry pe now tx raw fee priority)]"
proof -
  obtain e where e: "map_of (mp_entries mp) t = Some e" "evict_before e (new_entry pe now tx raw fee priority)"
    "\<forall>(k, e') \<in> set (mp_entries mp). \<not> evict_before e' e" "length (mp_entries mp) \<ge> mp_max_entries mp"
    "mp_entries mp' = AList.delete t (mp_entries mp) @ [(txid (pe_sha pe) tx, new_entry pe now tx raw fee priority)]"
    by (rule add_evicts [OF assms])
  have "me_priority e = ZeroFeeAllowed" if "priority = ZeroFeeAllowed"
    using e(2) that by (cases "me_priority e") (simp_all add: evict_before_def new_entry_def)
  then show ?thesis using e by blast
qed

definition cheap_tx :: Transaction where
  "cheap_tx = pool_tx\<lparr>tx_version := 2\<rparr>"

definition full_pool :: "nat MempoolManager" where
  "full_pool = \<lparr>mp_entries = [(txid pad32 cheap_tx, new_entry sample_pool_env 0 cheap_tx (serialize_tx cheap_tx) 0 ZeroFeeAllowed)],
     mp_max_entries = 1, mp_min_fee_per_byte = 0, mp_min_total_fee = 0, mp_header_relay_last_seen = Map.empty\<rparr>"

lemma txids_differ: "txid pad32 pool_tx \<noteq> txid pad32 cheap_tx"
  by code_simp

lemma no_carriers: "\<not> carries_btc pool_tx" "\<not> carries_ltc pool_tx" "\<not> carries_btc cheap_tx" "\<not> carries_ltc cheap_tx"
  by code_simp+

theorem eviction_only_upgrades_witness:
  "\<exists>mp' out. add_transaction_with_priority sample_pool_env 0 0 (Inr ()) pool_tx (serialize_tx pool_tx) 1000 Standard None full_pool =
       (Inr out, mp') \<and> ao_evicted out = Some (txid pad32 cheap_tx) \<and>
     map fst (mp_entries mp') = [txid pad32 pool_tx]"
proof -
  have k: "keyed sample_pool_env full_pool"
    by (simp add: keyed_def full_pool_def new_entry_def sample_pool_env_def)
  let ?r = "add_transaction_with_priority sample_pool_env 0 0 (Inr ()) pool_tx (serialize_tx pool_tx) 1000 Standard None full_pool"
  let ?o = "\<lparr>ao_txid = txid pad32 pool_tx, ao_evicted = Some (txid pad32 cheap_tx)\<rparr>"
  have sha: "pe_sha sample_pool_env = pad32" by (simp add: sample_pool_env_def)
  have "fst ?r = Inr ?o"
    using txids_differ
    by (simp add: add_transaction_with_priority_def sha full_pool_def Let_def no_carriers new_entry_def bindS_def liftE_def
        check_rate_def throttled_def make_room_def pick_eviction_target_def)
  then have a: "?r = (Inr ?o, snd ?r)" by (metis prod.collapse)
  have t: "ao_evicted ?o = Some (txid pad32 cheap_tx)" by simp
  have "map fst (mp_entries (snd ?r)) = [txid pad32 pool_tx]"
    using eviction_only_upgrades [OF a k t] by (auto simp: full_pool_def sha)
  then show ?thesis by (intro exI [of _ "snd ?r"] exI [of _ ?o] conjI a t)
qed

text \<open>
  C23. Fee-exempt transactions are rate limited: whatever else the pool is offered in between, by
  whomever, two of them from one address that is not the local host are admitted at least 600 seconds
  apart, as long as the clock does not run backwards and the node is not restarted.
\<close>

theorem fee_exempt_rate_limit:
  assumes "clock_ok t0 ads" "i < j" "j < length ads"
    and "admit_all pe ads mp ! i = Inr out" "admit_all pe ads mp ! j = Inr out'"
    and "ad_priority (ads ! i) = ZeroFeeAllowed" "ad_priority (ads ! j) = ZeroFeeAllowed"
    and "ad_ip (ads ! i) = Some a" "ad_ip (ads ! j) = Some a" "\<not> is_loopback a"
  shows "ad_later (ads ! i) + 600 * NANOS \<le> ad_now (ads ! j)"
  by (rule rate_limit [OF assms(1-3), of pe mp a]) (use assms(4-) in \<open>simp_all add: throttled_Some\<close>)

definition two_admissions :: "admission list" where
  "two_admissions =
     [\<lparr>ad_now = 0, ad_later = 5, ad_disk = Inr (), ad_tx = pool_tx, ad_raw = serialize_tx pool_tx, ad_fee = 0,
       ad_priority = ZeroFeeAllowed, ad_ip = Some (V4 1 2 3 4)\<rparr>,
      \<lparr>ad_now = 600000000005, ad_later = 600000000006, ad_disk = Inr (), ad_tx = cheap_tx, ad_raw = serialize_tx cheap_tx,
       ad_fee = 0, ad_priority = ZeroFeeAllowed, ad_ip = Some (V4 1 2 3 4)\<rparr>]"

theorem fee_exempt_rate_limit_witness:
  "\<exists>out out'. admit_all sample_pool_env two_admissions (full_pool\<lparr>mp_entries := [], mp_max_entries := 2\<rparr>) = [Inr out, Inr out'] \<and>
     ad_later (two_admissions ! 0) + 600 * NANOS \<le> ad_now (two_admissions ! 1)"
proof -
  let ?mp = "full_pool\<lparr>mp_entries := [], mp_max_entries := 2\<rparr>"
  have "\<exists>out out'. admit_all sample_pool_env two_admissions ?mp = [Inr out, Inr out']"
    using txids_differ
    by (simp add: two_admissions_def admit_def add_transaction_with_priority_def full_pool_def Let_def no_carriers bindS_def
        liftE_def check_rate_def throttled_def make_room_def is_loopback_def gc_header_relay_rate_table_def sample_pool_env_def)
  then obtain out out' where o: "admit_all sample_pool_env two_admissions ?mp = [Inr out, Inr out']" by blast
  have "ad_later (two_admissions ! 0) + 600 * NANOS \<le> ad_now (two_admissions ! 1)"
    by (rule fee_exempt_rate_limit [of 0 two_admissions 0 1 sample_pool_env ?mp out out' "V4 1 2 3 4"])
      (simp_all add: o, simp_all add: two_admissions_def is_loopback_def)
  then show ?thesis using o by blast
qed

text \<open>
  C24. After a new block the pool keeps exactly the transactions that the chain still accepts, each in
  its place, and reports how many it dropped, provided the check of each entry answers at all: a panic
  inside the script parser is not caught.
\<close>

theorem evict_invalid_exact:
  assumes "keyed pe mp" "pe_sha pe = nd_sha nd"
    and "\<forall>(_, e) \<in> set (mp_entries mp). answers (validate_transaction nd s (me_tx e))"
  shows "evict_invalid_mempool_entries nd s mp =
    (Inr (length (filter (\<lambda>(_, e). isl (validate_transaction nd s (me_tx e))) (mp_entries mp))),
     mp\<lparr>mp_entries := filter (\<lambda>(_, e). \<not> isl (validate_transaction nd s (me_tx e))) (mp_entries mp)\<rparr>)"
proof -
  have "length (mp_entries mp) - length (filter (\<lambda>x. \<not> P x) (mp_entries mp)) = length (filter P (mp_entries mp))" for P
    using sum_length_filter_compl [of P "mp_entries mp"] by simp
  from this [of "\<lambda>(_, e). isl (validate_transaction nd s (me_tx e))"] show ?thesis
    using evict_invalid_keeps_valid [OF assms] by (simp add: case_prod_unfold)
qed

lemma stray_tx_invalid:
  "validate_transaction sample_node coin_state (pool_tx\<lparr>inputs := []\<rparr>) = Inl (Err ''Transaction must have at least one input'')"
  "txid pad32 pool_tx \<noteq> txid pad32 (pool_tx\<lparr>inputs := []\<rparr>)"
  by code_simp+

theorem evict_invalid_exact_witness:
  "\<exists>mp mp'. map (me_tx \<circ> snd) (mp_entries mp) = [pool_tx\<lparr>inputs := []\<rparr>, pool_tx] \<and>
     evict_invalid_mempool_entries sample_node coin_state (mp :: nat MempoolManager) = (Inr 1, mp') \<and>
     map (me_tx \<circ> snd) (mp_entries mp') = [pool_tx]"
proof -
  let ?e = "\<lambda>tx. (txid pad32 tx, new_entry sample_pool_env 0 tx (serialize_tx tx) 1000 Standard)"
  let ?mp = "full_pool\<lparr>mp_entries := [?e (pool_tx\<lparr>inputs := []\<rparr>), ?e pool_tx]\<rparr>"
  have k: "keyed sample_pool_env ?mp" "pe_sha sample_pool_env = nd_sha sample_node"
    using stray_tx_invalid(2) by (auto simp: keyed_def new_entry_def sample_pool_env_def sample_node_def sample_crypto_def)
  have a: "\<forall>(_, e) \<in> set (mp_entries ?mp). answers (validate_transaction sample_node coin_state (me_tx e))"
    by (simp add: new_entry_def answers_def stray_tx_invalid(1) pool_tx_facts(3))
  show ?thesis
    by (rule exI [of _ ?mp]) (simp add: evict_invalid_exact [OF k a], simp add: new_entry_def stray_tx_invalid(1) pool_tx_facts(3))
qed



end
