(* ===== verification/Spec2Isabelle.thy ===== *)
theory Spec2Isabelle
  imports Mempool
begin

text \<open>
  A verification library for the Irium node (\<open>src/src/*.rs\<close>), a proof-of-work blockchain in Rust with
  on-chain settlement outputs, atomic swaps against Bitcoin and Litecoin through header relays, and merged
  mining. The library models the consensus core from bytes to fork choice and the pool of unconfirmed
  transactions in front of it. Names of definitions are those of the source.

  \<^bold>\<open>Conventions.\<close> Bytes and machine integers are words (\<open>u8\<close>, \<open>u32\<close>, \<open>u64\<close>) that wrap as in a release
  build; an \<open>i64\<close> is a 64-bit word read by \<open>sint\<close>; \<open>usize\<close> is \<open>nat\<close> and \<open>BigUint\<close> is \<open>nat\<close>. A \<open>Result\<close> is a
  sum type with \<open>Inl\<close> the error; \<open>Panic\<close> is an error of its own, so that an abort of the thread is visible,
  and \<open>OutOfFuel\<close> marks a loop cut short by the model. A method on \<open>&mut self\<close> maps a state to its result and
  the state it leaves behind, also when it fails. SHA-256, RIPEMD-160, ECDSA, scrypt, hexadecimal and JSON
  come from crates and are parameters; the environment, the clock and the outcome of a file write are
  arguments. Hash maps that the code iterates over are association lists, the others are functions.

  \<^bold>\<open>Theories\<close>, each with the file it models.
  \<^item> \<open>Prelude\<close>: results, stateful methods, byte strings and words; the locales \<open>wire_codec\<close> and
    \<open>script_codec\<close> of the codecs.
  \<^item> \<open>Pow\<close> (\<open>pow.rs\<close>): compact targets. Encoding clears exactly the bytes below the mantissa and its fixed
    points are characterised.
  \<^item> \<open>TxWire\<close>, \<open>Scripts\<close>, \<open>Witness\<close> (\<open>tx.rs\<close>): the wire format, the output scripts and the witnesses, with
    round trips in both directions and the inputs on which the decoder panics.
  \<^item> \<open>Activation\<close> (\<open>activation.rs\<close>, \<open>constants.rs\<close>, \<open>network_era.rs\<close>): activation heights and rewards over an
    explicit environment. \<open>Gates\<close> (\<open>poawx_*.rs\<close>): the switches of PoAW-X and its fork-choice limits.
  \<^item> \<open>Auxpow\<close> (\<open>auxpow.rs\<close>) and \<open>Block\<close> (\<open>block.rs\<close>): merged mining, headers, Merkle trees, block codec.
  \<^item> \<open>BtcTx\<close> (\<open>btc_tx_parse.rs\<close>), \<open>BtcSpv\<close> (\<open>btc_spv.rs\<close>), \<open>LtcSpv\<close> (\<open>ltc_spv.rs\<close>, \<open>scrypt_pow.rs\<close>): parsing
    of Bitcoin transactions and the two header relays. The locale \<open>header_relay\<close> holds the contract both
    relays keep (consistent heights and work, maximal tip, exact undo) and is interpreted on each.
  \<^item> \<open>Verify\<close> (\<open>chain.rs\<close>): \<open>validate_output\<close> and \<open>verify_transaction_signature\<close>, every kind of output and spend.
  \<^item> \<open>Difficulty\<close>, \<open>Ledger\<close>, \<open>Chain\<close> (\<open>chain.rs\<close>): targets and work; the checks on transactions and the
    application of a block; connecting, disconnecting, caches, header tree, orphans, reorganisation and
    \<open>process_block\<close>.
  \<^item> \<open>Connect\<close>, \<open>ChainInv\<close>, \<open>ChainProps\<close>: what the chain operations do. \<open>ChainInv\<close> has the invariant (valid
    chain; coins, issued supply and undo records sound at every depth), the locale \<open>ledger_contract\<close>, which
    carries any invariant kept by connecting and disconnecting to the operations built on them, its
    interpretation on that invariant, and the inductive predicate \<open>reachable\<close> over the public operations.
  \<^item> \<open>Genesis\<close> (\<open>genesis.rs\<close>, \<open>chain.rs\<close>, \<open>configs/genesis-locked.json\<close>): the compiled-in genesis block and
    the supply of mainnet.
  \<^item> \<open>Mempool\<close> (\<open>mempool.rs\<close>, parts of \<open>p2p.rs\<close> and \<open>chain.rs\<close>): admission, eviction, rate limits, the file,
    the sweep after a block and the handler of a transaction from a peer, with the inductive predicate
    \<open>pool_reachable\<close>.

  \<^bold>\<open>What the theorems show.\<close> For the chain: in every reachable state coins are covered by the issued supply,
  which respects the cap and the schedule; the main chain is valid block by block; disconnecting undoes
  connecting, up to one stated exception; reorganisations respect finality; honest blocks are accepted.
  For scripts: swap claims are accepted exactly under their declarative specification, multi-party outputs
  need the right quorum on the right side of the timeout. For the relays: consistency, exact undo,
  termination. For difficulty: the LWMA loop computes its formula, with bounded steps and the right fixed
  point. For the pool: well-formedness, eviction and rate-limit guarantees, exactness of the sweep, restart.
  For the codecs: exact round trips. Where the code does not do what it should, or its documentation says
  otherwise, the theorem states what happens: panics on wrapped lengths, the unchecked first retarget and
  the forged payment it admits, the shared output of expired orders, the coin lost with a repeated coinbase,
  the environment's influence on mainnet's finality limits, and the height at which the supply cap is met.

  \<^bold>\<open>Bounds and fuel.\<close> The ancestor walks of the relays take fuel \<open>window + 1\<close>, proved enough in a consistent
  relay (\<open>apply_btc_header_batch_returns\<close>, \<open>ltc_relay_correct\<close>). Walks along parent links in \<open>Chain\<close>
  (\<open>find_reorg_path\<close>, \<open>process_block\<close>) take fuel as an argument, and the invariants hold for every amount.
  Chains have at most \<open>2 ^ 63 - 1\<close> blocks, as a Rust vector has; blocks are those whose transactions fit the
  wire format (\<open>block_counts_ok\<close>).

  \<^bold>\<open>Not modelled.\<close> The PoAW-X objects behind the gates (receipts, tickets, VRF proofs, penalties, committee
  votes: \<open>poawx*.rs\<close>) build on third-party VRF and signature schemes; the chain model takes the checks on a
  block and the updates of the PoAW-X state as the argument record \<open>poawx\<close>, and its theorems hold for every
  choice. That record can refuse blocks, change the PoAW-X state and advance finality, not the ledger, as in
  the code. Receipt element codecs are an argument of \<open>Block\<close> likewise. The network (\<open>p2p.rs\<close> apart from the
  handler above, \<open>network.rs\<close>, \<open>protocol.rs\<close>, \<open>p2p_wire.rs\<close>, peer scoring) is asynchronous I\<open>/\<close>O; \<open>storage.rs\<close>
  and the signed anchor file are file access; \<open>settlement.rs\<close> and the wallets keep off-chain JSON records and
  keys; the programs under \<open>bin\<close>, the pool, explorer, swap coordinator, SDK and web front end use the node
  from outside. \<open>rebuild_to_tip\<close> and \<open>gather_branch_to_genesis\<close> in \<open>chain.rs\<close> are never called.
\<close>

end
